(* ===== verification/Prelude.thy ===== *)
theory Prelude
  imports Main "HOL-Library.Word" "HOL-Library.Signed_Division"
begin

text \<open>
  What every theory of the development shares: the machine integers of the C sources as
  words, the byte-addressed memory of an AArch64 process with its little-endian loads and
  stores, NUL-terminated strings in that memory, and the lemmas about them that the
  component proofs use through the collections \<open>mem_simps\<close> (what a load sees after a store)
  and \<open>region_intros\<close> (when two regions do not overlap).

  A pointer is a \<open>64 word\<close>; the null pointer is \<open>0\<close>. The memory is a total function, so
  an access outside every mapping is not an error of the model; what an operation may write
  is stated by frame lemmas instead.
\<close>

named_theorems mem_simps \<open>reads after writes of the byte memory\<close>
named_theorems region_intros \<open>separation of memory regions\<close>

unbundle bit_operations_syntax

type_synonym u8 = "8 word"
type_synonym u16 = "16 word"
type_synonym u32 = "32 word"
type_synonym u64 = "64 word"
type_synonym i32 = "32 word"
type_synonym i64 = "64 word"
type_synonym mem = "u64 \<Rightarrow> u8"

subsection \<open>Words\<close>

lemma unat_Suc_less: "n \<noteq> 0 \<Longrightarrow> unat (n - 1) < unat (n :: 'a::len word)"
  by (metis measure_unat)

lemma unat_pred: "n \<noteq> 0 \<Longrightarrow> unat (n - 1 :: 'a::len word) = unat n - 1"
  by (metis unat_minus_one)

lemma unat_of_nat_small: "n < 2 ^ LENGTH('a) \<Longrightarrow> unat (of_nat n :: 'a::len word) = n"
  by (simp add: unat_of_nat take_bit_nat_eq_self)

lemma add_mod_cases:
  "(x :: nat) < k \<Longrightarrow> y < k \<Longrightarrow> (x + y) mod k = (if x + y < k then x + y else x + y - k)"
  by (simp add: mod_if)

lemma unat_eq_SucD: "Suc k = unat n \<Longrightarrow> n \<noteq> 0 \<and> unat (n - 1 :: 'a::len word) = k"
  by (cases "n = 0") (simp_all add: unat_pred flip: Suc_pred)

lemma unat_less_2p: "unat (a :: 'a::len word) < 2 ^ LENGTH('a)"
  by (rule unsigned_less)

lemma unat_inc: "i < n \<Longrightarrow> unat (i + 1) = Suc (unat (i :: 'a::len word))"
proof -
  assume "i < n"
  then have "unat i + 1 < 2 ^ LENGTH('a)"
    using unat_less_2p [of n] by (metis Suc_eq_plus1 Suc_leI le_less_trans word_less_nat_alt)
  then show ?thesis by (simp add: unat_word_ariths)
qed

lemma unat_inc_less: "i < n \<Longrightarrow> unat n - unat (i + 1) < unat n - unat (i :: 'a::len word)"
  by (simp add: unat_inc word_less_nat_alt diff_less_mono2)

lemma sint_of_int_small:
  "- (2 ^ (LENGTH('a) - 1)) \<le> k \<Longrightarrow> k < 2 ^ (LENGTH('a) - 1) \<Longrightarrow>
   sint (of_int k :: 'a::len word) = k"
  by (simp add: signed_of_int signed_take_bit_int_eq_self)

lemma sint_of_nat_small: "n < 2 ^ (LENGTH('a) - 1) \<Longrightarrow> sint (of_nat n :: 'a::len word) = int n"
proof -
  assume "n < 2 ^ (LENGTH('a) - 1)"
  then have "int n < 2 ^ (LENGTH('a) - 1)"
    by (metis of_nat_less_iff of_nat_numeral of_nat_power)
  moreover have "- (2 ^ (LENGTH('a) - 1)) \<le> int n"
    by (rule order_trans [of _ 0]) simp_all
  ultimately show ?thesis
    by (simp add: signed_of_nat signed_take_bit_int_eq_self)
qed

lemma ucast_of_nat_small:
  "n < 2 ^ LENGTH('a) \<Longrightarrow> ucast (of_nat n :: 'a::len word) = (of_nat n :: 'b::len word)"
  by (simp add: unsigned_of_nat take_bit_nat_eq_self)

lemma scast_of_nat_small:
  "n < 2 ^ (LENGTH('a) - 1) \<Longrightarrow> scast (of_nat n :: 'a::len word) = (of_nat n :: 'b::len word)"
  by (simp add: scast_eq sint_of_nat_small)

lemma unat_diff_circ:
  "unat (a - b :: 'a::len word) =
     (if unat b \<le> unat a then unat a - unat b else 2 ^ LENGTH('a) + unat a - unat b)"
  by (simp add: unat_sub_if' add.commute)

subsection \<open>Regions of the address space\<close>

text \<open>
  The region of \<open>n\<close> bytes at \<open>p\<close> is the set of addresses less than \<open>n\<close> steps after
  \<open>p\<close>; it wraps round at the end of the address space, as pointer arithmetic does.
\<close>

definition in_region :: "u64 \<Rightarrow> nat \<Rightarrow> u64 \<Rightarrow> bool" where
  "in_region p n a \<longleftrightarrow> unat (a - p) < n"

definition apart :: "u64 \<Rightarrow> nat \<Rightarrow> u64 \<Rightarrow> nat \<Rightarrow> bool" where
  "apart p n q k \<longleftrightarrow> n \<le> unat (q - p) \<and> k \<le> unat (p - q)"

lemma apart_sym: "apart p n q k \<longleftrightarrow> apart q k p n"
  by (auto simp: apart_def)

lemma in_region_self [simp]: "in_region p n p \<longleftrightarrow> 0 < n"
  by (simp add: in_region_def)

lemma apartD: "apart p n q k \<Longrightarrow> in_region p n a \<Longrightarrow> \<not> in_region q k a"
proof
  assume ap: "apart p n q k" and a: "in_region p n a" "in_region q k a"
  let ?M = "2 ^ 64 :: nat"
  have lt: "unat a < ?M" "unat p < ?M" "unat q < ?M"
    using unat_less_2p [of a] unat_less_2p [of p] unat_less_2p [of q] by auto
  have d: "unat (x - y) = (if unat y \<le> unat x then unat x - unat y else ?M + unat x - unat y)" for x y :: u64
    by (simp add: unat_diff_circ)
  show False
    using ap a lt unfolding apart_def in_region_def d by (simp only: split: if_splits)
qed

lemma apart_mono:
  "apart p n q k \<Longrightarrow> n' \<le> n \<Longrightarrow> k' \<le> k \<Longrightarrow> apart p n' q k'"
  by (auto simp: apart_def)

lemma unat_add_le: "unat (a + b) \<le> unat a + unat (b :: 'a::len word)"
  by (simp add: unat_word_ariths)

lemma in_region_shift:
  assumes "in_region (p + of_nat i) n a"
  shows "in_region p (i + n) a"
proof -
  have "unat (of_nat i :: u64) \<le> i"
    by (simp add: unat_of_nat)
  moreover have "unat (a - p) \<le> unat (a - (p + of_nat i)) + unat (of_nat i :: u64)"
    using unat_add_le [of "a - (p + of_nat i)" "of_nat i"] by simp
  ultimately show ?thesis
    using assms by (simp add: in_region_def)
qed

subsection \<open>Byte sequences in memory\<close>

primrec bytes_at :: "mem \<Rightarrow> u64 \<Rightarrow> nat \<Rightarrow> u8 list" where
  "bytes_at m p 0 = []"
| "bytes_at m p (Suc n) = m p # bytes_at m (p + 1) n"

lemma bytes_at_numeral:
  "bytes_at m p (numeral k) = m p # bytes_at m (p + 1) (pred_numeral k)"
  by (simp add: numeral_eq_Suc)

primrec write_bytes :: "mem \<Rightarrow> u64 \<Rightarrow> u8 list \<Rightarrow> mem" where
  "write_bytes m p [] = m"
| "write_bytes m p (b # bs) = write_bytes (m(p := b)) (p + 1) bs"

lemma length_bytes_at [simp]: "length (bytes_at m p n) = n"
  by (induction n arbitrary: p) auto

lemma nth_bytes_at [simp]: "i < n \<Longrightarrow> bytes_at m p n ! i = m (p + of_nat i)"
  by (induction n arbitrary: p i) (auto simp: nth_Cons add.assoc split: nat.splits)

lemma bytes_at_add: "bytes_at m p (i + n) = bytes_at m p i @ bytes_at m (p + of_nat i) n"
  by (induction i arbitrary: p) (auto simp: algebra_simps)

lemma bytes_at_cong:
  "(\<And>i. i < n \<Longrightarrow> m (p + of_nat i) = m' (p + of_nat i)) \<Longrightarrow> bytes_at m p n = bytes_at m' p n"
  by (rule nth_equalityI) auto

lemma write_bytes_append:
  "write_bytes m p (bs @ cs) = write_bytes (write_bytes m p bs) (p + of_nat (length bs)) cs"
  by (induction bs arbitrary: m p) (auto simp: algebra_simps)

text \<open>What a byte of memory is after a write: the workhorse of the memory proofs.\<close>

lemma write_bytes_apply:
  assumes "length bs \<le> 2 ^ 64"
  shows "write_bytes m p bs a =
    (if unat (a - p) < length bs then bs ! unat (a - p) else m a)"
  using assms
proof (induction bs arbitrary: m p)
  case Nil
  then show ?case by simp
next
  case (Cons b bs)
  have IH: "write_bytes (m(p := b)) (p + 1) bs a =
      (if unat (a - (p + 1)) < length bs then bs ! unat (a - (p + 1)) else (m(p := b)) a)"
    using Cons by simp
  show ?case
  proof (cases "a = p")
    case True
    have "unat (p - (p + 1)) = 2 ^ 64 - 1"
      by (simp add: unat_word_ariths unsigned_minus_1_eq_mask mask_eq_exp_minus_1)
    then have "\<not> unat (p - (p + 1)) < length bs" using Cons.prems by simp
    with True IH show ?thesis by simp
  next
    case False
    then have "a - p \<noteq> 0" by simp
    then have "unat (a - p - 1) = unat (a - p) - 1" and "0 < unat (a - p)"
      by (simp_all add: unat_pred unat_gt_0)
    then show ?thesis
      using IH False by (auto simp: algebra_simps nth_Cons' less_Suc_eq_0_disj)
  qed
qed

lemma write_bytes_other:
  "length bs \<le> 2 ^ 64 \<Longrightarrow> \<not> in_region p (length bs) a \<Longrightarrow> write_bytes m p bs a = m a"
  by (simp add: write_bytes_apply in_region_def)

lemma bytes_at_write_same [mem_simps]:
  assumes "length bs \<le> 2 ^ 64" and "n = length bs"
  shows "bytes_at (write_bytes m p bs) p n = bs"
proof (rule nth_equalityI)
  fix i assume "i < length (bytes_at (write_bytes m p bs) p n)"
  then have "i < n" and "unat (of_nat i :: u64) = i"
    using assms by (simp, intro unat_of_nat_small) simp
  then show "bytes_at (write_bytes m p bs) p n ! i = bs ! i"
    using assms by (simp add: write_bytes_apply)
qed (use assms in simp)

lemma in_region_index: "n \<le> 2 ^ 64 \<Longrightarrow> i < n \<Longrightarrow> in_region p n (p + of_nat i)"
  by (simp add: in_region_def unat_of_nat_small)

lemma bytes_at_write_apart [mem_simps]:
  assumes "apart p (length bs) q n" and "length bs \<le> 2 ^ 64" and "n \<le> 2 ^ 64"
  shows "bytes_at (write_bytes m p bs) q n = bytes_at m q n"
proof (rule bytes_at_cong)
  fix i assume "i < n"
  with assms(3) have "in_region q n (q + of_nat i)" by (simp add: in_region_index)
  with assms(1) have "\<not> in_region p (length bs) (q + of_nat i)"
    using apartD by blast
  then show "write_bytes m p bs (q + of_nat i) = m (q + of_nat i)"
    by (rule write_bytes_other [OF assms(2)])
qed

lemma write_bytes_snoc:
  "write_bytes m p (bs @ [c]) = (write_bytes m p bs)(p + of_nat (length bs) := c)"
  by (simp add: write_bytes_append)

lemma add_of_nat_eq_iff:
  assumes "i < 2 ^ 64"
  shows "(a :: u64) = p + of_nat i \<longleftrightarrow> unat (a - p) = i"
proof
  assume "unat (a - p) = i"
  then have "of_nat i = a - p" by auto
  then show "a = p + of_nat i" by simp
qed (use assms in \<open>simp add: unat_of_nat_small\<close>)

lemma write_bytes_upd:
  assumes "j < length bs" and "length bs \<le> 2 ^ 64"
  shows "(write_bytes m p bs)(p + of_nat j := c) = write_bytes m p (bs[j := c])"
proof
  fix a
  show "((write_bytes m p bs)(p + of_nat j := c)) a = write_bytes m p (bs[j := c]) a"
    using assms by (auto simp: write_bytes_apply add_of_nat_eq_iff nth_list_update)
qed

lemma write_bytes_nth:
  "j < length bs \<Longrightarrow> length bs \<le> 2 ^ 64 \<Longrightarrow> write_bytes m p bs (p + of_nat j) = bs ! j"
  by (simp add: write_bytes_apply unat_of_nat_small)

lemma write_bytes_over:
  "length bs = length cs \<Longrightarrow> length cs \<le> 2 ^ 64 \<Longrightarrow>
   write_bytes (write_bytes m p bs) p cs = write_bytes m p cs"
  by (rule ext) (simp add: write_bytes_apply)

subsection \<open>Little-endian loads and stores\<close>

primrec from_le :: "u8 list \<Rightarrow> 'a::len word" where
  "from_le [] = 0"
| "from_le (b # bs) = ucast b OR push_bit 8 (from_le bs)"

primrec to_le :: "nat \<Rightarrow> 'a::len word \<Rightarrow> u8 list" where
  "to_le 0 w = []"
| "to_le (Suc n) w = ucast w # to_le n (drop_bit 8 w)"

lemma length_to_le [simp]: "length (to_le n w) = n"
  by (induction n arbitrary: w) auto

lemma from_le_to_le: "from_le (to_le n w) = take_bit (8 * n) (w :: 'a::len word)"
proof (induction n arbitrary: w)
  case (Suc n)
  show ?case
    by (rule bit_word_eqI)
      (auto simp: Suc bit_simps)
qed simp

lemma to_le_from_le:
  "8 * length bs \<le> LENGTH('a) \<Longrightarrow> to_le (length bs) (from_le bs :: 'a::len word) = bs"
proof (induction bs)
  case (Cons b bs)
  have 1: "ucast (from_le (b # bs) :: 'a word) = b"
    using Cons.prems by (intro bit_word_eqI) (auto simp: bit_simps)
  have 2: "drop_bit 8 (from_le (b # bs) :: 'a word) = from_le bs"
  proof (rule bit_word_eqI)
    fix n assume "n < LENGTH('a)"
    have small: "bit (from_le cs :: 'a word) k \<Longrightarrow> k < 8 * length cs" for cs k
    proof (induction cs arbitrary: k)
      case (Cons c cs)
      from Cons.prems have "bit c k \<or> (8 \<le> k \<and> bit (from_le cs :: 'a word) (k - 8))"
        by (auto simp: bit_simps)
      then show ?case
        using Cons.IH [of "k - 8"] bit_imp_le_length [of c k] by auto
    qed simp
    show "bit (drop_bit 8 (from_le (b # bs)) :: 'a word) n = bit (from_le bs :: 'a word) n"
      using Cons.prems small [of bs n] by (auto simp: bit_simps dest: bit_imp_le_length)
  qed
  show ?case using Cons 1 2 by simp
qed simp

definition ld8 :: "mem \<Rightarrow> u64 \<Rightarrow> u8" where "ld8 m a = m a"
definition ld16 :: "mem \<Rightarrow> u64 \<Rightarrow> u16" where "ld16 m a = from_le (bytes_at m a 2)"
definition ld32 :: "mem \<Rightarrow> u64 \<Rightarrow> u32" where "ld32 m a = from_le (bytes_at m a 4)"
definition ld64 :: "mem \<Rightarrow> u64 \<Rightarrow> u64" where "ld64 m a = from_le (bytes_at m a 8)"

definition st32 :: "mem \<Rightarrow> u64 \<Rightarrow> u32 \<Rightarrow> mem" where "st32 m a v = write_bytes m a (to_le 4 v)"
definition st64 :: "mem \<Rightarrow> u64 \<Rightarrow> u64 \<Rightarrow> mem" where "st64 m a v = write_bytes m a (to_le 8 v)"

text \<open>A part of a region, and two regions moved by the same distance.\<close>

lemma apart_shift:
  assumes ap: "apart p N q k" and i: "i + n \<le> N" "0 < n"
  shows "apart (p + of_nat i) n q k"
proof -
  let ?d = "unat (q - p)" and ?e = "unat (p - q)"
  have N: "N \<le> ?d" "k \<le> ?e" using ap by (simp_all add: apart_def)
  then have "i < ?d" using i by linarith
  then have "q - p \<noteq> 0" by auto
  have id: "unat (of_nat i :: u64) = i"
    using \<open>i < ?d\<close> unat_less_2p [of "q - p"] by (simp add: unat_of_nat_small)
  have de: "?d + ?e = 2 ^ 64"
  proof -
    have "?e = unat (- (q - p))" by simp
    also have "\<dots> = 2 ^ 64 - ?d"
      using \<open>q - p \<noteq> 0\<close> by (simp add: unat_diff_circ [of 0 "q - p", simplified] unat_eq_0)
    finally show ?thesis using unat_less_2p [of "q - p"] by simp
  qed
  have "unat (q - (p + of_nat i)) = unat (q - p - of_nat i)" by (simp add: algebra_simps)
  also have "\<dots> = ?d - i" using \<open>i < ?d\<close> by (simp add: unat_diff_circ id)
  finally have 1: "n \<le> unat (q - (p + of_nat i))" using N i by linarith
  have "unat (p + of_nat i - q) = unat (p - q + of_nat i)" by (simp add: algebra_simps)
  also have "\<dots> = ?e + i" using \<open>i < ?d\<close> de by (simp add: unat_word_ariths id)
  finally have "k \<le> unat (p + of_nat i - q)" using N by linarith
  with 1 show ?thesis by (simp add: apart_def)
qed

lemma in_subregion: "in_region (p + of_nat k) n x \<Longrightarrow> k + n \<le> N \<Longrightarrow> in_region p N x"
proof -
  assume a: "in_region (p + of_nat k) n x" "k + n \<le> N"
  have "x - p = (x - (p + of_nat k)) + of_nat k" by simp
  then have "unat (x - p) \<le> unat (x - (p + of_nat k)) + unat (of_nat k :: u64)"
    using unat_add_le [of "x - (p + of_nat k)" "of_nat k"] by metis
  moreover have "unat (of_nat k :: u64) \<le> k" by (simp add: unat_of_nat)
  ultimately show ?thesis using a by (simp add: in_region_def)
qed

lemma apart_step: "apart (p + 1) n (q + 1) k = apart p n q k"
  by (simp add: apart_def)

lemma apart_advance: "apart (p + a) n (q + a) k = apart p n q k"
  by (simp add: apart_def)

lemma ld64_st64_same [mem_simps, simp]: "ld64 (st64 m a v) a = v"
  by (simp add: ld64_def st64_def bytes_at_write_same from_le_to_le take_bit_word_eq_self del: bytes_at.simps to_le.simps)

lemma ld32_st32_same [mem_simps, simp]: "ld32 (st32 m a v) a = v"
  by (simp add: ld32_def st32_def bytes_at_write_same from_le_to_le take_bit_word_eq_self del: bytes_at.simps to_le.simps)

lemma ld_st_apart [mem_simps]:
  "apart a 8 b 8 \<Longrightarrow> ld64 (st64 m a v) b = ld64 m b"
  "apart a 8 b 4 \<Longrightarrow> ld32 (st64 m a v) b = ld32 m b"
  "apart a 8 b 2 \<Longrightarrow> ld16 (st64 m a v) b = ld16 m b"
  "apart a 8 b 1 \<Longrightarrow> ld8 (st64 m a v) b = ld8 m b"
  "apart a 4 b 8 \<Longrightarrow> ld64 (st32 m a w) b = ld64 m b"
  "apart a 4 b 4 \<Longrightarrow> ld32 (st32 m a w) b = ld32 m b"
  using bytes_at_write_apart [of a "to_le 8 v" b] bytes_at_write_apart [of a "to_le 4 w" b]
  by (simp_all add: ld64_def ld32_def ld16_def ld8_def st64_def st32_def
      del: bytes_at.simps(2) to_le.simps)
     (simp add: apart_def in_region_def write_bytes_other del: to_le.simps)

lemma st64_other: "\<not> in_region a 8 b \<Longrightarrow> st64 m a v b = m b"
  by (simp add: st64_def write_bytes_other del: to_le.simps)

lemma st32_other: "\<not> in_region a 4 b \<Longrightarrow> st32 m a v b = m b"
  by (simp add: st32_def write_bytes_other del: to_le.simps)

subsection \<open>NUL-terminated strings\<close>

text \<open>\<open>cstr m p xs\<close>: the bytes \<open>xs\<close>, none of them NUL, then a NUL, lie at \<open>p\<close>.\<close>

primrec cstr :: "mem \<Rightarrow> u64 \<Rightarrow> u8 list \<Rightarrow> bool" where
  "cstr m p [] \<longleftrightarrow> m p = 0"
| "cstr m p (c # cs) \<longleftrightarrow> m p = c \<and> c \<noteq> 0 \<and> cstr m (p + 1) cs"

lemma cstr_nonzero: "cstr m p xs \<Longrightarrow> c \<in> set xs \<Longrightarrow> c \<noteq> 0"
  by (induction xs arbitrary: p) auto

lemma cstr_unique: "cstr m p xs \<Longrightarrow> cstr m p ys \<Longrightarrow> xs = ys"
proof (induction xs arbitrary: p ys)
  case Nil
  then show ?case by (cases ys) auto
next
  case (Cons x xs)
  then show ?case by (cases ys) auto
qed

lemma cstr_bytes_at: "cstr m p xs \<longleftrightarrow> bytes_at m p (Suc (length xs)) = xs @ [0] \<and> 0 \<notin> set xs"
  by (induction xs arbitrary: p) auto

lemma cstr_cong:
  "(\<And>i. i \<le> length xs \<Longrightarrow> m (p + of_nat i) = m' (p + of_nat i)) \<Longrightarrow> cstr m p xs \<longleftrightarrow> cstr m' p xs"
  unfolding cstr_bytes_at using bytes_at_cong [of "Suc (length xs)" m p m'] by simp

lemma cstr_write_apart [mem_simps]:
  "apart q (length bs) p (Suc (length xs)) \<Longrightarrow> length bs \<le> 2 ^ 64 \<Longrightarrow> length xs < 2 ^ 64 \<Longrightarrow>
   cstr (write_bytes m q bs) p xs \<longleftrightarrow> cstr m p xs"
  by (simp add: cstr_bytes_at bytes_at_write_apart del: bytes_at.simps)

lemma cstr_write_same:
  "length xs < 2 ^ 64 \<Longrightarrow> 0 \<notin> set xs \<Longrightarrow> cstr (write_bytes m p (xs @ [0])) p xs"
  by (simp add: cstr_bytes_at bytes_at_write_same del: bytes_at.simps)

end
