(* ===== verification/CString.thy ===== *)
theory CString
  imports Prelude
begin

text \<open>
  The string and memory routines of mini_libc (src/string.c and \<open>memset\<close> of src/malloc.c),
  on the byte memory: every function takes the memory, and the addresses of its pointer
  arguments, and those that write return the new memory. A loop that need not end is a
  \<open>partial_function\<close> into \<open>option\<close>. On AArch64 \<open>char\<close> is unsigned.
\<close>

subsection \<open>strlen\<close>

partial_function (option) strlen_loop :: "mem \<Rightarrow> u64 \<Rightarrow> i32 \<Rightarrow> i32 option" where
  "strlen_loop m s len = (if m s \<noteq> 0 then strlen_loop m (s + 1) (len + 1) else Some len)"

definition strlen :: "mem \<Rightarrow> u64 \<Rightarrow> i32 option" where
  "strlen m s = strlen_loop m s 0"

lemma strlen_loop_cstr:
  "cstr m p xs \<Longrightarrow> strlen_loop m p len = Some (len + of_nat (length xs))"
proof (induction xs arbitrary: p len)
  case Nil
  then show ?case by (simp add: strlen_loop.simps [of m p])
next
  case (Cons x xs)
  then show ?case by (simp add: strlen_loop.simps [of m p] add.assoc)
qed

lemma strlen_cstr: "cstr m p xs \<Longrightarrow> strlen m p = Some (of_nat (length xs))"
  by (simp add: strlen_def strlen_loop_cstr)

subsection \<open>itoa\<close>

definition itoa_char :: "u32 \<Rightarrow> u8" where
  "itoa_char rem = (if 9 < rem then ucast ((rem - 10) + 97) else ucast (rem + 48))"

partial_function (option) itoa_digits ::
  "mem \<Rightarrow> u64 \<Rightarrow> u64 \<Rightarrow> i32 \<Rightarrow> i32 \<Rightarrow> (mem \<times> i32) option" where
  "itoa_digits m str num_u radix i =
     (if num_u \<noteq> 0 then
        itoa_digits (m(str + scast i := itoa_char (ucast (num_u mod scast radix)))) str
          (num_u div scast radix) radix (i + 1)
      else Some (m, i))"

partial_function (option) itoa_reverse :: "mem \<Rightarrow> u64 \<Rightarrow> i32 \<Rightarrow> i32 \<Rightarrow> mem option" where
  "itoa_reverse m str i j =
     (if sint j < sint i sdiv 2 then
        let temp = m (str + scast j);
            m1 = m(str + scast j := m (str + scast (i - 1 - j)));
            m2 = m1(str + scast (i - 1 - j) := temp)
        in itoa_reverse m2 str i (j + 1)
      else Some m)"

definition itoa :: "mem \<Rightarrow> i64 \<Rightarrow> u64 \<Rightarrow> i32 \<Rightarrow> u8 \<Rightarrow> (mem \<times> u64) option" where
  "itoa m num str radix sign_flag =
     (let num_u = num;
          sign = (if sign_flag = 1 then (if sint num < 0 then - 1 else 1) else (1 :: int))
      in if sint radix < 2 \<or> sint radix > 16 then Some (m, 0)
         else if num_u = 0 then Some (m(str := 48, str + 1 := 0), str)
         else Option.bind (itoa_digits m str num_u radix 0) (\<lambda>(m1, i).
           let m2 = (if sign = - 1 then m1(str + scast i := 45) else m1);
               i2 = (if sign = - 1 then i + 1 else i)
           in Option.bind (itoa_reverse m2 str i2 0) (\<lambda>m3.
                Some (m3(str + scast i2 := 0), str))))"

text \<open>The numeral the digits should spell, most significant digit first.\<close>

fun digits_le :: "nat \<Rightarrow> nat \<Rightarrow> nat list" where
  "digits_le r n = (if r < 2 \<or> n = 0 then [] else n mod r # digits_le r (n div r))"

declare digits_le.simps [simp del]

definition digit_byte :: "nat \<Rightarrow> u8" where
  "digit_byte d = (if 9 < d then of_nat (d + 87) else of_nat (d + 48))"

definition numeral_str :: "nat \<Rightarrow> nat \<Rightarrow> u8 list" where
  "numeral_str r n = (if n = 0 then [48] else map digit_byte (rev (digits_le r n)))"

definition itoa_spec :: "i64 \<Rightarrow> nat \<Rightarrow> u8 \<Rightarrow> u8 list" where
  "itoa_spec num r sign_flag =
     (if sign_flag = 1 \<and> sint num < 0 then [45] else []) @ numeral_str r (unat num)"

lemma digits_le_length:
  "2 \<le> r \<Longrightarrow> n < 2 ^ k \<Longrightarrow> length (digits_le r n) \<le> k"
proof (induction k arbitrary: n)
  case 0
  then show ?case by (simp add: digits_le.simps)
next
  case (Suc k)
  have "n div r \<le> n div 2" using Suc.prems(1) by (simp add: div_le_mono2)
  also have "n div 2 < 2 ^ k" using Suc.prems(2) by auto
  finally show ?case
    using Suc.IH [of "n div r"] Suc.prems(1) by (simp add: digits_le.simps [of r n])
qed

lemma digits_le_bound: "d \<in> set (digits_le r n) \<Longrightarrow> d < r"
  by (induction r n rule: digits_le.induct) (subst (asm) (2) digits_le.simps, auto split: if_splits)

lemma digits_le_nonempty: "2 \<le> r \<Longrightarrow> n \<noteq> 0 \<Longrightarrow> digits_le r n \<noteq> []"
  by (simp add: digits_le.simps)

text \<open>The value of a numeral: \<open>numeral_str\<close> is a faithful notation.\<close>

definition byte_digit :: "u8 \<Rightarrow> nat" where
  "byte_digit c = (if c < 58 then unat c - 48 else unat c - 87)"

definition parse_nat :: "nat \<Rightarrow> u8 list \<Rightarrow> nat" where
  "parse_nat r cs = foldl (\<lambda>v c. v * r + byte_digit c) 0 cs"

lemma unat_digit_byte:
  "d < 16 \<Longrightarrow> unat (digit_byte d) = (if 9 < d then d + 87 else d + 48)"
  by (simp add: digit_byte_def unat_of_nat_small del: of_nat_add)

lemma byte_digit_digit_byte: "d < 16 \<Longrightarrow> byte_digit (digit_byte d) = d"
  by (simp add: byte_digit_def word_less_nat_alt unat_digit_byte)

lemma digits_le_value:
  "2 \<le> r \<Longrightarrow> foldr (\<lambda>d v. v * r + d) (digits_le r n) 0 = n"
proof (induction r n rule: digits_le.induct)
  case (1 r n)
  then show ?case
    by (cases "n = 0") (simp_all add: digits_le.simps [of r n] digits_le.simps [of r 0])
qed

lemma parse_numeral_str:
  assumes "2 \<le> r" and "r \<le> 16"
  shows "parse_nat r (numeral_str r n) = n"
proof (cases "n = 0")
  case True
  then show ?thesis by (simp add: parse_nat_def numeral_str_def byte_digit_def)
next
  case False
  have "foldr (\<lambda>d v. v * r + byte_digit (digit_byte d)) (digits_le r n) 0
      = foldr (\<lambda>d v. v * r + d) (digits_le r n) 0"
    using assms by (intro foldr_cong) (auto simp: byte_digit_digit_byte dest!: digits_le_bound)
  with False assms show ?thesis
    by (simp add: parse_nat_def numeral_str_def digits_le_value foldl_conv_foldr
        foldr_map rev_map comp_def)
qed

lemma numeral_str_range:
  assumes "2 \<le> r" "r \<le> 16" "c \<in> set (numeral_str r n)"
  shows "48 \<le> c \<and> c \<le> 102"
proof -
  have "d < r \<Longrightarrow> 48 \<le> digit_byte d \<and> digit_byte d \<le> 102" for d
    using assms(2) by (simp add: word_le_nat_alt unat_digit_byte)
  with assms show ?thesis
    by (auto simp: numeral_str_def dest: digits_le_bound split: if_splits)
qed

lemma numeral_str_length: "2 \<le> r \<Longrightarrow> length (numeral_str r (unat (w :: u64))) \<le> 64"
  using digits_le_length [of r "unat w" 64] unat_less_2p [of w] by (simp add: numeral_str_def)

lemma itoa_spec_length: "2 \<le> r \<Longrightarrow> length (itoa_spec num r f) \<le> 65"
  using numeral_str_length [of r num] by (simp add: itoa_spec_def)


text \<open>The digit loop appends the digits, least significant first.\<close>

lemma itoa_char_digit: "d < 16 \<Longrightarrow> itoa_char (of_nat d) = digit_byte d"
proof -
  assume d: "d < 16"
  then have "9 < (of_nat d :: u32) \<longleftrightarrow> 9 < d"
    by (simp add: word_less_nat_alt unat_of_nat_small)
  moreover have "(of_nat d :: u32) - 10 + 97 = of_nat (d + 87)" by simp
  moreover have "(of_nat d :: u32) + 48 = of_nat (d + 48)" by simp
  ultimately show ?thesis
    using d by (simp add: itoa_char_def digit_byte_def ucast_of_nat_small del: of_nat_add)
qed

lemma digit_of_mod:
  assumes "2 \<le> r" "r \<le> 16"
  shows "ucast ((w :: u64) mod of_nat r) = (of_nat (unat w mod r) :: u32)"
    and "unat (w div of_nat r) = unat w div r"
proof -
  have r: "unat (of_nat r :: u64) = r" using assms by (simp add: unat_of_nat_small)
  have lt: "unat w mod r < 16" using assms by (simp add: less_le_trans [OF mod_less_divisor])
  have "w mod of_nat r = of_nat (unat w mod r)"
    by (rule word_unat_eq_iff [THEN iffD2]) (use r lt in \<open>simp add: unat_mod_distrib unat_of_nat_small\<close>)
  then show "ucast ((w :: u64) mod of_nat r) = (of_nat (unat w mod r) :: u32)"
    using lt by (simp add: ucast_of_nat_small)
  show "unat (w div of_nat r) = unat w div r" by (simp add: r unat_div_distrib)
qed

lemma itoa_digits_eq:
  assumes r: "2 \<le> r" "r \<le> 16" and len: "length ds + length (digits_le r (unat w)) \<le> 100"
  shows "itoa_digits (write_bytes m p ds) p w (of_nat r) (of_nat (length ds)) =
    Some (write_bytes m p (ds @ map digit_byte (digits_le r (unat w))),
          of_nat (length ds + length (digits_le r (unat w))))"
  using len
proof (induction "unat w" arbitrary: w ds rule: less_induct)
  case less
  have sr: "scast (of_nat r :: i32) = (of_nat r :: u64)"
    using r by (simp add: scast_of_nat_small)
  have sl: "scast (of_nat (length ds) :: i32) = (of_nat (length ds) :: u64)"
    using less.prems by (simp add: scast_of_nat_small)
  show ?case
  proof (cases "w = 0")
    case True
    then show ?thesis by (simp add: itoa_digits.simps [of _ p 0] digits_le.simps)
  next
    case False
    let ?w = "w div of_nat r" and ?d = "digit_byte (unat w mod r)"
    have nz: "unat w \<noteq> 0" using False by (simp add: unat_eq_0)
    have dw: "digits_le r (unat w) = unat w mod r # digits_le r (unat ?w)"
      using nz r by (simp add: digits_le.simps [of r "unat w"] digit_of_mod)
    have lt: "unat ?w < unat w" using nz r by (simp add: digit_of_mod)
    have c: "itoa_char (ucast (w mod of_nat r)) = ?d"
      using r by (simp add: digit_of_mod itoa_char_digit less_le_trans [OF mod_less_divisor])
    have "itoa_digits (write_bytes m p ds) p w (of_nat r) (of_nat (length ds)) =
        itoa_digits (write_bytes m p (ds @ [?d])) p ?w (of_nat r) (of_nat (length (ds @ [?d])))"
      using False c by (simp add: itoa_digits.simps [of _ p w] write_bytes_snoc sr sl add.commute)
    also have "\<dots> = Some (write_bytes m p ((ds @ [?d]) @ map digit_byte (digits_le r (unat ?w))),
          of_nat (length (ds @ [?d]) + length (digits_le r (unat ?w))))"
      using less.prems dw by (intro less.hyps lt) simp
    finally show ?thesis by (simp add: dw)
  qed
qed

text \<open>The in-place reversal, first on lists: \<open>rev_upto xs j\<close> has the outer \<open>j\<close> pairs swapped.\<close>

definition rev_upto :: "u8 list \<Rightarrow> nat \<Rightarrow> u8 list" where
  "rev_upto xs j = map (\<lambda>k. if k < j \<or> length xs - j \<le> k then xs ! (length xs - 1 - k) else xs ! k)
     [0..<length xs]"

lemma rev_upto_0 [simp]: "rev_upto xs 0 = xs"
  by (rule nth_equalityI) (simp_all add: rev_upto_def)

lemma rev_upto_half: "rev_upto xs (length xs div 2) = rev xs"
proof (rule nth_equalityI)
  fix k assume "k < length (rev_upto xs (length xs div 2))"
  then have k: "k < length xs" by (simp add: rev_upto_def)
  then have "k < length xs div 2 \<or> length xs - length xs div 2 \<le> k \<or> length xs - 1 - k = k"
    by arith
  with k show "rev_upto xs (length xs div 2) ! k = rev xs ! k"
    by (auto simp: rev_upto_def rev_nth)
qed (simp add: rev_upto_def)

lemma rev_upto_step:
  assumes "j < length xs div 2"
  shows "(rev_upto xs j)[j := xs ! (length xs - 1 - j), length xs - 1 - j := xs ! j]
    = rev_upto xs (Suc j)"
proof (rule nth_equalityI)
  fix k
  assume "k < length ((rev_upto xs j)[j := xs ! (length xs - 1 - j), length xs - 1 - j := xs ! j])"
  then have k: "k < length xs" by (simp add: rev_upto_def)
  have "length xs - 1 - (length xs - 1 - j) = j" "k < Suc j \<longleftrightarrow> k < j \<or> k = j"
    "length xs - Suc j \<le> k \<longleftrightarrow> length xs - j \<le> k \<or> k = length xs - 1 - j"
    using assms k by auto
  with k assms show "(rev_upto xs j)[j := xs ! (length xs - 1 - j), length xs - 1 - j := xs ! j] ! k
      = rev_upto xs (Suc j) ! k"
    by (auto simp: rev_upto_def nth_list_update)
qed (simp add: rev_upto_def)

lemma itoa_reverse_eq:
  assumes len: "length xs \<le> 100" and j: "j \<le> length xs div 2"
  shows "itoa_reverse (write_bytes m p (rev_upto xs j)) p (of_nat (length xs)) (of_nat j)
    = Some (write_bytes m p (rev xs))"
  using j
proof (induction "length xs div 2 - j" arbitrary: j)
  case 0
  then have "j = length xs div 2" by simp
  then show ?case
    using len by (simp add: itoa_reverse.simps [of _ p] sint_of_nat_small rev_upto_half
      signed_divide_int_def zdiv_int)
next
  case (Suc n)
  then have j: "j < length xs div 2" by arith
  let ?n = "length xs" and ?j = "of_nat j :: i32"
  have idx: "scast ?j = (of_nat j :: u64)"
    "scast (of_nat (?n - 1 - j) :: i32) = (of_nat (?n - 1 - j) :: u64)"
    using j len by (simp_all add: scast_of_nat_small del: of_nat_diff)
  have sub: "(of_nat ?n - 1 - ?j :: i32) = of_nat (?n - 1 - j)"
    using j by (simp add: of_nat_diff)
  have ln: "length (rev_upto xs j) = ?n" by (simp add: rev_upto_def)
  have rd: "rev_upto xs j ! j = xs ! j" "rev_upto xs j ! (?n - 1 - j) = xs ! (?n - 1 - j)"
    using j by (auto simp: rev_upto_def)
  let ?M = "write_bytes m p (rev_upto xs j)"
  have "int ?n sdiv 2 = int (?n div 2)"
    by (cases "?n = 0") (simp_all add: signed_divide_int_def zdiv_int)
  then have g: "sint ?j < sint (of_nat ?n :: i32) sdiv 2"
    using j len by (simp add: sint_of_nat_small)
  have rdM: "?M (p + of_nat j) = xs ! j" "?M (p + of_nat (?n - 1 - j)) = xs ! (?n - 1 - j)"
    using j len write_bytes_nth [of j "rev_upto xs j" m p]
      write_bytes_nth [of "?n - 1 - j" "rev_upto xs j" m p] by (simp_all only: ln rd) auto
  have upd: "(?M(p + of_nat j := a))(p + of_nat (?n - 1 - j) := b)
      = write_bytes m p ((rev_upto xs j)[j := a, ?n - 1 - j := b])" for a b
    using j len by (simp add: write_bytes_upd ln del: of_nat_diff)
  have "itoa_reverse ?M p (of_nat ?n) ?j =
      itoa_reverse (write_bytes m p (rev_upto xs (Suc j))) p (of_nat ?n) (?j + 1)"
    by (subst itoa_reverse.simps)
      (simp only: g if_True Let_def idx sub rdM upd rev_upto_step [OF j])
  also have "\<dots> = itoa_reverse (write_bytes m p (rev_upto xs (Suc j))) p (of_nat ?n) (of_nat (Suc j))"
    by (simp add: add.commute)
  also have "\<dots> = Some (write_bytes m p (rev xs))"
    using Suc j by (intro Suc.hyps) auto
  finally show ?case .
qed


text \<open>
  What \<open>itoa\<close> leaves in memory: the numeral and its terminator at \<open>str\<close>, and nothing else
  changed. For a negative number with the sign flag the digits are those of the unsigned
  reading of the number (\<open>itoa_spec\<close> uses \<open>unat\<close>), because the loop runs on \<open>num_u\<close>.
\<close>

lemma itoa_eq:
  assumes r: "2 \<le> r" "r \<le> 16"
  shows "itoa m num p (of_nat r) f = Some (write_bytes m p (itoa_spec num r f @ [0]), p)"
proof (cases "num = 0")
  case True
  have "sint (of_nat r :: i32) = int r" using r by (simp add: sint_of_nat_small)
  with True r show ?thesis
    by (simp add: itoa_def itoa_spec_def numeral_str_def)
next
  case False
  let ?ds = "map digit_byte (digits_le r (unat num))"
  let ?neg = "f = 1 \<and> sint num < 0"
  let ?bs = "if ?neg then ?ds @ [45] else ?ds"
  have sr: "sint (of_nat r :: i32) = int r" using r by (simp add: sint_of_nat_small)
  have len: "length ?ds \<le> 64"
    using digits_le_length [of r "unat num" 64] r unat_less_2p [of num] by simp
  have nz: "unat num \<noteq> 0" using False by (simp add: unat_eq_0)
  have dig: "itoa_digits m p num (of_nat r) 0 = Some (write_bytes m p ?ds, of_nat (length ?ds))"
    using itoa_digits_eq [OF r, of "[]" num m p] len by simp
  have i64: "scast (of_nat n :: i32) = (of_nat n :: u64)" if "n \<le> 65" for n
    using that by (simp add: scast_of_nat_small)
  have rev: "itoa_reverse (write_bytes m p ?bs) p (of_nat (length ?bs)) 0
      = Some (write_bytes m p (rev ?bs))"
    using itoa_reverse_eq [of ?bs 0 m p] len by simp
  have "rev ?bs = itoa_spec num r f" using nz by (simp add: itoa_spec_def numeral_str_def rev_map)
  then have fin: "(write_bytes m p (rev ?bs))(p + of_nat (length ?bs) := 0)
      = write_bytes m p (itoa_spec num r f @ [0])"
    by (metis write_bytes_snoc length_rev)
  show ?thesis
  proof (cases ?neg)
    case True
    have "(of_nat (length ?ds) + 1 :: i32) = of_nat (length ?bs)" using True by simp
    moreover have "(write_bytes m p ?ds)(p + of_nat (length (digits_le r (unat num))) := 45)
        = write_bytes m p (?ds @ [45])"
      by (simp add: write_bytes_snoc)
    ultimately show ?thesis
      using True False r sr dig rev fin len by (simp add: itoa_def i64 del: of_nat_Suc)
  next
    case neg: False
    with False r sr dig rev fin len show ?thesis by (simp add: itoa_def i64 Let_def)
  qed
qed


subsection \<open>strcmp and strncmp\<close>

partial_function (option) strcmp :: "mem \<Rightarrow> u64 \<Rightarrow> u64 \<Rightarrow> i32 option" where
  "strcmp m s1 s2 =
     (if m s1 \<noteq> 0 \<and> m s1 = m s2 then strcmp m (s1 + 1) (s2 + 1)
      else Some (ucast (m s1) - ucast (m s2)))"

function strncmp :: "mem \<Rightarrow> u64 \<Rightarrow> u64 \<Rightarrow> u64 \<Rightarrow> i32" where
  "strncmp m s1 s2 n =
     (if n \<noteq> 0 \<and> m s1 \<noteq> 0 \<and> m s1 = m s2 then strncmp m (s1 + 1) (s2 + 1) (n - 1)
      else let n' = n - 1
           in if n' = - 1 then 0 else ucast (m s1) - ucast (m s2))"
  by pat_completeness auto
termination
  by (relation "measure (\<lambda>(m, s1, s2, n). unat n)") (auto simp: unat_Suc_less)

declare strncmp.simps [simp del]

text \<open>
  The strings of the C code as a type of their own, ordered bytewise. The comparison
  functions are correct when the sign of their result is that of this order.
\<close>

datatype cstring = CStr (cbytes: "u8 list")

instantiation cstring :: linorder
begin

definition less_cstring :: "cstring \<Rightarrow> cstring \<Rightarrow> bool" where
  "less_cstring a b \<longleftrightarrow> ord_class.lexordp (cbytes a) (cbytes b)"

definition less_eq_cstring :: "cstring \<Rightarrow> cstring \<Rightarrow> bool" where
  "less_eq_cstring a b \<longleftrightarrow> a = b \<or> ord_class.lexordp (cbytes a) (cbytes b)"

instance
proof
  fix a b c :: cstring
  show "a < b \<longleftrightarrow> a \<le> b \<and> \<not> b \<le> a"
    by (auto simp: less_cstring_def less_eq_cstring_def dest: lexordp_antisym)
  show "a \<le> a" by (simp add: less_eq_cstring_def)
  show "a \<le> b \<Longrightarrow> b \<le> c \<Longrightarrow> a \<le> c"
    by (auto simp: less_eq_cstring_def intro: lexordp_trans)
  show "a \<le> b \<Longrightarrow> b \<le> a \<Longrightarrow> a = b"
    by (auto simp: less_eq_cstring_def dest: lexordp_antisym)
  show "a \<le> b \<or> b \<le> a"
    using lexordp_linear [of "cbytes a" "cbytes b"]
    by (cases a; cases b) (auto simp: less_eq_cstring_def)
qed

end

lemma less_cstring_code [simp]:
  "CStr [] < CStr ys \<longleftrightarrow> ys \<noteq> []"
  "\<not> CStr xs < CStr []"
  "CStr (x # xs) < CStr (y # ys) \<longleftrightarrow> x < y \<or> x = y \<and> CStr xs < CStr ys"
  by (cases ys; auto simp: less_cstring_def)+

lemma byte_diff_sint: "sint (ucast (a :: u8) - ucast (b :: u8) :: i32) = uint a - uint b"
proof -
  have b: "uint a < 256" "uint b < 256" "0 \<le> uint a" "0 \<le> uint b"
    using uint_bounded [of a] uint_bounded [of b] by simp_all
  then have "- 2147483648 \<le> uint a - uint b" "uint a - uint b < 2147483648"
    by linarith+
  then have "- (2 ^ (LENGTH(32) - 1)) \<le> uint a - uint b" "uint a - uint b < 2 ^ (LENGTH(32) - 1)"
    by (simp_all only: len_num1 len_bit0 len_bit1) simp_all
  then have "sint (of_int (uint a - uint b) :: i32) = uint a - uint b"
    by (rule sint_of_int_small)
  moreover have "(ucast a - ucast b :: i32) = of_int (uint a - uint b)"
    by (simp only: of_int_diff ucast_eq)
  ultimately show ?thesis by (simp only:)
qed

text \<open>The sign of a comparison result agrees with the order of the two strings.\<close>

definition sign_agrees :: "i32 \<Rightarrow> cstring \<Rightarrow> cstring \<Rightarrow> bool" where
  "sign_agrees r a b \<longleftrightarrow> (r = 0 \<longleftrightarrow> a = b) \<and> (sint r < 0 \<longleftrightarrow> a < b) \<and> (0 < sint r \<longleftrightarrow> b < a)"

lemma sint_zero_iff: "(r :: i32) = 0 \<longleftrightarrow> sint r = 0"
  by (simp add: signed_eq_0_iff)

definition head_byte :: "u8 list \<Rightarrow> u8" where
  "head_byte xs = (case xs of [] \<Rightarrow> 0 | x # _ \<Rightarrow> x)"

lemma cstr_head: "cstr m p xs \<Longrightarrow> m p = head_byte xs"
  by (cases xs) (auto simp: head_byte_def)

lemma byte_diff_sign_agrees:
  assumes "xs = [] \<or> ys = [] \<or> hd xs \<noteq> hd ys" and "0 \<notin> set xs" and "0 \<notin> set ys"
  shows "sign_agrees (ucast (head_byte xs) - ucast (head_byte ys)) (CStr xs) (CStr ys)"
proof -
  have s: "uint c - uint d = 0 \<longleftrightarrow> c = d" "uint c - uint d < 0 \<longleftrightarrow> c < d"
    "0 < uint c - uint d \<longleftrightarrow> d < c" for c d :: u8
    by (auto simp: word_uint_eq_iff word_less_def)
  show ?thesis
    unfolding sign_agrees_def sint_zero_iff byte_diff_sint s
    using assms by (cases xs; cases ys) (auto simp: head_byte_def word_gt_0)
qed

lemma cstr_no_nul: "cstr m p xs \<Longrightarrow> 0 \<notin> set xs"
  using cstr_nonzero by blast

lemma sign_agrees_Cons: "sign_agrees r (CStr xs) (CStr ys) \<Longrightarrow>
  sign_agrees r (CStr (x # xs)) (CStr (x # ys))"
  by (simp add: sign_agrees_def)

lemma strcmp_cstr:
  "cstr m p xs \<Longrightarrow> cstr m q ys \<Longrightarrow>
   \<exists>r. strcmp m p q = Some r \<and> sign_agrees r (CStr xs) (CStr ys)"
proof (induction xs arbitrary: p q ys)
  case Nil
  then show ?case
    using byte_diff_sign_agrees [of "[]" ys] cstr_no_nul [of m q ys] cstr_head [of m q ys]
    by (simp add: strcmp.simps [of m p] head_byte_def)
next
  case (Cons x xs)
  show ?case
  proof (cases "ys \<noteq> [] \<and> hd ys = x")
    case True
    then obtain ys' where "ys = x # ys'" by (cases ys) auto
    with Cons.prems Cons.IH [of "p + 1" "q + 1" ys'] show ?thesis
      by (auto simp: strcmp.simps [of m p] sign_agrees_Cons)
  next
    case False
    then have ne: "x # xs = [] \<or> ys = [] \<or> hd (x # xs) \<noteq> hd ys" by auto
    from False have "m p \<noteq> m q"
      using Cons.prems by (cases ys) auto
    then show ?thesis
      using byte_diff_sign_agrees [OF ne cstr_no_nul [OF Cons.prems(1)] cstr_no_nul [OF Cons.prems(2)]]
      by (simp add: strcmp.simps [of m p] cstr_head [OF Cons.prems(1)] cstr_head [OF Cons.prems(2)])
  qed
qed

text \<open>\<open>strncmp\<close> compares the first \<open>n\<close> bytes: it is \<open>strcmp\<close> on the truncated strings.\<close>

lemma strncmp_0 [simp]: "strncmp m p q 0 = 0"
  by (simp add: strncmp.simps)

lemma sign_agrees_take:
  assumes "n \<noteq> 0" and "sign_agrees (ucast (head_byte xs) - ucast (head_byte ys)) (CStr xs) (CStr ys)"
    and "xs = [] \<or> ys = [] \<or> hd xs \<noteq> hd ys"
  shows "sign_agrees (ucast (head_byte xs) - ucast (head_byte ys)) (CStr (take n xs)) (CStr (take n ys))"
  using assms by (cases n; cases xs; cases ys) (auto simp: sign_agrees_def)

lemma strncmp_differ:
  assumes c: "cstr m p xs" "cstr m q ys" and n: "n \<noteq> 0"
    and ne: "xs = [] \<or> ys = [] \<or> hd xs \<noteq> hd ys" and d: "m p \<noteq> m q"
  shows "sign_agrees (strncmp m p q n) (CStr (take (unat n) xs)) (CStr (take (unat n) ys))"
proof -
  have "strncmp m p q n = ucast (head_byte xs) - ucast (head_byte ys)"
    using n d by (simp add: strncmp.simps [of m p] cstr_head [OF c(1)] cstr_head [OF c(2)])
  moreover have "unat n \<noteq> 0" using n by (simp add: unat_eq_0)
  ultimately show ?thesis
    using sign_agrees_take [OF _ byte_diff_sign_agrees [OF ne cstr_no_nul [OF c(1)] cstr_no_nul [OF c(2)]] ne] by simp
qed

lemma strncmp_cstr:
  "cstr m p xs \<Longrightarrow> cstr m q ys \<Longrightarrow>
   sign_agrees (strncmp m p q n) (CStr (take (unat n) xs)) (CStr (take (unat n) ys))"
proof (induction xs arbitrary: p q ys n)
  case Nil
  show ?case
  proof (cases "n = 0")
    case True
    then show ?thesis by (simp add: sign_agrees_def)
  next
    case False
    then show ?thesis
      using Nil byte_diff_sign_agrees [of "[]" ys] cstr_no_nul [of m q ys] cstr_head [of m q ys]
        sign_agrees_take [of "unat n" "[]" ys]
      by (simp add: strncmp.simps [of m p] head_byte_def unat_eq_0)
  qed
next
  case (Cons x xs)
  show ?case
  proof (cases "n = 0")
    case True
    then show ?thesis by (simp add: sign_agrees_def)
  next
    case n: False
    show ?thesis
    proof (cases "ys \<noteq> [] \<and> hd ys = x")
      case True
      then obtain ys' where ys: "ys = x # ys'" by (cases ys) auto
      have "strncmp m p q n = strncmp m (p + 1) (q + 1) (n - 1)"
        using Cons.prems n ys by (simp add: strncmp.simps [of m p q])
      moreover have "unat n = Suc (unat (n - 1))"
        using n by (simp add: unat_pred unat_gt_0)
      ultimately show ?thesis
        using Cons n ys by (auto intro: sign_agrees_Cons)
    next
      case False
      then have ne: "x # xs = [] \<or> ys = [] \<or> hd (x # xs) \<noteq> hd ys" by auto
      moreover from False have "m p \<noteq> m q" using Cons.prems by (cases ys) auto
      ultimately show ?thesis by (rule strncmp_differ [OF Cons.prems n])
    qed
  qed
qed

lemma uint_of_sint: "uint (w :: i64) = (if 0 \<le> sint w then sint w else 2 ^ 64 - \<bar>sint w\<bar>)"
proof -
  have "uint w = sint w mod 2 ^ 64" using uint_sint [of w] by (simp add: take_bit_eq_mod)
  moreover have "- (2 ^ 63) \<le> sint w" "sint w < 2 ^ 63" using sint_ge [of w] sint_lt [of w] by simp_all
  moreover have "sint w mod 2 ^ 64 = (sint w + 2 ^ 64) mod 2 ^ 64" by (simp only: mod_add_self2)
  ultimately show ?thesis
    using mod_pos_pos_trivial [of "sint w" "2 ^ 64"] mod_pos_pos_trivial [of "sint w + 2 ^ 64" "2 ^ 64"] by simp
qed

text \<open>C11. \<open>itoa\<close> with a radix from 2 to 16 returns, leaves at the destination a NUL-terminated string
  of at most 65 bytes and writes nothing else. A number that is not negative is spelled so that reading
  the digits back in the radix gives it. A negative number \<open>n\<close> is spelled by the digits of \<open>2^64 - |n|\<close>, the
  unsigned reading of its 64 bits, and with the sign flag there is a minus sign in front of these same
  digits, which is not the numeral of \<open>n\<close>.\<close>

theorem itoa_roundtrip:
  assumes "2 \<le> r" and "r \<le> 16"
  shows "\<exists>s. itoa m num p (of_nat r) f = Some (write_bytes m p (s @ [0]), p) \<and>
    cstr (write_bytes m p (s @ [0])) p s \<and> length s \<le> 65 \<and>
    (if 0 \<le> sint num then int (parse_nat r s) = sint num
     else if f = 1 then hd s = 45 \<and> int (parse_nat r (tl s)) = 2 ^ 64 - \<bar>sint num\<bar>
     else int (parse_nat r s) = 2 ^ 64 - \<bar>sint num\<bar>)"
proof (intro exI conjI)
  let ?s = "itoa_spec num r f"
  show "itoa m num p (of_nat r) f = Some (write_bytes m p (?s @ [0]), p)" by (rule itoa_eq [OF assms])
  show len: "length ?s \<le> 65" by (rule itoa_spec_length [OF assms(1)])
  have "c \<noteq> 0" if "c \<in> set (numeral_str r (unat num))" for c
    using numeral_str_range [OF assms that] by (auto simp: word_le_nat_alt)
  then have "0 \<notin> set ?s" by (auto simp: itoa_spec_def)
  then show "cstr (write_bytes m p (?s @ [0])) p ?s" using len by (intro cstr_write_same) auto
  have "int (unat num) = (if 0 \<le> sint num then sint num else 2 ^ 64 - \<bar>sint num\<bar>)"
    by (simp add: uint_of_sint)
  then show "if 0 \<le> sint num then int (parse_nat r ?s) = sint num
     else if f = 1 then hd ?s = 45 \<and> int (parse_nat r (tl ?s)) = 2 ^ 64 - \<bar>sint num\<bar>
     else int (parse_nat r ?s) = 2 ^ 64 - \<bar>sint num\<bar>"
    by (auto simp: itoa_spec_def parse_numeral_str [OF assms])
qed

theorem itoa_roundtrip_witness:
  "(\<exists>s. itoa (\<lambda>_. 0) 255 0x1000 16 1 = Some (write_bytes (\<lambda>_. 0) 0x1000 (s @ [0]), 0x1000) \<and> parse_nat 16 s = 255) \<and>
   (\<exists>s. itoa (\<lambda>_. 0) (- 5) 0x1000 10 1 = Some (write_bytes (\<lambda>_. 0) 0x1000 (s @ [0]), 0x1000) \<and>
     hd s = 45 \<and> int (parse_nat 10 (tl s)) = 2 ^ 64 - 5)"
  using itoa_roundtrip [of 16 "\<lambda>_. 0" 255 "0x1000" 1] itoa_roundtrip [of 10 "\<lambda>_. 0" "- 5" "0x1000" 1] by auto

end
