(* ===== verification/CMem.thy ===== *)
theory CMem
  imports CString
begin

text \<open>
  Block copy and fill: \<open>memcpy\<close> of mini_libc/src/string.c, which picks its direction so that
  overlapping blocks are safe, \<open>memset\<close> of mini_libc/src/malloc.c, which fills by words, and
  the plain byte loops of dynamic_linker/src/dl_runtime.c. The locale \<open>mem_copy\<close> is the
  contract the formatted printers of both libraries rely on; both copies provide it.
\<close>

subsection \<open>memcpy of mini_libc\<close>

function memcpy_fwd :: "mem \<Rightarrow> u64 \<Rightarrow> u64 \<Rightarrow> u64 \<Rightarrow> mem" where
  "memcpy_fwd m d s n = (if n \<noteq> 0 then memcpy_fwd (m(d := m s)) (d + 1) (s + 1) (n - 1) else m)"
  by pat_completeness auto
termination
  by (relation "measure (\<lambda>(m, d, s, n). unat n)") (auto simp: unat_Suc_less)

function memcpy_bwd :: "mem \<Rightarrow> u64 \<Rightarrow> u64 \<Rightarrow> u64 \<Rightarrow> mem" where
  "memcpy_bwd m d s n = (if n \<noteq> 0 then memcpy_bwd (m(d := m s)) (d - 1) (s - 1) (n - 1) else m)"
  by pat_completeness auto
termination
  by (relation "measure (\<lambda>(m, d, s, n). unat n)") (auto simp: unat_Suc_less)

declare memcpy_fwd.simps [simp del] memcpy_bwd.simps [simp del]

definition memcpy :: "mem \<Rightarrow> u64 \<Rightarrow> u64 \<Rightarrow> u64 \<Rightarrow> mem \<times> u64" where
  "memcpy m dest src n =
     (if dest \<le> src \<or> src + n \<le> dest then (memcpy_fwd m dest src n, dest)
      else (memcpy_bwd m (dest + n - 1) (src + n - 1) n, dest))"

lemma bytes_at_upd_other: "\<not> in_region p n a \<Longrightarrow> n \<le> 2 ^ 64 \<Longrightarrow> bytes_at (m(a := b)) p n = bytes_at m p n"
  by (rule bytes_at_cong) (auto simp: in_region_index)

lemma write_bytes_upd_other:
  "\<not> in_region p (length bs) a \<Longrightarrow> length bs \<le> 2 ^ 64 \<Longrightarrow>
   write_bytes (m(a := b)) p bs = (write_bytes m p bs)(a := b)"
  by (rule ext) (auto simp: write_bytes_apply in_region_def)

lemma memcpy_fwd_eq:
  "d = s \<or> k \<le> unat (d - s) \<Longrightarrow> k = unat n \<Longrightarrow> memcpy_fwd m d s n = write_bytes m d (bytes_at m s k)"
proof (induction k arbitrary: m d s n)
  case 0
  then have "n = 0" by (simp add: unat_eq_0)
  then show ?case by (simp add: memcpy_fwd.simps)
next
  case (Suc k)
  have n: "n \<noteq> 0" "k = unat (n - 1)" using unat_eq_SucD [OF Suc.prems(2)] by auto
  have kb: "Suc k < 2 ^ 64" using unat_less_2p [of n] Suc.prems(2) by simp
  have keep: "bytes_at (m(d := m s)) (s + 1) k = bytes_at m (s + 1) k"
  proof (cases "d = s")
    case False
    then have "unat (d - (s + 1)) = unat (d - s) - 1"
      using unat_pred [of "d - s"] by (simp add: diff_diff_eq)
    then show ?thesis
      using False Suc.prems(1) kb by (intro bytes_at_upd_other) (auto simp: in_region_def)
  qed simp
  have "d + 1 = s + 1 \<or> k \<le> unat (d + 1 - (s + 1))" using Suc.prems(1) by auto
  then have "memcpy_fwd (m(d := m s)) (d + 1) (s + 1) (n - 1)
      = write_bytes (m(d := m s)) (d + 1) (bytes_at (m(d := m s)) (s + 1) k)"
    using n(2) by (rule Suc.IH)
  then show ?case
    using n(1) keep by (simp add: memcpy_fwd.simps [of m])
qed

text \<open>Copying backwards, the byte written last does not belong to the part of the source still to be read.\<close>

lemma last_not_in_source:
  fixes d s n :: u64
  assumes k: "k = unat (n - 1)" and d: "Suc k \<le> unat (s - d)"
  shows "\<not> in_region s k (d + n - 1)"
proof
  assume "in_region s k (d + n - 1)"
  then have lt: "unat (d + n - 1 - s) < k" by (simp add: in_region_def)
  have "n - 1 = (d + n - 1 - s) + (s - d)" by simp
  then have "k = unat ((d + n - 1 - s) + (s - d))" using k by simp
  also have "\<dots> = (unat (d + n - 1 - s) + unat (s - d)) mod 2 ^ 64"
    by (simp only: unat_word_ariths) simp
  finally have "k = (unat (d + n - 1 - s) + unat (s - d)) mod 2 ^ 64" .
  moreover have "unat (d + n - 1 - s) < 2 ^ 64" "unat (s - d) < 2 ^ 64"
    using unat_less_2p [of "d + n - 1 - s"] unat_less_2p [of "s - d"] by auto
  ultimately show False using lt d by (auto simp: add_mod_cases split: if_splits)
qed

lemma memcpy_bwd_eq:
  "d = s \<or> k \<le> unat (s - d) \<Longrightarrow> k = unat n \<Longrightarrow>
   memcpy_bwd m (d + n - 1) (s + n - 1) n = write_bytes m d (bytes_at m s k)"
proof (induction k arbitrary: m n)
  case 0
  then have "n = 0" by (simp add: unat_eq_0)
  then show ?case by (simp add: memcpy_bwd.simps)
next
  case (Suc k)
  have n: "n \<noteq> 0" "k = unat (n - 1)" using unat_eq_SucD [OF Suc.prems(2)] by auto
  have kb: "Suc k < 2 ^ 64" using unat_less_2p [of n] Suc.prems(2) by simp
  have nk: "of_nat k = n - 1" by (simp add: n(2))
  let ?m = "m(d + n - 1 := m (s + n - 1))"
  have keep: "bytes_at ?m s k = bytes_at m s k"
  proof (cases "d = s")
    case False
    then have "\<not> in_region s k (d + n - 1)"
      using last_not_in_source [OF n(2)] Suc.prems(1) by simp
    then show ?thesis using kb by (intro bytes_at_upd_other) simp_all
  next
    case True
    then show ?thesis
      using kb by (intro bytes_at_cong) auto
  qed
  have out: "\<not> in_region d k (d + n - 1)"
    using n(2) by (simp add: in_region_def add_diff_eq [symmetric])
  have "d = s \<or> k \<le> unat (s - d)" using Suc.prems(1) by auto
  then have "memcpy_bwd ?m (d + (n - 1) - 1) (s + (n - 1) - 1) (n - 1)
      = write_bytes ?m d (bytes_at ?m s k)"
    using n(2) by (rule Suc.IH)
  then have step: "memcpy_bwd ?m (d + n - 1 - 1) (s + n - 1 - 1) (n - 1)
      = write_bytes ?m d (bytes_at m s k)"
    using keep by (simp only: add_diff_eq)
  have "memcpy_bwd m (d + n - 1) (s + n - 1) n = memcpy_bwd ?m (d + n - 1 - 1) (s + n - 1 - 1) (n - 1)"
    using n(1) by (simp only: memcpy_bwd.simps [of m "d + n - 1"] if_True not_False_eq_True simp_thms)
  also have "\<dots> = write_bytes ?m d (bytes_at m s k)" by (rule step)
  also have "\<dots> = (write_bytes m d (bytes_at m s k))(d + n - 1 := m (s + n - 1))"
    using out kb by (intro write_bytes_upd_other) simp_all
  also have "\<dots> = write_bytes m d (bytes_at m s k @ [m (s + n - 1)])"
    by (simp add: write_bytes_snoc nk add_diff_eq)
  also have "bytes_at m s k @ [m (s + n - 1)] = bytes_at m s (Suc k)"
    using bytes_at_add [of m s k 1] by (simp add: nk add_diff_eq)
  finally show ?case .
qed

text \<open>
  On blocks inside the address space \<open>memcpy\<close> copies what was there before, however the two
  blocks overlap.
\<close>

text \<open>C27. \<open>memcpy\<close> of mini_libc copies the bytes the source held before the call, however source and
  destination overlap (it behaves as memmove), provided neither block wraps round the address
  space.\<close>

theorem memcpy_overlap:
  assumes "unat src + unat n < 2 ^ 64" and "unat dest + unat n < 2 ^ 64"
  shows "memcpy m dest src n = (write_bytes m dest (bytes_at m src (unat n)), dest)"
proof (cases "dest \<le> src \<or> src + n \<le> dest")
  case True
  have "unat (src + n) = unat src + unat n"
    using assms(1) by (simp add: unat_word_ariths)
  then have "dest = src \<or> unat n \<le> unat (dest - src)"
    using True assms by (cases "dest = src") (auto simp: word_le_nat_alt unat_diff_circ word_unat_eq_iff)
  with True show ?thesis by (simp add: memcpy_def memcpy_fwd_eq)
next
  case False
  then have "unat n \<le> unat (src - dest)"
    using assms by (auto simp: word_le_nat_alt unat_diff_circ not_le)
  with False show ?thesis by (simp add: memcpy_def memcpy_bwd_eq)
qed

theorem memcpy_overlap_witness:
  "memcpy (write_bytes (\<lambda>_. 0) 100 [1, 2, 3, 4]) 102 100 4
   = (write_bytes (write_bytes (\<lambda>_. 0) 100 [1, 2, 3, 4]) 102 [1, 2, 3, 4], 102)"
  using memcpy_overlap [of 100 4 102 "write_bytes (\<lambda>_. 0) 100 [1, 2, 3, 4]"]
  by (simp add: bytes_at_numeral)

lemma memcpy_apart:
  "apart dest (unat n) src (unat n) \<Longrightarrow>
   memcpy m dest src n = (write_bytes m dest (bytes_at m src (unat n)), dest)"
  by (auto simp: memcpy_def memcpy_fwd_eq memcpy_bwd_eq apart_def)

subsection \<open>memcpy and memset of dl_runtime\<close>

function dl_memcpy_loop :: "mem \<Rightarrow> u64 \<Rightarrow> u64 \<Rightarrow> u64 \<Rightarrow> u64 \<Rightarrow> mem" where
  "dl_memcpy_loop m d s n i =
     (if i < n then dl_memcpy_loop (m(d + i := m (s + i))) d s n (i + 1) else m)"
  by pat_completeness auto
termination
  by (relation "measure (\<lambda>(m, d, s, n, i). unat n - unat i)")
    (simp_all add: unat_inc_less)


declare dl_memcpy_loop.simps [simp del]

definition dl_memcpy :: "mem \<Rightarrow> u64 \<Rightarrow> u64 \<Rightarrow> u64 \<Rightarrow> mem \<times> u64" where
  "dl_memcpy m dest src n = (dl_memcpy_loop m dest src n 0, dest)"

function dl_memset_loop :: "mem \<Rightarrow> u64 \<Rightarrow> u8 \<Rightarrow> u64 \<Rightarrow> u64 \<Rightarrow> mem" where
  "dl_memset_loop m p c n i =
     (if i < n then dl_memset_loop (m(p + i := c)) p c n (i + 1) else m)"
  by pat_completeness auto
termination
  by (relation "measure (\<lambda>(m, p, c, n, i). unat n - unat i)") (simp_all add: unat_inc_less)

declare dl_memset_loop.simps [simp del]

definition dl_memset :: "mem \<Rightarrow> u64 \<Rightarrow> i32 \<Rightarrow> u64 \<Rightarrow> mem \<times> u64" where
  "dl_memset m s c n = (dl_memset_loop m s (ucast c) n 0, s)"

lemma dl_memcpy_loop_fwd: "i \<le> n \<Longrightarrow> dl_memcpy_loop m d s n i = memcpy_fwd m (d + i) (s + i) (n - i)"
proof (induction m d s n i rule: dl_memcpy_loop.induct)
  case (1 m d s n i)
  show ?case
  proof (cases "i < n")
    case True
    then have "i + 1 \<le> n" "n - i \<noteq> 0"
      by (auto simp: word_le_nat_alt word_less_nat_alt unat_inc [OF True])
    then have "dl_memcpy_loop (m(d + i := m (s + i))) d s n (i + 1)
        = memcpy_fwd (m(d + i := m (s + i))) (d + (i + 1)) (s + (i + 1)) (n - (i + 1))"
      using True by (intro "1.IH")
    with True \<open>n - i \<noteq> 0\<close> show ?thesis
      by (simp add: dl_memcpy_loop.simps [of m] memcpy_fwd.simps [of m] diff_diff_eq add.assoc)
  next
    case False
    with 1 show ?thesis
      by (simp add: dl_memcpy_loop.simps [of m] memcpy_fwd.simps [of m])
  qed
qed

text \<open>
  The linker's copy always runs forward: it agrees with \<open>memcpy\<close> exactly where that one also
  runs forward or the blocks do not overlap.
\<close>

lemma dl_memcpy_fwd: "dl_memcpy m d s n = (memcpy_fwd m d s n, d)"
  by (simp add: dl_memcpy_def dl_memcpy_loop_fwd)

lemma dl_memcpy_apart:
  "apart dest (unat n) src (unat n) \<Longrightarrow>
   dl_memcpy m dest src n = (write_bytes m dest (bytes_at m src (unat n)), dest)"
  by (auto simp: dl_memcpy_fwd memcpy_fwd_eq apart_def)

subsection \<open>memset\<close>

function memset_bytes :: "mem \<Rightarrow> u64 \<Rightarrow> u8 \<Rightarrow> u64 \<Rightarrow> mem" where
  "memset_bytes m p value n =
     (if n \<noteq> 0 then memset_bytes (m(p := value)) (p + 1) value (n - 1) else m)"
  by pat_completeness auto
termination
  by (relation "measure (\<lambda>(m, p, c, n). unat n)") (auto simp: unat_Suc_less)

function memset_align :: "mem \<Rightarrow> u64 \<Rightarrow> u8 \<Rightarrow> u64 \<Rightarrow> mem \<times> u64 \<times> u64" where
  "memset_align m p value n =
     (if p AND (8 - 1) \<noteq> 0 \<and> n \<noteq> 0 then memset_align (m(p := value)) (p + 1) value (n - 1)
      else (m, p, n))"
  by pat_completeness auto
termination
  by (relation "measure (\<lambda>(m, p, c, n). unat n)") (auto simp: unat_Suc_less)

definition fill_word :: "u8 \<Rightarrow> u64" where
  "fill_word value = ((\<lambda>w. push_bit 8 w OR ucast value) ^^ 8) 0"

function memset_words :: "mem \<Rightarrow> u64 \<Rightarrow> u64 \<Rightarrow> u64 \<Rightarrow> mem \<times> u64 \<times> u64" where
  "memset_words m wp fw n =
     (if 8 \<le> n then memset_words (st64 m wp fw) (wp + 8) fw (n - 8) else (m, wp, n))"
  by pat_completeness auto
termination
  by (relation "measure (\<lambda>(m, p, c, n). unat n)")
    (auto simp: word_le_nat_alt unat_sub_if')

declare memset_bytes.simps [simp del] memset_align.simps [simp del] memset_words.simps [simp del]

definition memset :: "mem \<Rightarrow> u64 \<Rightarrow> i32 \<Rightarrow> u64 \<Rightarrow> mem \<times> u64" where
  "memset m s c n =
     (if s = 0 then (m, 0)
      else let value = ucast c :: u8;
               (m2, p2, n2) =
                 (if 8 \<le> n then
                    let (m1, p1, n1) = memset_align m s value n
                    in memset_words m1 p1 (fill_word value) n1
                  else (m, s, n))
           in (memset_bytes m2 p2 value n2, s))"

lemma memset_bytes_eq:
  "k = unat n \<Longrightarrow> memset_bytes m p c n = write_bytes m p (replicate k c)"
proof (induction k arbitrary: m p n)
  case 0
  then have "n = 0" by (simp add: unat_eq_0)
  then show ?case by (simp add: memset_bytes.simps)
next
  case (Suc k)
  then have n: "n \<noteq> 0" "k = unat (n - 1)" using unat_eq_SucD [OF Suc.prems] by auto
  from n(2) have "memset_bytes (m(p := c)) (p + 1) c (n - 1)
      = write_bytes (m(p := c)) (p + 1) (replicate k c)"
    by (rule Suc.IH)
  with n(1) show ?case by (simp add: memset_bytes.simps [of m])
qed

lemma memset_align_eq:
  "memset_align m p c n = (m', p', n') \<Longrightarrow>
   \<exists>k. unat n = k + unat n' \<and> p' = p + of_nat k \<and> m' = write_bytes m p (replicate k c)"
proof (induction m p c n rule: memset_align.induct)
  case (1 m p c n)
  show ?case
  proof (cases "p AND (8 - 1) \<noteq> 0 \<and> n \<noteq> 0")
    case True
    then have "memset_align (m(p := c)) (p + 1) c (n - 1) = (m', p', n')"
      using "1.prems" by (simp add: memset_align.simps [of m])
    with True obtain k where "unat (n - 1) = k + unat n'" "p' = p + 1 + of_nat k"
      "m' = write_bytes (m(p := c)) (p + 1) (replicate k c)"
      using "1.IH" by blast
    moreover have "unat n = Suc (unat (n - 1))" using True by (simp add: unat_pred unat_gt_0)
    ultimately show ?thesis by (intro exI [of _ "Suc k"]) simp
  next
    case False
    then have "memset_align m p c n = (m, p, n)" by (subst memset_align.simps) auto
    with "1.prems" show ?thesis by (intro exI [of _ 0]) simp
  qed
qed

lemma fill_word_from_le: "((\<lambda>w. push_bit 8 w OR ucast c) ^^ k) 0 = (from_le (replicate k c) :: u64)"
  by (induction k) (simp_all add: or.commute)

lemma to_le_fill_word: "to_le 8 (fill_word c) = replicate 8 c"
  using to_le_from_le [of "replicate 8 c", where 'a = 64]
  by (simp add: fill_word_def fill_word_from_le del: to_le.simps)

lemma st64_fill_word: "st64 m p (fill_word c) = write_bytes m p (replicate 8 c)"
  by (simp only: st64_def to_le_fill_word)

lemma memset_words_eq:
  "memset_words m p (fill_word c) n = (m', p', n') \<Longrightarrow>
   \<exists>k. unat n = k + unat n' \<and> p' = p + of_nat k \<and> m' = write_bytes m p (replicate k c)"
proof (induction "unat n" arbitrary: m p n rule: less_induct)
  case less
  show ?case
  proof (cases "8 \<le> n")
    case True
    then have n: "unat n = 8 + unat (n - 8)" by (simp add: word_le_nat_alt unat_sub_if')
    have "memset_words (st64 m p (fill_word c)) (p + 8) (fill_word c) (n - 8) = (m', p', n')"
      using less.prems True by (simp add: memset_words.simps [of m])
    then obtain k where "unat (n - 8) = k + unat n'" "p' = p + 8 + of_nat k"
      "m' = write_bytes (st64 m p (fill_word c)) (p + 8) (replicate k c)"
      using less.hyps [of "n - 8"] n by fastforce
    moreover have "write_bytes m p (replicate (8 + k) c)
        = write_bytes (write_bytes m p (replicate 8 c)) (p + 8) (replicate k c)"
      using write_bytes_append [of m p "replicate 8 c" "replicate k c"]
      by (simp only: replicate_add length_replicate of_nat_numeral)
    ultimately show ?thesis
      using n by (intro exI [of _ "8 + k"]) (simp only: st64_fill_word of_nat_add of_nat_numeral add.assoc)
  next
    case False
    with less.prems show ?thesis by (simp add: memset_words.simps [of m])
  qed
qed

text \<open>The word-wise fill and the byte loop of the linker write the same bytes.\<close>

lemma memset_eq:
  assumes "s \<noteq> 0"
  shows "memset m s c n = (write_bytes m s (replicate (unat n) (ucast c)), s)"
proof (cases "8 \<le> n")
  case True
  let ?c = "ucast c :: u8"
  obtain m1 p1 n1 where al: "memset_align m s ?c n = (m1, p1, n1)"
    using prod_cases3 by blast
  obtain m2 p2 n2 where wo: "memset_words m1 p1 (fill_word ?c) n1 = (m2, p2, n2)"
    using prod_cases3 by blast
  obtain j where j: "unat n = j + unat n1" "p1 = s + of_nat j" "m1 = write_bytes m s (replicate j ?c)"
    using memset_align_eq [OF al] by blast
  obtain k where k: "unat n1 = k + unat n2" "p2 = p1 + of_nat k"
    "m2 = write_bytes m1 p1 (replicate k ?c)"
    using memset_words_eq [OF wo] by blast
  have "memset m s c n = (write_bytes m2 p2 (replicate (unat n2) ?c), s)"
    using True assms al wo by (simp add: memset_def memset_bytes_eq)
  also have "write_bytes m2 p2 (replicate (unat n2) ?c) = write_bytes m s (replicate (unat n) ?c)"
    using j k by (simp add: replicate_add write_bytes_append add.assoc)
  finally show ?thesis .
next
  case False
  with assms show ?thesis by (simp add: memset_def memset_bytes_eq)
qed

lemma dl_memset_loop_eq: "i \<le> n \<Longrightarrow> dl_memset_loop m p c n i = memset_bytes m (p + i) c (n - i)"
proof (induction m p c n i rule: dl_memset_loop.induct)
  case (1 m p c n i)
  show ?case
  proof (cases "i < n")
    case True
    then have "i + 1 \<le> n" "n - i \<noteq> 0"
      by (auto simp: word_le_nat_alt word_less_nat_alt unat_inc [OF True])
    then have "dl_memset_loop (m(p + i := c)) p c n (i + 1)
        = memset_bytes (m(p + i := c)) (p + (i + 1)) c (n - (i + 1))"
      using True by (intro "1.IH")
    with True \<open>n - i \<noteq> 0\<close> show ?thesis
      by (simp add: dl_memset_loop.simps [of m] memset_bytes.simps [of m] diff_diff_eq add.assoc)
  next
    case False
    with 1 show ?thesis
      by (simp add: dl_memset_loop.simps [of m] memset_bytes.simps [of m])
  qed
qed

lemma dl_memset_eq: "dl_memset m s c n = (write_bytes m s (replicate (unat n) (ucast c)), s)"
  by (simp add: dl_memset_def dl_memset_loop_eq memset_bytes_eq)

subsection \<open>The contract of a block copy\<close>

locale mem_copy =
  fixes copy :: "mem \<Rightarrow> u64 \<Rightarrow> u64 \<Rightarrow> u64 \<Rightarrow> mem \<times> u64"
  assumes copy_apart: "apart d (unat n) s (unat n) \<Longrightarrow>
    copy m d s n = (write_bytes m d (bytes_at m s (unat n)), d)"
begin

text \<open>
  Copying the bytes of a string and terminating the copy, as both printers do, makes the same
  string at the destination and touches nothing else.
\<close>

lemma copy_bytes:
  "length xs < 2 ^ 64 \<Longrightarrow> bytes_at m s (length xs) = xs \<Longrightarrow> apart d (length xs) s (length xs) \<Longrightarrow>
   fst (copy m d s (of_nat (length xs))) = write_bytes m d xs"
  by (simp add: copy_apart unat_of_nat_small)

lemma copy_terminate:
  "length xs < 2 ^ 64 \<Longrightarrow> bytes_at m s (length xs) = xs \<Longrightarrow> apart d (length xs) s (length xs) \<Longrightarrow>
   (fst (copy m d s (of_nat (length xs))))(d + of_nat (length xs) := 0) = write_bytes m d (xs @ [0])"
  by (simp add: copy_bytes write_bytes_snoc)

lemma copy_string:
  assumes "length xs < 2 ^ 64" and "cstr m s xs" and "apart d (length xs) s (length xs)"
  shows "cstr ((fst (copy m d s (of_nat (length xs))))(d + of_nat (length xs) := 0)) d xs"
proof -
  have "bytes_at m s (length xs) = xs" and "0 \<notin> set xs"
    using assms(2) bytes_at_add [of m s "length xs" 1] by (simp_all add: cstr_bytes_at del: bytes_at.simps(2))
  then show ?thesis
    using assms by (simp add: copy_terminate cstr_write_same)
qed

end

interpretation libc_copy: mem_copy memcpy
  by unfold_locales (rule memcpy_apart)

interpretation dl_copy: mem_copy dl_memcpy
  by unfold_locales (rule dl_memcpy_apart)

end
