(* ===== verification/Syscalls.thy ===== *)
theory Syscalls
  imports CMem
begin

text \<open>
  The system-call layer of mini_libc: write.c, read.c, open.c, close.c, lseek.c, brk.c,
  mmap.c, clone.c, fork.c and \<open>gettid\<close> / \<open>futex\<close> of pthread.c and lock.c.

  The Linux kernel is not part of the repository: it is the parameter \<open>K\<close> of every wrapper, a
  function that is given its own state, the memory of the process, the call number in x8 and
  the argument registers, and answers with the value it leaves in x0, the new memory and its
  new state. An operand that the inline assembly takes from a 64-bit C value fills the register
  (\<open>RX\<close>); one taken from a 32-bit value determines only its low half (\<open>RW\<close>), the top half being
  whatever the compiler left there.
\<close>

datatype reg = RX u64 | RW u32

type_synonym 'k kernel = "'k \<Rightarrow> mem \<Rightarrow> u64 \<Rightarrow> reg list \<Rightarrow> u64 \<times> mem \<times> 'k"

record 'k world =
  wmem :: mem
  kst :: 'k

definition svc :: "'k kernel \<Rightarrow> u64 \<Rightarrow> reg list \<Rightarrow> 'k world \<Rightarrow> u64 \<times> 'k world" where
  "svc K nr args w =
     (case K (kst w) (wmem w) nr args of (x0, m, k) \<Rightarrow> (x0, w\<lparr>wmem := m, kst := k\<rparr>))"

subsection \<open>Files\<close>

definition sys_write :: "'k kernel \<Rightarrow> i32 \<Rightarrow> u64 \<Rightarrow> i32 \<Rightarrow> 'k world \<Rightarrow> i32 \<times> 'k world" where
  "sys_write K fd buf count w = (case svc K 64 [RW fd, RX buf, RW count] w of (r, w') \<Rightarrow> (ucast r, w'))"

text \<open>The stand-alone copy of arm_asm/arm64_sys_call.c; the kernel header's \<open>__NR_write\<close> is 64.\<close>

definition svc_write :: "'k kernel \<Rightarrow> i32 \<Rightarrow> u64 \<Rightarrow> i32 \<Rightarrow> 'k world \<Rightarrow> i32 \<times> 'k world" where
  "svc_write K fd buf count w = (case svc K 64 [RW fd, RX buf, RW count] w of (r, w') \<Rightarrow> (ucast r, w'))"

text \<open>Its \<open>main\<close>: the state in which the endless loop after the write is entered; \<open>buf\<close> is the literal.\<close>

definition arm_main :: "'k kernel \<Rightarrow> u64 \<Rightarrow> 'k world \<Rightarrow> 'k world" where
  "arm_main K buf w = (case svc_write K 1 buf 6 w of (result, w1) \<Rightarrow> w1)"

definition sys_read :: "'k kernel \<Rightarrow> i32 \<Rightarrow> u64 \<Rightarrow> u64 \<Rightarrow> 'k world \<Rightarrow> i64 \<times> 'k world" where
  "sys_read K fd buf count w =
     (case svc K 63 [RX (scast fd), RX buf, RX count] w of
        (x0, w') \<Rightarrow> if sint x0 < 0 then (- 1, w') else (x0, w'))"

definition sys_open :: "'k kernel \<Rightarrow> u64 \<Rightarrow> i32 \<Rightarrow> i32 \<Rightarrow> 'k world \<Rightarrow> i32 \<times> 'k world" where
  "sys_open K pathname flags mode w =
     (case svc K 56 [RW (- 100), RX pathname, RW flags, RW mode] w of (r, w') \<Rightarrow> (ucast r, w'))"

definition sys_close :: "'k kernel \<Rightarrow> i32 \<Rightarrow> 'k world \<Rightarrow> i32 \<times> 'k world" where
  "sys_close K fd w = (case svc K 57 [RW fd] w of (r, w') \<Rightarrow> (ucast r, w'))"

definition sys_lseek :: "'k kernel \<Rightarrow> i32 \<Rightarrow> i32 \<Rightarrow> i32 \<Rightarrow> 'k world \<Rightarrow> i32 \<times> 'k world" where
  "sys_lseek K fd offset whence w =
     (case svc K 62 [RW fd, RW offset, RW whence] w of (r, w') \<Rightarrow> (ucast r, w'))"

subsection \<open>The program break\<close>

text \<open>The static \<open>__mini_brk\<close> is passed in and returned; \<open>0\<close> is its initial NULL.\<close>

definition raw_brk :: "'k kernel \<Rightarrow> u64 \<Rightarrow> 'k world \<Rightarrow> u64 \<times> 'k world" where
  "raw_brk K end_data w = svc K 214 [RX end_data] w"

definition brk :: "'k kernel \<Rightarrow> u64 \<Rightarrow> u64 \<Rightarrow> 'k world \<Rightarrow> i32 \<times> u64 \<times> 'k world" where
  "brk K mini_brk end_data w =
     (case raw_brk K end_data w of (b, w') \<Rightarrow> if b < end_data then (- 1, b, w') else (0, b, w'))"

definition sbrk :: "'k kernel \<Rightarrow> u64 \<Rightarrow> i64 \<Rightarrow> 'k world \<Rightarrow> u64 \<times> u64 \<times> 'k world" where
  "sbrk K mini_brk increment w =
     (let (b, w1) = (if mini_brk = 0 then raw_brk K 0 w else (mini_brk, w))
      in if increment = 0 then (b, b, w1)
         else if (0 < sint increment \<and> 0xffffffffffffffff - b < increment)
               \<or> (sint increment < 0 \<and> b < - increment) then (0, b, w1)
         else let desired = b + increment;
                  (b', w2) = raw_brk K desired w1
              in if b' < desired then (0, b', w2) else (b, b', w2))"

subsection \<open>Memory mappings\<close>

definition raw_mmap :: "'k kernel \<Rightarrow> u64 \<Rightarrow> i64 \<Rightarrow> i32 \<Rightarrow> i32 \<Rightarrow> i32 \<Rightarrow> i64 \<Rightarrow> 'k world \<Rightarrow> u64 \<times> 'k world" where
  "raw_mmap K addr sz prot flags fd offset w =
     svc K 222 [RX addr, RX sz, RW prot, RW flags, RW fd, RX offset] w"

definition mini_align :: "u64 \<Rightarrow> u64 \<Rightarrow> u64" where
  "mini_align v a = (v + a - 1) AND NOT (a - 1)"

definition mmap :: "'k kernel \<Rightarrow> u64 \<Rightarrow> i64 \<Rightarrow> i32 \<Rightarrow> i32 \<Rightarrow> i32 \<Rightarrow> i64 \<Rightarrow> 'k world \<Rightarrow> u64 \<times> 'k world" where
  "mmap K addr sz prot flags fd offset w =
     (if sint offset < 0 then (0, w)
      else let rounded = mini_align sz 4096
           in if sint rounded < sint sz then (0, w)
              else raw_mmap K addr sz prot flags fd offset w)"

definition munmap :: "'k kernel \<Rightarrow> u64 \<Rightarrow> i64 \<Rightarrow> 'k world \<Rightarrow> i32 \<times> 'k world" where
  "munmap K addr sz w = (case svc K 215 [RX addr, RX sz] w of (r, w') \<Rightarrow> (ucast r, w'))"

definition MAP_FAILED :: u64 where "MAP_FAILED = - 1"

subsection \<open>Processes and threads\<close>

text \<open>
  \<open>clone\<close> returns in the caller; in the new task (x0 = 0) with a function it calls that
  function and exits, so the call does not return there.
\<close>

datatype clone_outcome = Returns i32 | RunsChild u64 u64

definition clone :: "'k kernel \<Rightarrow> u64 \<Rightarrow> u64 \<Rightarrow> i32 \<Rightarrow> u64 \<Rightarrow> u64 \<times> u64 \<times> u64 \<Rightarrow> 'k world \<Rightarrow>
    clone_outcome \<times> 'k world" where
  "clone K fn stack flags arg va w =
     (case va of (parent_tid, tls, child_tid) \<Rightarrow>
      case svc K 220 [RX (scast flags), RX stack, RX parent_tid, RX tls, RX child_tid, RX fn, RX arg] w of
        (x0, w') \<Rightarrow>
          if x0 \<noteq> 0 then (Returns (ucast x0), w')
          else if fn = 0 then (Returns (ucast x0), w')
          else (RunsChild fn arg, w'))"

text \<open>
  \<open>fork\<close> passes none of the three variable arguments that \<open>clone\<close> reads; what is read is
  the parameter \<open>garbage\<close>.
\<close>

definition fork :: "'k kernel \<Rightarrow> u64 \<times> u64 \<times> u64 \<Rightarrow> 'k world \<Rightarrow> clone_outcome \<times> 'k world" where
  "fork K garbage w =
     (case clone K 0 0 17 0 garbage w of
        (Returns ret, w') \<Rightarrow> (if sint ret < 0 then (Returns (- 1), w') else (Returns ret, w'))
      | (RunsChild f a, w') \<Rightarrow> (RunsChild f a, w'))"

definition getpid :: "'k kernel \<Rightarrow> 'k world \<Rightarrow> i32 \<times> 'k world" where
  "getpid K w = (case svc K 172 [RX 0] w of (r, w') \<Rightarrow> (ucast r, w'))"

definition gettid :: "'k kernel \<Rightarrow> 'k world \<Rightarrow> i32 \<times> 'k world" where
  "gettid K w = (case svc K 178 [] w of (r, w') \<Rightarrow> (ucast r, w'))"

definition futex :: "'k kernel \<Rightarrow> u64 \<Rightarrow> i32 \<Rightarrow> i32 \<Rightarrow> u64 \<Rightarrow> u64 \<Rightarrow> i32 \<Rightarrow> 'k world \<Rightarrow> i32 \<times> 'k world" where
  "futex K uaddr futex_op val timeout uaddr2 val3 w =
     (case svc K 98 [RX uaddr, RX (scast futex_op), RX (scast val), RX timeout, RX uaddr2, RX (scast val3)] w of
        (r, w') \<Rightarrow> (ucast r, w'))"

subsection \<open>Properties of the break\<close>

text \<open>
  What brk(2) documents: a call leaves memory alone and answers with the break in force
  afterwards, which is the requested one or, if it refuses (or is asked for 0), the old one.
  \<open>cur\<close> reads the break off the kernel's state.
\<close>

definition brk_kernel :: "'k kernel \<Rightarrow> ('k \<Rightarrow> u64) \<Rightarrow> bool" where
  "brk_kernel K cur \<longleftrightarrow>
     (\<forall>k m a. case K k m 214 [RX a] of (r, m', k') \<Rightarrow>
        m' = m \<and> r = cur k' \<and> (cur k' = a \<or> cur k' = cur k) \<and> (a = 0 \<longrightarrow> cur k' = cur k))"

lemma brk_kernelD:
  assumes "brk_kernel K cur" and "raw_brk K a w = (r, w')"
  shows "wmem w' = wmem w" "r = cur (kst w')" "cur (kst w') = a \<or> cur (kst w') = cur (kst w)"
    "a = 0 \<Longrightarrow> cur (kst w') = cur (kst w)"
proof -
  obtain m' k' where eq: "K (kst w) (wmem w) 214 [RX a] = (r, m', k')" "w' = w\<lparr>wmem := m', kst := k'\<rparr>"
    using assms(2) by (auto simp: raw_brk_def svc_def split: prod.splits)
  have "case K (kst w) (wmem w) 214 [RX a] of (r, m', k') \<Rightarrow>
      m' = wmem w \<and> r = cur k' \<and> (cur k' = a \<or> cur k' = cur (kst w)) \<and> (a = 0 \<longrightarrow> cur k' = cur (kst w))"
    using assms(1) by (simp only: brk_kernel_def)
  with eq show "wmem w' = wmem w" "r = cur (kst w')"
    "cur (kst w') = a \<or> cur (kst w') = cur (kst w)" "a = 0 \<Longrightarrow> cur (kst w') = cur (kst w)"
    by simp_all
qed

text \<open>The recorded break: unknown (NULL) or the kernel's.\<close>

definition brk_synced :: "('k \<Rightarrow> u64) \<Rightarrow> u64 \<Rightarrow> 'k world \<Rightarrow> bool" where
  "brk_synced cur b w \<longleftrightarrow> b = 0 \<or> b = cur (kst w)"

lemma sbrk_synced:
  assumes "brk_kernel K cur" and "brk_synced cur b w" and "sbrk K b inc w = (p, b', w')"
  shows "brk_synced cur b' w' \<and> wmem w' = wmem w"
proof (cases "b = 0")
  case True
  obtain c w1 where c: "raw_brk K 0 w = (c, w1)" by (cases "raw_brk K 0 w")
  obtain d w2 where d: "raw_brk K (c + inc) w1 = (d, w2)" by (cases "raw_brk K (c + inc) w1")
  show ?thesis
    using assms(3) brk_kernelD [OF assms(1) c] brk_kernelD [OF assms(1) d] True c d
    by (auto simp: sbrk_def brk_synced_def Let_def split: if_splits)
next
  case False
  obtain d w2 where d: "raw_brk K (b + inc) w = (d, w2)" by (cases "raw_brk K (b + inc) w")
  show ?thesis
    using assms(2,3) brk_kernelD [OF assms(1) d] False d
    by (auto simp: sbrk_def brk_synced_def Let_def split: if_splits)
qed

text \<open>With a kernel whose brk call behaves as documented, a positive \<open>sbrk\<close> that does not answer
  NULL answers the old break, and the break has moved up by exactly the increment.\<close>

theorem sbrk_grow:
  assumes K: "brk_kernel K cur" and sync: "brk_synced cur b w" and inc: "0 < sint inc"
    and res: "sbrk K b inc w = (p, b', w')" and p: "p \<noteq> 0"
  shows "p = cur (kst w) \<and> cur (kst w') = cur (kst w) + inc \<and> cur (kst w) < cur (kst w')"
proof -
  obtain c w1 where c: "(if b = 0 then raw_brk K 0 w else (b, w)) = (c, w1)"
    by (cases "if b = 0 then raw_brk K 0 w else (b, w)")
  obtain d w2 where d: "raw_brk K (c + inc) w1 = (d, w2)" by (cases "raw_brk K (c + inc) w1")
  have cw: "c = cur (kst w)" "cur (kst w1) = cur (kst w)"
    using c sync brk_kernelD [OF K, of 0 w c w1] by (auto simp: brk_synced_def split: if_splits)
  have inc0: "inc \<noteq> 0" using inc by auto
  with res c d p have r: "\<not> 0xffffffffffffffff - c < inc" "p = c" "w' = w2" "\<not> d < c + inc"
    using inc by (auto simp: sbrk_def Let_def split: if_splits)
  have "unat (0xffffffffffffffff - c) = 2 ^ 64 - 1 - unat c"
    using unat_less_2p [of c] by (simp add: unat_sub_if')
  with r(1) have "unat c + unat inc < 2 ^ 64"
    using unat_less_2p [of c] by (simp add: word_less_nat_alt)
  then have "unat (c + inc) = unat c + unat inc" by (simp add: unat_word_ariths)
  then have lt: "c < c + inc" using inc0 by (simp add: word_less_nat_alt unat_gt_0)
  have "d = cur (kst w2)" "cur (kst w2) = c + inc \<or> cur (kst w2) = cur (kst w1)"
    using brk_kernelD [OF K d] by auto
  with r lt cw show ?thesis by auto
qed

definition demo_brk :: "u64 kernel" where
  "demo_brk k m nr args =
     (case args of [RX a] \<Rightarrow> (if a = 0 then (k, m, k) else (a, m, a)) | _ \<Rightarrow> (- 38, m, k))"

theorem sbrk_grow_witness:
  "\<exists>b w'. sbrk demo_brk 0 16 \<lparr>wmem = (\<lambda>_. 0), kst = 0x5000\<rparr> = (0x5000, b, w') \<and> kst w' = 0x5010"
proof -
  let ?w = "\<lparr>wmem = (\<lambda>_. 0), kst = 0x5000 :: u64\<rparr>"
  have "brk_kernel demo_brk (\<lambda>k. k)" by (simp add: brk_kernel_def demo_brk_def)
  moreover obtain b w' where r: "sbrk demo_brk 0 16 ?w = (0x5000, b, w')"
    by (simp add: sbrk_def raw_brk_def svc_def demo_brk_def)
  ultimately show ?thesis
    using sbrk_grow [of demo_brk "\<lambda>k. k" 0 ?w 16 "0x5000" b w'] by (simp add: brk_synced_def)
qed

text \<open>
  Shrinking that the kernel refuses is reported as a success: the break that did not move is
  not below the desired one.
\<close>

lemma sbrk_refused_shrink:
  assumes "b \<noteq> 0" and "sint inc < 0" and "\<not> b < - inc"
    and "raw_brk K (b + inc) w = (b, w')"
  shows "sbrk K b inc w = (b, b, w')"
proof -
  have "inc \<noteq> 0" using assms(2) by auto
  have "unat (- inc) = 2 ^ 64 - unat inc"
    using \<open>inc \<noteq> 0\<close> by (simp add: unat_diff_circ [of 0 inc, simplified] unat_eq_0)
  then have "\<not> b < b + inc"
    using assms(3) unat_less_2p [of b] unat_less_2p [of inc]
    by (auto simp: word_less_nat_alt unat_word_ariths add_mod_cases split: if_splits)
  with assms \<open>inc \<noteq> 0\<close> show ?thesis by (simp add: sbrk_def Let_def)
qed

end
