(* ===== verification/Malloc.thy ===== *)
theory Malloc
  imports Syscalls
begin

text \<open>
  The buddy allocator of mini_libc/src/malloc.c, statement by statement. Block headers
  (\<open>block_t\<close>) are kept in a typed store indexed by the header's address; the allocator
  structure (\<open>buddy_allocator_t\<close>) is a record, its 32 list heads a list. Index 32, which
  \<open>get_order\<close> can return, is one past the array: the layout of the structure puts
  \<open>heap_start\<close> there, and so does the model. New memory comes from \<open>mmap\<close>, hence from
  the kernel parameter. What \<open>printf\<close> is asked to print is kept in \<open>printed\<close>.

  \<open>malloc\<close>, \<open>merge_blocks\<close> and the loops they run need not end (a cyclic free list, a pool
  size that overflows to 0), so they are partial functions; \<open>None\<close> is a call that does not
  return.
\<close>

record block =
  blk_size :: u64
  blk_order :: int
  is_free :: int
  next_free :: u64
  buddy :: u64

record allocator =
  free_lists :: "u64 list"
  heap_start :: u64
  heap_size :: u64

record 'k heap =
  hdr :: "u64 \<Rightarrow> block"
  galloc :: u64
  alloc :: allocator
  printed :: "string list"
  hw :: "'k world"

definition block_hdr_size :: u64 where "block_hdr_size = 32"

definition get_head :: "allocator \<Rightarrow> int \<Rightarrow> u64" where
  "get_head a i = (if i < 32 then free_lists a ! nat i else heap_start a)"

definition set_head :: "int \<Rightarrow> u64 \<Rightarrow> allocator \<Rightarrow> allocator" where
  "set_head i p a =
     (if i < 32 then a\<lparr>free_lists := (free_lists a)[nat i := p]\<rparr> else a\<lparr>heap_start := p\<rparr>)"

definition upd_block :: "u64 \<Rightarrow> (block \<Rightarrow> block) \<Rightarrow> 'k heap \<Rightarrow> 'k heap" where
  "upd_block p f h = h\<lparr>hdr := (hdr h)(p := f (hdr h p))\<rparr>"

definition upd_head :: "int \<Rightarrow> u64 \<Rightarrow> 'k heap \<Rightarrow> 'k heap" where
  "upd_head i p h = h\<lparr>alloc := set_head i p (alloc h)\<rparr>"

definition order_bytes :: "int \<Rightarrow> u64" where
  "order_bytes k = push_bit (nat k) 1 * 64"

subsection \<open>get_order\<close>

function get_order_loop :: "u64 \<Rightarrow> int \<Rightarrow> u64 \<Rightarrow> int" where
  "get_order_loop sz k block_sz =
     (if block_sz < sz \<and> k < 32 then get_order_loop sz (k + 1) (block_sz * 2) else k)"
  by pat_completeness auto
termination
  by (relation "measure (\<lambda>(sz, k, b). nat (32 - k))") auto

declare get_order_loop.simps [simp del]

definition get_order :: "u64 \<Rightarrow> int" where
  "get_order sz = get_order_loop sz 0 64"

subsection \<open>Initialisation\<close>

definition heap_mmap :: "'k kernel \<Rightarrow> u64 \<Rightarrow> 'k heap \<Rightarrow> u64 \<times> 'k heap" where
  "heap_mmap K sz h = (case mmap K 0 sz 3 0x22 (- 1) 0 (hw h) of (p, w) \<Rightarrow> (p, h\<lparr>hw := w\<rparr>))"

definition buddy_init :: "'k kernel \<Rightarrow> u64 \<Rightarrow> 'k heap \<Rightarrow> u64 \<times> 'k heap" where
  "buddy_init K initial_size0 h =
     (let initial_size = (if initial_size0 < 64 then 64 else initial_size0);
          (a, h1) = heap_mmap K 272 h;
          h2 = h1\<lparr>alloc := \<lparr>free_lists = replicate 32 0, heap_start = heap_start (alloc h1),
                            heap_size = initial_size\<rparr>\<rparr>;
          (p, h3) = heap_mmap K initial_size h2;
          h4 = h3\<lparr>alloc := (alloc h3)\<lparr>heap_start := p\<rparr>\<rparr>;
          h5 = upd_block p (\<lambda>_. \<lparr>blk_size = initial_size - block_hdr_size,
                 blk_order = get_order initial_size, is_free = 1, next_free = 0, buddy = 0\<rparr>) h4
      in (a, upd_head (get_order initial_size) p h5))"

definition ensure_allocator_init :: "'k kernel \<Rightarrow> 'k heap \<Rightarrow> u64 \<times> 'k heap" where
  "ensure_allocator_init K h =
     (if galloc h = 0 then
        let (a, h1) = buddy_init K (push_bit 20 1) h in (a, h1\<lparr>galloc := a\<rparr>)
      else (galloc h, h))"

subsection \<open>Merging\<close>

text \<open>\<open>block_t **list\<close>: the cell a list pointer is read from and written to.\<close>

datatype cell = Head int | NextOf u64

fun read_cell :: "'k heap \<Rightarrow> cell \<Rightarrow> u64" where
  "read_cell h (Head i) = get_head (alloc h) i"
| "read_cell h (NextOf p) = next_free (hdr h p)"

fun write_cell :: "cell \<Rightarrow> u64 \<Rightarrow> 'k heap \<Rightarrow> 'k heap" where
  "write_cell (Head i) v h = upd_head i v h"
| "write_cell (NextOf p) v h = upd_block p (\<lambda>b. b\<lparr>next_free := v\<rparr>) h"

partial_function (option) find_cell :: "'k heap \<Rightarrow> u64 \<Rightarrow> cell \<Rightarrow> cell option" where
  "find_cell h bud c =
     (if read_cell h c \<noteq> 0 \<and> read_cell h c \<noteq> bud
      then find_cell h bud (NextOf (read_cell h c)) else Some c)"

definition unlink_block :: "u64 \<Rightarrow> 'k heap \<Rightarrow> 'k heap option" where
  "unlink_block bud h =
     Option.bind (find_cell h bud (Head (blk_order (hdr h bud)))) (\<lambda>c.
       Some (if read_cell h c \<noteq> 0 then write_cell c (next_free (hdr h bud)) h else h))"

text \<open>The part of the loop body after the address check: \<open>blk\<close> absorbs \<open>bud\<close> behind it.\<close>

definition absorb :: "u64 \<Rightarrow> u64 \<Rightarrow> 'k heap \<Rightarrow> 'k heap option" where
  "absorb blk bud h =
     Option.bind (unlink_block bud h) (\<lambda>h1.
       let h2 = upd_block blk (\<lambda>b. b\<lparr>blk_order := blk_order b + 1\<rparr>) h1;
           k = blk_order (hdr h2 blk);
           h3 = upd_block blk (\<lambda>b. b\<lparr>blk_size := order_bytes k - block_hdr_size\<rparr>) h2;
           buddy_addr = blk + order_bytes k
       in Some (upd_block blk (\<lambda>b. b\<lparr>buddy :=
             if buddy_addr < heap_start (alloc h) + heap_size (alloc h) then buddy_addr else 0\<rparr>) h3))"

partial_function (option) merge_loop :: "u64 \<Rightarrow> 'k heap \<Rightarrow> (u64 \<times> 'k heap) option" where
  "merge_loop blk0 h =
     (if blk_order (hdr h blk0) < 31 then
        let bud0 = buddy (hdr h blk0)
        in if bud0 = 0 \<or> is_free (hdr h bud0) = 0 \<or> blk_order (hdr h bud0) \<noteq> blk_order (hdr h blk0)
           then Some (blk0, h)
           else let block_size = order_bytes (blk_order (hdr h blk0));
                    (blk, bud) = (if bud0 < blk0 then (bud0, blk0) else (blk0, bud0))
                in if bud \<noteq> blk + block_size
                   then Some (blk, h\<lparr>printed := printed h @ [''ERROR: Invalid buddy address\<newline>'']\<rparr>)
                   else Option.bind (absorb blk bud h) (merge_loop blk)
      else Some (blk0, h))"

definition push_block :: "u64 \<Rightarrow> 'k heap \<Rightarrow> 'k heap" where
  "push_block blk h =
     (let k = blk_order (hdr h blk);
          h1 = upd_block blk (\<lambda>b. b\<lparr>next_free := get_head (alloc h) k\<rparr>) h
      in upd_head k blk h1)"

definition merge_blocks :: "u64 \<Rightarrow> 'k heap \<Rightarrow> 'k heap option" where
  "merge_blocks blk h = Option.bind (merge_loop blk h) (\<lambda>(b, h1). Some (push_block b h1))"

subsection \<open>Splitting\<close>

partial_function (option) split_block :: "u64 \<Rightarrow> int \<Rightarrow> 'k heap \<Rightarrow> 'k heap option" where
  "split_block blk target h =
     (if blk_order (hdr h blk) > target then
        let new_order = blk_order (hdr h blk) - 1;
            block_size = order_bytes new_order;
            bud = blk + block_size
        in if bud + block_size > heap_start (alloc h) + heap_size (alloc h) then Some h
           else let h1 = upd_block blk (\<lambda>b. b\<lparr>blk_size := block_size - block_hdr_size,
                                             blk_order := new_order, buddy := bud\<rparr>) h;
                    h2 = upd_block bud (\<lambda>_. \<lparr>blk_size = block_size - block_hdr_size,
                           blk_order = new_order, is_free = 1,
                           next_free = get_head (alloc h1) new_order, buddy = blk\<rparr>) h1
                in split_block blk target (upd_head new_order bud h2)
      else Some h)"

subsection \<open>Expansion\<close>

partial_function (option) grow_size :: "u64 \<Rightarrow> u64 \<Rightarrow> u64 option" where
  "grow_size new_size required =
     (if new_size < required then grow_size (new_size * 2) required else Some new_size)"

definition expand_memory_pool :: "'k kernel \<Rightarrow> u64 \<Rightarrow> 'k heap \<Rightarrow> (i32 \<times> 'k heap) option" where
  "expand_memory_pool K required h =
     Option.bind (grow_size (heap_size (alloc h) * 2) required) (\<lambda>new_size.
       let (p, h1) = heap_mmap K new_size h
       in if p = MAP_FAILED then Some (0, h1)
          else let k = get_order new_size;
                   h2 = upd_block p (\<lambda>_. \<lparr>blk_size = new_size - block_hdr_size, blk_order = k,
                          is_free = 1, next_free = 0, buddy = 0\<rparr>) h1
               in if heap_start (alloc h2) \<noteq> 0 then
                    let h3 = upd_block p (\<lambda>b. b\<lparr>next_free := get_head (alloc h2) k\<rparr>) h2;
                        h4 = upd_head k p h3
                    in Option.bind (merge_blocks p h4) (\<lambda>h5.
                         Some (1, h5\<lparr>alloc := (alloc h5)\<lparr>heap_size := heap_size (alloc h5) + new_size\<rparr>\<rparr>))
                  else
                    let h3 = h2\<lparr>alloc := (alloc h2)\<lparr>heap_start := p, heap_size := new_size\<rparr>\<rparr>
                    in Some (1, upd_head k p h3))"

subsection \<open>malloc and free\<close>

function find_order :: "'k heap \<Rightarrow> int \<Rightarrow> int option" where
  "find_order h k =
     (if k < 32 then if get_head (alloc h) k \<noteq> 0 then Some k else find_order h (k + 1) else None)"
  by pat_completeness auto
termination
  by (relation "measure (\<lambda>(h, k). nat (32 - k))") auto

declare find_order.simps [simp del]

text \<open>Steps 7 to 9 of \<open>malloc\<close>, on the block taken off list \<open>current\<close>.\<close>

definition take_block :: "int \<Rightarrow> int \<Rightarrow> 'k heap \<Rightarrow> (u64 \<times> 'k heap) option" where
  "take_block k current h =
     (let blk = get_head (alloc h) current;
          h1 = upd_head current (next_free (hdr h blk)) h
      in Option.bind (if current > k \<and> current < 32 then split_block blk k h1 else Some h1) (\<lambda>h2.
           Some (blk + block_hdr_size,
                 upd_block blk (\<lambda>b. b\<lparr>is_free := 0, next_free := 0\<rparr>) h2)))"

partial_function (option) malloc :: "'k kernel \<Rightarrow> u64 \<Rightarrow> 'k heap \<Rightarrow> (u64 \<times> 'k heap) option" where
  "malloc K sz h0 =
     (let (a, h) = ensure_allocator_init K h0
      in if a = 0 then Some (0, h)
         else let total_size = sz + block_hdr_size
              in Option.bind (if total_size > heap_size (alloc h) then expand_memory_pool K total_size h
                              else Some (1, h)) (\<lambda>(ok, h1).
                   if ok = 0 then Some (0, h1)
                   else let k = get_order total_size
                        in case find_order h1 k of
                             Some current \<Rightarrow> take_block k current h1
                           | None \<Rightarrow>
                               Option.bind (expand_memory_pool K total_size h1) (\<lambda>(ok2, h2).
                                 if ok2 = 0 then Some (0, h2) else malloc K sz h2)))"

definition free :: "u64 \<Rightarrow> 'k heap \<Rightarrow> 'k heap option" where
  "free ptr h =
     (if ptr = 0 \<or> galloc h = 0 then Some h
      else let blk = ptr - block_hdr_size
           in merge_blocks blk (upd_block blk (\<lambda>b. b\<lparr>is_free := 1\<rparr>) h))"

end
