(* ===== verification/Malloc_Inv.thy ===== *)
theory Malloc_Inv
  imports Malloc
begin

text \<open>
  The heap invariant of the buddy allocator and what each operation does to it. The heap is a
  set \<open>B\<close> of block addresses that do not overlap, lie in the pool and follow one another
  without gaps up to its end; the list heads reach,
  through the \<open>next_free\<close> fields, exactly the free blocks of each order (\<open>L\<close> gives the
  lists), apart from the blocks \<open>X\<close> an operation holds in its hands.
\<close>

named_theorems heap_simps \<open>fields of the heap after an update\<close>

subsection \<open>Fields after an update\<close>

lemma upd_block_fields [heap_simps, simp]:
  "hdr (upd_block p f h) = (hdr h)(p := f (hdr h p))"
  "alloc (upd_block p f h) = alloc h" "galloc (upd_block p f h) = galloc h"
  "hw (upd_block p f h) = hw h" "printed (upd_block p f h) = printed h"
  by (simp_all add: upd_block_def)

lemma upd_head_fields [heap_simps, simp]:
  "hdr (upd_head i p h) = hdr h" "alloc (upd_head i p h) = set_head i p (alloc h)"
  "galloc (upd_head i p h) = galloc h" "hw (upd_head i p h) = hw h"
  "printed (upd_head i p h) = printed h"
  by (simp_all add: upd_head_def)

lemma set_head_fields [heap_simps, simp]:
  "i < 32 \<Longrightarrow> heap_start (set_head i p a) = heap_start a"
  "heap_size (set_head i p a) = heap_size a"
  "length (free_lists (set_head i p a)) = length (free_lists a)"
  by (simp_all add: set_head_def)

lemma get_head_set_head [heap_simps, simp]:
  "length (free_lists a) = 32 \<Longrightarrow> 0 \<le> i \<Longrightarrow> i < 32 \<Longrightarrow> 0 \<le> k \<Longrightarrow> k < 32 \<Longrightarrow>
   get_head (set_head i p a) k = (if k = i then p else get_head a k)"
  by (auto simp: get_head_def set_head_def nth_list_update eq_nat_nat_iff)

subsection \<open>Sizes and orders\<close>

definition bsz :: "int \<Rightarrow> nat" where
  "bsz k = 64 * 2 ^ nat k"

lemma bsz_pos [simp]: "0 < bsz k"
  by (simp add: bsz_def)

lemma bsz_ge: "64 \<le> bsz k"
  by (simp add: bsz_def)

lemma bsz_Suc: "0 \<le> k \<Longrightarrow> bsz (k + 1) = 2 * bsz k"
  by (simp add: bsz_def nat_add_distrib)

lemma bsz_mono: "j \<le> k \<Longrightarrow> bsz j \<le> bsz k"
  by (simp add: bsz_def nat_mono power_increasing)

lemma bsz_small: "k \<le> 32 \<Longrightarrow> bsz k \<le> 2 ^ 38"
  using bsz_mono [of k 32] by (simp add: bsz_def)

lemma unat_order_bytes:
  assumes "k \<le> 32"
  shows "unat (order_bytes k) = bsz k"
proof -
  have "order_bytes k = of_nat (bsz k)"
    by (simp add: order_bytes_def bsz_def push_bit_eq_mult)
  then show ?thesis
    using bsz_small [OF assms] by (simp add: unat_of_nat_small)
qed

lemma order_bytes_nonzero: "k \<le> 32 \<Longrightarrow> order_bytes k \<noteq> 0"
  using unat_order_bytes [of k] bsz_pos [of k] by (metis less_irrefl unat_0)

text \<open>\<open>get_order\<close> is the least order whose blocks hold the request, capped at 32.\<close>

lemma get_order_loop_spec:
  "0 \<le> k \<Longrightarrow> k \<le> 32 \<Longrightarrow> (\<forall>j. 0 \<le> j \<and> j < k \<longrightarrow> bsz j < unat sz) \<Longrightarrow>
   let r = get_order_loop sz k (order_bytes k)
   in 0 \<le> r \<and> r \<le> 32 \<and> (\<forall>j. 0 \<le> j \<and> j < r \<longrightarrow> bsz j < unat sz) \<and> (r < 32 \<longrightarrow> unat sz \<le> bsz r)"
proof (induction "nat (32 - k)" arbitrary: k)
  case 0
  then have "k = 32" by simp
  with 0 show ?case by (simp add: get_order_loop.simps [of sz 32])
next
  case (Suc n)
  then have k: "k < 32" by simp
  have dbl: "order_bytes k * 2 = order_bytes (k + 1)"
    using Suc.prems by (simp add: order_bytes_def nat_add_distrib push_bit_eq_mult algebra_simps)
  show ?case
  proof (cases "order_bytes k < sz")
    case True
    then have "bsz k < unat sz"
      using k by (simp add: word_less_nat_alt unat_order_bytes)
    then have "\<forall>j. 0 \<le> j \<and> j < k + 1 \<longrightarrow> bsz j < unat sz"
      using Suc.prems(3) by (metis less_le zless_add1_eq)
    with Suc k True show ?thesis
      by (simp add: get_order_loop.simps [of sz k] dbl)
  next
    case False
    then have "unat sz \<le> bsz k"
      using k by (simp add: word_less_nat_alt unat_order_bytes not_less)
    with Suc.prems k False show ?thesis
      by (simp add: get_order_loop.simps [of sz k])
  qed
qed

lemma get_order_spec:
  "0 \<le> get_order sz \<and> get_order sz \<le> 32 \<and>
   (\<forall>j. 0 \<le> j \<and> j < get_order sz \<longrightarrow> bsz j < unat sz) \<and>
   (get_order sz < 32 \<longrightarrow> unat sz \<le> bsz (get_order sz))"
  using get_order_loop_spec [of 0 sz] by (simp add: get_order_def Let_def order_bytes_def)

lemma get_order_le: "0 \<le> k \<Longrightarrow> unat sz \<le> bsz k \<Longrightarrow> get_order sz \<le> k"
  using get_order_spec [of sz] by (meson linorder_not_less)

lemma get_order_bsz: "0 \<le> k \<Longrightarrow> k < 32 \<Longrightarrow> unat sz = bsz k \<Longrightarrow> get_order sz = k"
  using get_order_spec [of sz] bsz_mono [of "get_order sz" k] bsz_mono [of k "get_order sz"]
  by (metis bsz_Suc bsz_mono bsz_pos add.commute less_add_same_cancel2 linorder_neqE_linordered_idom
      linorder_not_less mult_2 order_less_le_trans zless_imp_add1_zle order.order_iff_strict)

subsection \<open>Free lists\<close>

primrec chain :: "(u64 \<Rightarrow> block) \<Rightarrow> u64 \<Rightarrow> u64 list \<Rightarrow> bool" where
  "chain s p [] \<longleftrightarrow> p = 0"
| "chain s p (b # bs) \<longleftrightarrow> p = b \<and> b \<noteq> 0 \<and> chain s (next_free (s b)) bs"

lemma chain_upd [simp]: "b \<notin> set xs \<Longrightarrow> chain (s(b := v)) p xs = chain s p xs"
  by (induction xs arbitrary: p) auto

lemma chain_upd_if [simp]:
  "chain (\<lambda>a. if a = b then v else s a) p xs = chain (s(b := v)) p xs"
  by (simp only: fun_upd_def)

lemma chain_upd_same: "next_free v = next_free (s b) \<Longrightarrow> chain (s(b := v)) p xs = chain s p xs"
  by (induction xs arbitrary: p) auto

lemma chain_unique: "chain s p xs \<Longrightarrow> chain s p ys \<Longrightarrow> xs = ys"
proof (induction xs arbitrary: p ys)
  case Nil
  then show ?case by (cases ys) auto
next
  case (Cons x xs)
  then show ?case by (cases ys) auto
qed

lemma chain_append: "chain s p (xs @ ys) \<Longrightarrow> \<exists>q. chain s q ys"
  by (induction xs arbitrary: p) auto

lemma chain_suffix: "chain s p (xs @ y # ys) \<Longrightarrow> chain s y (y # ys)"
  by (induction xs arbitrary: p) auto

lemma chain_distinct: "chain s p xs \<Longrightarrow> distinct xs"
proof (induction xs arbitrary: p)
  case (Cons x xs)
  have "x \<notin> set xs"
  proof
    assume "x \<in> set xs"
    then obtain us vs where xs: "xs = us @ x # vs" by (meson split_list)
    then have "chain s x (x # vs)" using Cons.prems chain_suffix [of s p "x # us" x vs] by simp
    with Cons.prems have "x # xs = x # vs" by (metis chain_unique chain.simps(2))
    with xs show False by simp
  qed
  with Cons show ?case by auto
qed simp

subsection \<open>The invariant\<close>

definition blocks_ok :: "'k heap \<Rightarrow> u64 set \<Rightarrow> bool" where
  "blocks_ok h B \<longleftrightarrow>
     heap_start (alloc h) \<noteq> 0 \<and>
     unat (heap_start (alloc h)) + unat (heap_size (alloc h)) < 2 ^ 64 \<and>
     (\<forall>b \<in> B. 0 \<le> blk_order (hdr h b) \<and> blk_order (hdr h b) < 32 \<and>
        unat (heap_start (alloc h)) \<le> unat b \<and>
        unat b + bsz (blk_order (hdr h b)) \<le> unat (heap_start (alloc h)) + unat (heap_size (alloc h))) \<and>
     (\<forall>b \<in> B. \<forall>c \<in> B. b \<noteq> c \<longrightarrow>
        unat b + bsz (blk_order (hdr h b)) \<le> unat c \<or> unat c + bsz (blk_order (hdr h c)) \<le> unat b) \<and>
     (\<forall>b \<in> B. unat b + bsz (blk_order (hdr h b)) = unat (heap_start (alloc h)) + unat (heap_size (alloc h)) \<or>
        (\<exists>c \<in> B. unat c = unat b + bsz (blk_order (hdr h b))))"

definition lists_ok :: "'k heap \<Rightarrow> u64 set \<Rightarrow> (int \<Rightarrow> u64 list) \<Rightarrow> u64 set \<Rightarrow> bool" where
  "lists_ok h B L X \<longleftrightarrow>
     length (free_lists (alloc h)) = 32 \<and>
     (\<forall>k. 0 \<le> k \<and> k < 32 \<longrightarrow> chain (hdr h) (get_head (alloc h) k) (L k) \<and>
        (\<forall>b. b \<in> set (L k) \<longleftrightarrow> b \<in> B - X \<and> blk_order (hdr h b) = k \<and> is_free (hdr h b) \<noteq> 0))"

definition heap_ok :: "'k heap \<Rightarrow> u64 set \<Rightarrow> (int \<Rightarrow> u64 list) \<Rightarrow> u64 set \<Rightarrow> bool" where
  "heap_ok h B L X \<longleftrightarrow> blocks_ok h B \<and> lists_ok h B L X \<and> X \<subseteq> B"

lemma blocks_okD:
  assumes "blocks_ok h B" "b \<in> B"
  shows "b \<noteq> 0" "0 \<le> blk_order (hdr h b)" "blk_order (hdr h b) < 32"
    "unat (heap_start (alloc h)) \<le> unat b"
    "unat b + bsz (blk_order (hdr h b)) \<le> unat (heap_start (alloc h)) + unat (heap_size (alloc h))"
    "unat b + bsz (blk_order (hdr h b)) < 2 ^ 64"
proof -
  have "0 < unat (heap_start (alloc h))" using assms(1) by (simp add: blocks_ok_def unat_gt_0)
  with assms show "b \<noteq> 0" by (auto simp: blocks_ok_def)
qed (use assms in \<open>auto simp: blocks_ok_def\<close>)

lemma blocks_ok_cong:
  "blocks_ok h B \<Longrightarrow> heap_start (alloc h') = heap_start (alloc h) \<Longrightarrow>
   heap_size (alloc h') = heap_size (alloc h) \<Longrightarrow>
   (\<And>b. b \<in> B \<Longrightarrow> blk_order (hdr h' b) = blk_order (hdr h b)) \<Longrightarrow> blocks_ok h' B"
  by (simp add: blocks_ok_def)

lemma heap_okD:
  assumes "heap_ok h B L X"
  shows "blocks_ok h B" "X \<subseteq> B" "length (free_lists (alloc h)) = 32"
    "\<And>k. 0 \<le> k \<Longrightarrow> k < 32 \<Longrightarrow> chain (hdr h) (get_head (alloc h) k) (L k)"
    "\<And>k b. 0 \<le> k \<Longrightarrow> k < 32 \<Longrightarrow>
       b \<in> set (L k) \<longleftrightarrow> b \<in> B - X \<and> blk_order (hdr h b) = k \<and> is_free (hdr h b) \<noteq> 0"
  using assms by (simp_all add: heap_ok_def lists_ok_def)

lemma heap_okI:
  assumes "blocks_ok h B" "X \<subseteq> B" "length (free_lists (alloc h)) = 32"
    "\<And>k. 0 \<le> k \<Longrightarrow> k < 32 \<Longrightarrow> chain (hdr h) (get_head (alloc h) k) (L k)"
    "\<And>k b. 0 \<le> k \<Longrightarrow> k < 32 \<Longrightarrow>
       b \<in> set (L k) \<longleftrightarrow> b \<in> B - X \<and> blk_order (hdr h b) = k \<and> is_free (hdr h b) \<noteq> 0"
  shows "heap_ok h B L X"
  using assms by (simp add: heap_ok_def lists_ok_def)

text \<open>A held block is on no list, so its fields other than the order are free to change.\<close>

lemma held_notin:
  "heap_ok h B L X \<Longrightarrow> b \<in> X \<Longrightarrow> 0 \<le> k \<Longrightarrow> k < 32 \<Longrightarrow> b \<notin> set (L k)"
  using heap_okD(5) by blast

text \<open>Taking the head off a list.\<close>

lemma pop_ok:
  assumes ok: "heap_ok h B L X" and k: "0 \<le> k" "k < 32" and b: "get_head (alloc h) k = b" "b \<noteq> 0"
  shows "heap_ok (upd_head k (next_free (hdr h b)) h) B (L(k := tl (L k))) (insert b X)
    \<and> b \<in> B - X \<and> blk_order (hdr h b) = k \<and> is_free (hdr h b) \<noteq> 0"
proof -
  have chk: "chain (hdr h) b (L k)" using heap_okD(4) [OF ok k] b by simp
  obtain bs where L: "L k = b # bs" using chk b(2) by (cases "L k") auto
  have nb: "b \<notin> set bs" using chain_distinct [OF chk] L by simp
  have inB: "b \<in> B - X \<and> blk_order (hdr h b) = k \<and> is_free (hdr h b) \<noteq> 0"
    using heap_okD(5) [OF ok k, of b] L by simp
  have chbs: "chain (hdr h) (next_free (hdr h b)) bs" using chk L by simp
  have "heap_ok (upd_head k (next_free (hdr h b)) h) B (L(k := tl (L k))) (insert b X)"
  proof (rule heap_okI)
    show "blocks_ok (upd_head k (next_free (hdr h b)) h) B"
      using heap_okD(1) [OF ok] by (rule blocks_ok_cong) (use k in simp_all)
    show "insert b X \<subseteq> B" using inB heap_okD(2) [OF ok] by simp
    show "length (free_lists (alloc (upd_head k (next_free (hdr h b)) h))) = 32"
      using heap_okD(3) [OF ok] by simp
  next
    fix j :: int assume j: "0 \<le> j" "j < 32"
    show "chain (hdr (upd_head k (next_free (hdr h b)) h))
        (get_head (alloc (upd_head k (next_free (hdr h b)) h)) j) ((L(k := tl (L k))) j)"
      using heap_okD(3) [OF ok] heap_okD(4) [OF ok j] j k chbs L by (simp split: if_splits)
    fix x
    show "x \<in> set ((L(k := tl (L k))) j) \<longleftrightarrow> x \<in> B - insert b X \<and>
        blk_order (hdr (upd_head k (next_free (hdr h b)) h) x) = j \<and>
        is_free (hdr (upd_head k (next_free (hdr h b)) h) x) \<noteq> 0"
      using heap_okD(5) [OF ok j, of x] L nb inB by auto
  qed
  with inB show ?thesis by blast
qed

text \<open>Putting a held block, marked free, on the list of its order.\<close>

lemma push_ok:
  assumes ok: "heap_ok h B L X" and b: "b \<in> X" "is_free (hdr h b) \<noteq> 0" and k: "blk_order (hdr h b) = k"
  shows "heap_ok (push_block b h) B (L(k := b # L k)) (X - {b})"
proof -
  let ?h = "push_block b h"
  have B: "blocks_ok h B" "b \<in> B" using ok b(1) by (auto simp: heap_ok_def)
  note bb = blocks_okD [OF B, unfolded k]
  have h: "hdr ?h = (hdr h)(b := (hdr h b)\<lparr>next_free := get_head (alloc h) k\<rparr>)"
    "alloc ?h = set_head k b (alloc h)"
    by (simp_all add: push_block_def Let_def k)
  show ?thesis
  proof (rule heap_okI)
    show "blocks_ok ?h B" using B(1) by (rule blocks_ok_cong) (use bb(3) in \<open>simp_all add: h\<close>)
    show "X - {b} \<subseteq> B" using heap_okD(2) [OF ok] by blast
    show "length (free_lists (alloc ?h)) = 32" using heap_okD(3) [OF ok] by (simp add: h)
  next
    fix j :: int assume j: "0 \<le> j" "j < 32"
    note nb = held_notin [OF ok b(1) j]
    show "chain (hdr ?h) (get_head (alloc ?h) j) ((L(k := b # L k)) j)"
      using heap_okD(3) [OF ok] heap_okD(4) [OF ok j] nb j bb(1-3) by (cases "j = k") (simp_all add: h)
    fix x
    show "x \<in> set ((L(k := b # L k)) j) \<longleftrightarrow> x \<in> B - (X - {b}) \<and>
        blk_order (hdr ?h x) = j \<and> is_free (hdr ?h x) \<noteq> 0"
      using heap_okD(5) [OF ok j, of x] b B(2) k nb by (cases "x = b") (auto simp: h)
  qed
qed

end
