(* ===== verification/Malloc_Ops.thy ===== *)
theory Malloc_Ops
  imports Malloc_Inv
begin

text \<open>
  The allocator's operations against the heap invariant: splitting carves a held block without
  losing a byte of the pool, an allocation returns a block that is large enough and disjoint
  from every block in use, merging with the free right neighbour gives both back as one block.
\<close>

subsection \<open>What an operation leaves alone\<close>

definition same_pool :: "'k heap \<Rightarrow> 'k heap \<Rightarrow> bool" where
  "same_pool h h' \<longleftrightarrow> heap_start (alloc h') = heap_start (alloc h) \<and>
     heap_size (alloc h') = heap_size (alloc h) \<and> galloc h' = galloc h \<and> hw h' = hw h \<and>
     printed h' = printed h"

lemma same_pool_refl [simp]: "same_pool h h"
  by (simp add: same_pool_def)

lemma same_pool_trans: "same_pool h h' \<Longrightarrow> same_pool h' h'' \<Longrightarrow> same_pool h h''"
  by (simp add: same_pool_def)

lemma same_pool_upd_block [simp]: "same_pool h (upd_block p f h)"
  by (simp add: same_pool_def)

lemma same_pool_upd_head [simp]: "k < 32 \<Longrightarrow> same_pool h (upd_head k p h)"
  by (simp add: same_pool_def)

lemma same_pool_push_block: "blk_order (hdr h b) < 32 \<Longrightarrow> same_pool h (push_block b h)"
  by (simp add: same_pool_def push_block_def Let_def)

definition bytes_total :: "'k heap \<Rightarrow> u64 set \<Rightarrow> nat" where
  "bytes_total h B = (\<Sum>b\<in>B. bsz (blk_order (hdr h b)))"

lemma finite_addrs [simp]: "finite (B :: u64 set)"
  by (rule finite_subset [OF subset_UNIV finite])

lemma bytes_total_cong:
  "(\<And>b. b \<in> B \<Longrightarrow> blk_order (hdr h' b) = blk_order (hdr h b)) \<Longrightarrow>
   bytes_total h' B = bytes_total h B"
  by (simp add: bytes_total_def)

text \<open>The extent of a block as numbers: adding its size to its address does not wrap.\<close>

lemma unat_block_end:
  assumes "blocks_ok h B" "b \<in> B" "j \<le> blk_order (hdr h b)"
  shows "unat (b + order_bytes j) = unat b + bsz j"
proof -
  have "unat (order_bytes j) = bsz j"
    using blocks_okD(3) [OF assms(1,2)] assms(3) by (intro unat_order_bytes) simp
  moreover have "unat b + bsz j < 2 ^ 64"
    using blocks_okD(6) [OF assms(1,2)] bsz_mono [OF assms(3)] by simp
  ultimately show ?thesis by (simp add: unat_word_ariths)
qed

lemma blocks_ok_apart:
  "blocks_ok h B \<Longrightarrow> b \<in> B \<Longrightarrow> c \<in> B \<Longrightarrow> b \<noteq> c \<Longrightarrow>
   unat b + bsz (blk_order (hdr h b)) \<le> unat c \<or> unat c + bsz (blk_order (hdr h c)) \<le> unat b"
  unfolding blocks_ok_def by blast

lemma blocks_ok_next:
  "blocks_ok h B \<Longrightarrow> b \<in> B \<Longrightarrow>
   unat b + bsz (blk_order (hdr h b)) = unat (heap_start (alloc h)) + unat (heap_size (alloc h)) \<or>
   (\<exists>c \<in> B. unat c = unat b + bsz (blk_order (hdr h b)))"
  unfolding blocks_ok_def by blast

subsection \<open>Splitting\<close>

text \<open>One round of the loop, up to the insertion of the buddy in its list.\<close>

lemma carve_geometry:
  assumes B: "blocks_ok h B" "b \<in> B" and k: "blk_order (hdr h b) = k + 1" "0 \<le> k" and bud: "bud = b + order_bytes k"
  shows "unat bud = unat b + bsz k" "bud \<notin> B"
    "\<And>c. c \<in> B \<Longrightarrow> c \<noteq> b \<Longrightarrow> unat bud + bsz k \<le> unat c \<or> unat c + bsz (blk_order (hdr h c)) \<le> unat b"
proof -
  show ub: "unat bud = unat b + bsz k"
    unfolding bud by (rule unat_block_end [OF B]) (simp add: k)
  show other: "unat bud + bsz k \<le> unat c \<or> unat c + bsz (blk_order (hdr h c)) \<le> unat b"
    if "c \<in> B" "c \<noteq> b" for c
    using blocks_ok_apart [OF B that(1)] that(2) k(2) by (auto simp: k(1) bsz_Suc ub)
  have pos: "0 < bsz k" by simp
  show "bud \<notin> B"
  proof
    assume "bud \<in> B"
    moreover have "bud \<noteq> b" using ub pos by (metis less_add_same_cancel1 less_irrefl)
    moreover have "0 < bsz (blk_order (hdr h bud))" by simp
    ultimately show False using other [of bud] ub pos by linarith
  qed
qed

lemma carve_blocks:
  assumes B: "blocks_ok h B" "b \<in> B" and k: "blk_order (hdr h b) = k + 1" "0 \<le> k" and bud: "bud = b + order_bytes k"
    and ord: "\<And>c. blk_order (hdr h' c) = (if c = b \<or> c = bud then k else blk_order (hdr h c))" and al: "alloc h' = alloc h"
  shows "blocks_ok h' (insert bud B)"
proof -
  note bb = blocks_okD [OF B, unfolded k(1)] and geo = carve_geometry [OF B k bud]
  have dbl: "bsz (k + 1) = 2 * bsz k" using k(2) by (rule bsz_Suc)
  show ?thesis
    unfolding blocks_ok_def ord al
  proof (intro conjI ballI impI)
    show "heap_start (alloc h) \<noteq> 0" "unat (heap_start (alloc h)) + unat (heap_size (alloc h)) < 2 ^ 64"
      using B(1) by (simp_all add: blocks_ok_def)
  next
    fix c assume c: "c \<in> insert bud B"
    let ?o = "if c = b \<or> c = bud then k else blk_order (hdr h c)"
    show "0 \<le> ?o" "?o < 32" "unat (heap_start (alloc h)) \<le> unat c"
      "unat c + bsz ?o \<le> unat (heap_start (alloc h)) + unat (heap_size (alloc h))"
      using c k(2) bb(3-5) blocks_okD(2-5) [OF B(1)] by (auto simp: geo(1) dbl)
    show "unat c + bsz ?o = unat (heap_start (alloc h)) + unat (heap_size (alloc h)) \<or>
        (\<exists>d\<in>insert bud B. unat d = unat c + bsz ?o)"
      using c blocks_ok_next [OF B(1), of c] blocks_ok_next [OF B]
      by (cases "c = b") (auto simp: geo(1) dbl k(1) add.assoc mult_2)
  next
    fix c d assume cd: "c \<in> insert bud B" "d \<in> insert bud B" "c \<noteq> d"
    show "unat c + bsz (if c = b \<or> c = bud then k else blk_order (hdr h c)) \<le> unat d \<or>
      unat d + bsz (if d = b \<or> d = bud then k else blk_order (hdr h d)) \<le> unat c"
    proof (cases "(c = b \<or> c = bud) \<or> (d = b \<or> d = bud)")
      case False
      then show ?thesis using blocks_ok_apart [OF B(1), of c d] cd by simp
    next
      case True
      moreover have "bud \<noteq> b" using geo(2) B(2) by blast
      ultimately show ?thesis using geo(3) [of c] geo(3) [of d] geo(1) cd by (elim disjE) auto
    qed
  qed
qed

lemma carve_total:
  assumes "blocks_ok h B" "b \<in> B" and "blk_order (hdr h b) = k + 1" "0 \<le> k" and "bud \<notin> B"
    and ord: "\<And>c. blk_order (hdr h' c) = (if c = b \<or> c = bud then k else blk_order (hdr h c))"
  shows "bytes_total h' (insert bud B) = bytes_total h B"
proof -
  have "bytes_total h' (insert bud B) = bsz k + (bsz k + (\<Sum>c\<in>B - {b}. bsz (blk_order (hdr h' c))))"
    using assms(2,5) by (simp add: bytes_total_def sum.remove [of B b] ord)
  also have "(\<Sum>c\<in>B - {b}. bsz (blk_order (hdr h' c))) = (\<Sum>c\<in>B - {b}. bsz (blk_order (hdr h c)))"
    using assms(5) by (intro sum.cong) (auto simp: ord)
  also have "bsz k + (bsz k + (\<Sum>c\<in>B - {b}. bsz (blk_order (hdr h c)))) = bytes_total h B"
    using assms(2-4) by (simp add: bytes_total_def sum.remove [of B b] bsz_Suc)
  finally show ?thesis .
qed

lemma carve_ok:
  fixes h :: "'k heap"
  assumes ok: "heap_ok h B L X" and b: "b \<in> X" and k: "blk_order (hdr h b) = k + 1" "0 \<le> k"
    and v: "blk_order v = k" and f: "blk_order (f (hdr h b)) = k"
    and bud: "bud = b + order_bytes k"
    and h': "h' = upd_block bud (\<lambda>_. v) (upd_block b f h)"
  shows "heap_ok h' (insert bud B) L (insert bud X) \<and> bud \<notin> B
    \<and> bytes_total h' (insert bud B) = bytes_total h B \<and> unat bud = unat b + bsz k"
proof -
  have B: "blocks_ok h B" "b \<in> B" using ok b by (auto simp: heap_ok_def)
  note geo = carve_geometry [OF B k bud]
  have hb: "hdr h' = (hdr h)(b := f (hdr h b), bud := v)" "alloc h' = alloc h"
    using geo(2) B(2) by (simp_all add: h')
  have ord: "blk_order (hdr h' c) = (if c = b \<or> c = bud then k else blk_order (hdr h c))" for c
    using v f by (auto simp: hb)
  have notin: "b \<notin> set (L j)" "bud \<notin> set (L j)" if "0 \<le> j" "j < 32" for j
    using held_notin [OF ok b that] heap_okD(5) [OF ok that, of bud] geo(2) by auto
  have "heap_ok h' (insert bud B) L (insert bud X)"
  proof (rule heap_okI [OF carve_blocks [OF B k bud ord hb(2)]])
    show "insert bud X \<subseteq> insert bud B" using heap_okD(2) [OF ok] by blast
    show "length (free_lists (alloc h')) = 32" using heap_okD(3) [OF ok] by (simp add: hb)
    fix j :: int assume j: "0 \<le> j" "j < 32"
    show "chain (hdr h') (get_head (alloc h') j) (L j)"
      using heap_okD(4) [OF ok j] notin [OF j] by (simp add: hb)
    show "x \<in> set (L j) \<longleftrightarrow> x \<in> insert bud B - insert bud X \<and> blk_order (hdr h' x) = j \<and> is_free (hdr h' x) \<noteq> 0" for x
      using heap_okD(5) [OF ok j, of x] notin [OF j] b by (auto simp: hb)
  qed
  then show ?thesis using carve_total [OF B k geo(2) ord] geo(1,2) by blast
qed

text \<open>
  What \<open>split_block\<close> promises: the block reaches the target order, the pieces cut off are new
  free blocks, and nothing but the block's own header changes among the old blocks.
\<close>

definition split_result :: "u64 \<Rightarrow> int \<Rightarrow> u64 set \<Rightarrow> u64 set \<Rightarrow> 'k heap \<Rightarrow> 'k heap \<Rightarrow> u64 set \<Rightarrow>
    (int \<Rightarrow> u64 list) \<Rightarrow> bool" where
  "split_result b t B X h h' B' L' \<longleftrightarrow>
     heap_ok h' B' L' X \<and> B \<subseteq> B' \<and> blk_order (hdr h' b) = t \<and> same_pool h h' \<and>
     (\<forall>c \<in> B - {b}. hdr h' c = hdr h c) \<and> (\<forall>c \<in> B' - B. is_free (hdr h' c) \<noteq> 0) \<and>
     bytes_total h' B' = bytes_total h B"

text \<open>Both halves of a block lie inside the pool, so the test in the loop never stops it.\<close>

lemma split_guard:
  assumes B: "blocks_ok h B" "b \<in> B" and k: "blk_order (hdr h b) = k + 1" "0 \<le> k"
  shows "\<not> b + order_bytes k + order_bytes k > heap_start (alloc h) + heap_size (alloc h)"
proof -
  have "order_bytes k + order_bytes k = order_bytes (k + 1)"
    using k(2) by (simp add: order_bytes_def nat_add_distrib push_bit_eq_mult algebra_simps)
  then have "unat (b + order_bytes k + order_bytes k) = unat b + bsz (k + 1)"
    using unat_block_end [OF B, of "k + 1"] k by (simp add: add.assoc)
  moreover have "unat (heap_start (alloc h) + heap_size (alloc h))
      = unat (heap_start (alloc h)) + unat (heap_size (alloc h))"
    using B(1) by (simp add: blocks_ok_def unat_word_ariths)
  ultimately show ?thesis
    using blocks_okD(5) [OF B] k(1) by (simp add: word_less_nat_alt)
qed

lemma split_step:
  assumes ok: "heap_ok h B L X" and b: "b \<in> X" and k: "blk_order (hdr h b) = k + 1" "0 \<le> k"
  obtains h' L' where
    "\<And>t. t \<le> k \<Longrightarrow> split_block b t h = split_block b t h'"
    "split_result b k B X h h' (insert (b + order_bytes k) B) L'"
    "L' = L(k := (b + order_bytes k) # L k)"
    "hdr h' (b + order_bytes k) = \<lparr>blk_size = order_bytes k - block_hdr_size, blk_order = k,
       is_free = 1, next_free = get_head (alloc h) k, buddy = b\<rparr>"
    "hdr h' b = (hdr h b)\<lparr>blk_size := order_bytes k - block_hdr_size, blk_order := k,
       buddy := b + order_bytes k\<rparr>"
proof -
  let ?bud = "b + order_bytes k"
  let ?v = "\<lparr>blk_size = order_bytes k - block_hdr_size, blk_order = k, is_free = 1,
              next_free = get_head (alloc h) k, buddy = b\<rparr>"
  let ?f = "\<lambda>x. x\<lparr>blk_size := order_bytes k - block_hdr_size, blk_order := k, buddy := ?bud\<rparr>"
  let ?h2 = "upd_block ?bud (\<lambda>_. ?v) (upd_block b ?f h)"
  let ?h3 = "upd_head k ?bud ?h2"
  have B: "blocks_ok h B" "b \<in> B" using ok b by (auto simp: heap_ok_def)
  have k32: "k < 32" using blocks_okD(3) [OF B] k by simp
  note c = carve_ok [OF ok b k, of ?v ?f ?bud ?h2, simplified]
  have neq: "?bud \<noteq> b" using c B(2) by auto
  have hb: "hdr ?h2 ?bud = ?v" by simp
  have p: "push_block ?bud ?h2 = ?h3"
  proof -
    have "upd_block ?bud (\<lambda>x. x\<lparr>next_free := get_head (alloc h) k\<rparr>) ?h2 = ?h2"
      by (simp add: upd_block_def)
    then show ?thesis by (simp add: push_block_def Let_def)
  qed
  have ok3: "heap_ok ?h3 (insert ?bud B) (L(k := ?bud # L k)) X"
  proof -
    have "?bud \<notin> X" using c heap_okD(2) [OF ok] by blast
    then have X: "insert ?bud X - {?bud} = X" by (rule Diff_insert_absorb)
    have "heap_ok ?h2 (insert ?bud B) L (insert ?bud X)" using c by blast
    from push_ok [OF this insertI1, of k] show ?thesis unfolding p X by simp
  qed
  note guard = split_guard [OF B k]
  have res: "split_result b k B X h ?h3 (insert ?bud B) (L(k := ?bud # L k))"
  proof -
    have "bytes_total ?h3 (insert ?bud B) = bytes_total ?h2 (insert ?bud B)"
      by (simp add: bytes_total_def)
    moreover have "same_pool h ?h3" using k32 by (simp add: same_pool_def)
    ultimately show ?thesis
      using ok3 c neq by (auto simp: split_result_def)
  qed
  have step: "split_block b t h = split_block b t ?h3" if "t \<le> k" for t
    using that k guard by (subst split_block.simps) (simp add: Let_def)
  show ?thesis
    by (rule that [OF step res refl]) (use neq in simp_all)
qed

lemma split_block_done [simp]: "blk_order (hdr h b) \<le> t \<Longrightarrow> split_block b t h = Some h"
  by (simp add: split_block.simps [of b t h])

lemma split_resultD:
  assumes "split_result b t B X h h' B' L'"
  shows "heap_ok h' B' L' X" "B \<subseteq> B'" "blk_order (hdr h' b) = t" "same_pool h h'"
    "\<And>c. c \<in> B \<Longrightarrow> c \<noteq> b \<Longrightarrow> hdr h' c = hdr h c"
    "\<And>c. c \<in> B' \<Longrightarrow> c \<notin> B \<Longrightarrow> is_free (hdr h' c) \<noteq> 0"
    "bytes_total h' B' = bytes_total h B"
  using assms unfolding split_result_def by simp_all

lemma split_result_trans:
  assumes "split_result b k B X h h1 B1 L1" and "split_result b t B1 X h1 h2 B2 L2" and "b \<in> B"
  shows "split_result b t B X h h2 B2 L2"
proof -
  have keep: "hdr h2 c = hdr h c" if "c \<in> B - {b}" for c
  proof -
    have "c \<in> B" "c \<noteq> b" using that by auto
    moreover from this have "c \<in> B1" using split_resultD(2) [OF assms(1)] by blast
    ultimately show ?thesis
      using split_resultD(5) [OF assms(1)] split_resultD(5) [OF assms(2)] by simp
  qed
  have new: "is_free (hdr h2 c) \<noteq> 0" if "c \<in> B2 - B" for c
  proof (cases "c \<in> B1")
    case True
    then have "hdr h2 c = hdr h1 c" using that assms(3) split_resultD(5) [OF assms(2), of c] by auto
    then show ?thesis using True that split_resultD(6) [OF assms(1), of c] by simp
  next
    case False
    then show ?thesis using that split_resultD(6) [OF assms(2), of c] by simp
  qed
  note r1 = split_resultD(2,4,7) [OF assms(1)] and r2 = split_resultD(1,2,3,4,7) [OF assms(2)]
  show ?thesis
    unfolding split_result_def
  proof (intro conjI)
    show "\<forall>c\<in>B - {b}. hdr h2 c = hdr h c" using keep by blast
    show "\<forall>c\<in>B2 - B. is_free (hdr h2 c) \<noteq> 0" using new by blast
    show "bytes_total h2 B2 = bytes_total h B" using r2(5) r1(3) by (rule trans)
  qed (fact r2(1) r2(3) subset_trans [OF r1(1) r2(2)] same_pool_trans [OF r1(2) r2(4)])+
qed

lemma split_block_ok:
  assumes "heap_ok h B L X" and "b \<in> X" and "0 \<le> t" and "t \<le> blk_order (hdr h b)"
  shows "\<exists>h' B' L'. split_block b t h = Some h' \<and> split_result b t B X h h' B' L'"
  using assms
proof (induction "nat (blk_order (hdr h b) - t)" arbitrary: h B L)
  case 0
  then have "t = blk_order (hdr h b)" by simp
  moreover from this have "split_block b t h = Some h" by (subst split_block.simps) simp
  ultimately show ?case using 0 by (auto simp: split_result_def)
next
  case (Suc n)
  define k where "k = blk_order (hdr h b) - 1"
  have k: "blk_order (hdr h b) = k + 1" "0 \<le> k" "t \<le> k" using Suc by (auto simp: k_def)
  obtain h1 L1 where step: "\<And>t. t \<le> k \<Longrightarrow> split_block b t h = split_block b t h1"
    and r1: "split_result b k B X h h1 (insert (b + order_bytes k) B) L1"
    using split_step [OF Suc.prems(1,2) k(1,2)] by metis
  have ord: "blk_order (hdr h1 b) = k" using r1 by (simp add: split_result_def)
  obtain h2 B2 L2 where r2: "split_block b t h1 = Some h2"
      "split_result b t (insert (b + order_bytes k) B) X h1 h2 B2 L2"
  proof -
    have "heap_ok h1 (insert (b + order_bytes k) B) L1 X"
      using r1 unfolding split_result_def by blast
    moreover have "n = nat (blk_order (hdr h1 b) - t)" using Suc.hyps(2) k ord by simp
    ultimately show ?thesis
      using Suc.hyps(1) [of h1] Suc.prems(2,3) k(3) ord that by blast
  qed
  have "b \<in> B" using Suc.prems by (auto simp: heap_ok_def)
  with r1 r2 show ?case
    using split_result_trans [OF r1 r2(2)] step [OF k(3)] by auto
qed

subsection \<open>Allocation from the pool\<close>

text \<open>Marking a held block as in use.\<close>

lemma use_ok:
  assumes ok: "heap_ok h B L X" and b: "b \<in> X"
    and f: "is_free (f (hdr h b)) = 0" "blk_order (f (hdr h b)) = blk_order (hdr h b)"
  shows "heap_ok (upd_block b f h) B L (X - {b})"
proof (rule heap_okI)
  show "blocks_ok (upd_block b f h) B"
    using heap_okD(1) [OF ok] by (rule blocks_ok_cong) (use f in auto)
  show "X - {b} \<subseteq> B" using heap_okD(2) [OF ok] by blast
  show "length (free_lists (alloc (upd_block b f h))) = 32" using heap_okD(3) [OF ok] by simp
next
  fix j :: int assume j: "0 \<le> j" "j < 32"
  note nb = held_notin [OF ok b j]
  show "chain (hdr (upd_block b f h)) (get_head (alloc (upd_block b f h)) j) (L j)"
    using heap_okD(4) [OF ok j] nb by simp
  fix x
  show "x \<in> set (L j) \<longleftrightarrow> x \<in> B - (X - {b}) \<and> blk_order (hdr (upd_block b f h) x) = j
      \<and> is_free (hdr (upd_block b f h) x) \<noteq> 0"
    using heap_okD(5) [OF ok j, of x] nb f(1) by (cases "x = b") auto
qed

lemma find_order_cong: "alloc h' = alloc h \<Longrightarrow> find_order h' k = find_order h k"
proof (induction h k rule: find_order.induct)
  case (1 h k)
  then show ?case by (simp add: find_order.simps [of h k] find_order.simps [of h' k])
qed

lemma find_order_Some:
  "find_order h k = Some c \<Longrightarrow>
   k \<le> c \<and> c < 32 \<and> get_head (alloc h) c \<noteq> 0 \<and> (\<forall>j. k \<le> j \<and> j < c \<longrightarrow> get_head (alloc h) j = 0)"
proof (induction h k rule: find_order.induct)
  case (1 h k)
  show ?case
  proof (cases "k < 32 \<and> get_head (alloc h) k = 0")
    case True
    then have "find_order h (k + 1) = Some c" using "1.prems" by (simp add: find_order.simps [of h k])
    with True "1.IH" have IH: "k + 1 \<le> c \<and> c < 32 \<and> get_head (alloc h) c \<noteq> 0
        \<and> (\<forall>j. k + 1 \<le> j \<and> j < c \<longrightarrow> get_head (alloc h) j = 0)" by blast
    have "get_head (alloc h) j = 0" if "k \<le> j" "j < c" for j
      using IH True that by (cases "j = k") auto
    then show ?thesis using IH by auto
  next
    case False
    then have "k < 32" "get_head (alloc h) k \<noteq> 0" "c = k"
      using "1.prems" by (auto simp: find_order.simps [of h k] split: if_splits)
    then show ?thesis by auto
  qed
qed

lemma find_order_None:
  "find_order h k = None \<Longrightarrow> k \<le> j \<Longrightarrow> j < 32 \<Longrightarrow> get_head (alloc h) j = 0"
proof (induction h k rule: find_order.induct)
  case (1 h k)
  have "k < 32" using "1.prems" by simp
  moreover have "get_head (alloc h) k = 0" "find_order h (k + 1) = None"
    using "1.prems" \<open>k < 32\<close> by (auto simp: find_order.simps [of h k] split: if_splits)
  ultimately show ?case using "1.IH" "1.prems"(2,3) by (cases "j = k") auto
qed

text \<open>
  What an allocation promises: the block in front of the answer was free and is now in use, it
  has the requested order, every block in use before is untouched, no byte of the pool is lost.
\<close>

definition alloc_result :: "u64 \<Rightarrow> int \<Rightarrow> u64 set \<Rightarrow> 'k heap \<Rightarrow> 'k heap \<Rightarrow> u64 set \<Rightarrow>
    (int \<Rightarrow> u64 list) \<Rightarrow> bool" where
  "alloc_result b k B h h' B' L' \<longleftrightarrow>
     heap_ok h' B' L' {} \<and> B \<subseteq> B' \<and> b \<in> B \<and> is_free (hdr h b) \<noteq> 0 \<and> is_free (hdr h' b) = 0 \<and>
     blk_order (hdr h' b) = k \<and> same_pool h h' \<and> bytes_total h' B' = bytes_total h B \<and>
     (\<forall>c \<in> B. c \<noteq> b \<longrightarrow> hdr h' c = hdr h c) \<and> (\<forall>c \<in> B' - B. is_free (hdr h' c) \<noteq> 0)"

lemma take_block_ok:
  assumes ok: "heap_ok h B L {}" and k: "0 \<le> k" "k \<le> c" "c < 32" and head: "get_head (alloc h) c \<noteq> 0"
  shows "\<exists>h' B' L'. take_block k c h = Some (get_head (alloc h) c + block_hdr_size, h')
    \<and> alloc_result (get_head (alloc h) c) k B h h' B' L'"
proof -
  define b where "b = get_head (alloc h) c"
  let ?h1 = "upd_head c (next_free (hdr h b)) h"
  have c: "0 \<le> c" using k by simp
  have pop: "heap_ok ?h1 B (L(c := tl (L c))) {b}" "b \<in> B" "blk_order (hdr h b) = c"
      "is_free (hdr h b) \<noteq> 0"
    using pop_ok [OF ok c k(3), of b] head by (simp_all add: b_def)
  obtain h2 B2 L2 where sp: "split_block b k ?h1 = Some h2" "split_result b k B {b} ?h1 h2 B2 L2"
    using split_block_ok [OF pop(1) singletonI k(1)] k(2) pop(3) by auto
  let ?f = "\<lambda>x. x\<lparr>is_free := 0, next_free := 0\<rparr>"
  let ?h3 = "upd_block b ?f h2"
  note D = split_resultD [OF sp(2)]
  have sp': "(if c > k \<and> c < 32 then split_block b k ?h1 else Some ?h1) = Some h2"
    using sp(1) k pop(3) by (cases "c = k") auto
  have run: "take_block k c h = Some (b + block_hdr_size, ?h3)"
    unfolding take_block_def Let_def b_def [symmetric] sp' by simp
  have "heap_ok ?h3 B2 L2 ({b} - {b})" by (rule use_ok [OF D(1)]) simp_all
  moreover have "same_pool h ?h3"
    using same_pool_trans [OF _ D(4), of h] k(3) by (simp add: same_pool_def)
  moreover have "bytes_total ?h3 B2 = bytes_total h B"
  proof -
    have "bytes_total ?h3 B2 = bytes_total h2 B2" by (rule bytes_total_cong) simp
    also have "\<dots> = bytes_total h B" unfolding D(7) by (rule bytes_total_cong) simp
    finally show ?thesis .
  qed
  moreover have "hdr ?h3 x = hdr h x" if "x \<in> B" "x \<noteq> b" for x
    using D(5) [OF that] that by simp
  moreover have "is_free (hdr ?h3 x) \<noteq> 0" if "x \<in> B2 - B" for x
    using D(6) [of x] that pop(2) by auto
  ultimately have "alloc_result b k B h ?h3 B2 L2"
    using D(2,3) pop(2,4) by (simp add: alloc_result_def)
  with run show ?thesis unfolding b_def by blast
qed

text \<open>A request the pool serves as it is: no expansion happens.\<close>

definition served :: "u64 \<Rightarrow> 'k heap \<Rightarrow> bool" where
  "served sz h \<longleftrightarrow> galloc h \<noteq> 0 \<and> unat sz + 32 \<le> unat (heap_size (alloc h)) \<and>
     find_order h (get_order (sz + block_hdr_size)) \<noteq> None"

lemma served_total:
  assumes "served sz h"
  shows "unat (sz + block_hdr_size) = unat sz + 32" "\<not> sz + block_hdr_size > heap_size (alloc h)"
proof -
  have "unat sz + 32 < 2 ^ 64"
    using assms unat_less_2p [of "heap_size (alloc h)"] by (simp add: served_def)
  then show u: "unat (sz + block_hdr_size) = unat sz + 32"
    by (simp add: block_hdr_size_def unat_word_ariths)
  then show "\<not> sz + block_hdr_size > heap_size (alloc h)"
    using assms by (simp add: served_def word_less_nat_alt)
qed

lemma malloc_take:
  assumes "served sz h" and "find_order h (get_order (sz + block_hdr_size)) = Some c"
  shows "malloc K sz h = take_block (get_order (sz + block_hdr_size)) c h"
  using served_total [OF assms(1)] assms
  by (simp add: malloc.simps [of K sz h] ensure_allocator_init_def served_def)

lemma malloc_served:
  assumes ok: "heap_ok h B L {}" and s: "served sz h"
  shows "\<exists>b h' B' L'. malloc K sz h = Some (b + block_hdr_size, h')
    \<and> alloc_result b (get_order (sz + block_hdr_size)) B h h' B' L'
    \<and> unat sz + 32 \<le> bsz (get_order (sz + block_hdr_size))"
proof -
  let ?k = "get_order (sz + block_hdr_size)"
  obtain c where c: "find_order h ?k = Some c" using s by (auto simp: served_def)
  note spec = get_order_spec [of "sz + block_hdr_size"] and f = find_order_Some [OF c]
  have "unat sz + 32 \<le> bsz ?k"
    using spec f served_total(1) [OF s] by (metis order_le_less_trans)
  then show ?thesis
    using take_block_ok [OF ok, of ?k c] malloc_take [OF s c] spec f by auto
qed

end
