(* ===== verification/Malloc_Free.thy ===== *)
theory Malloc_Free
  imports Malloc_Ops
begin

text \<open>
  Giving blocks back: the search for a block in its free list, the merge with a free right
  neighbour, and \<open>free\<close> on any block whose partner is not a free block to its left. (For that
  remaining case the code unlinks the wrong block of the two.)
\<close>

subsection \<open>The pool after the first call\<close>

lemma init_ok:
  assumes g: "galloc h = 0" and run: "ensure_allocator_init K h = (a, h')" and a: "a \<noteq> 0"
    and p: "heap_start (alloc h') = p" "p \<noteq> 0" "unat p + 2 ^ 20 < 2 ^ 64"
  shows "heap_ok h' {p} (\<lambda>k. if k = 14 then [p] else []) {} \<and> galloc h' = a
    \<and> heap_size (alloc h') = 2 ^ 20 \<and> bytes_total h' {p} = 2 ^ 20
    \<and> hdr h' p = \<lparr>blk_size = 2 ^ 20 - block_hdr_size, blk_order = 14, is_free = 1,
                   next_free = 0, buddy = 0\<rparr>"
proof -
  obtain a1 h1 where m1: "heap_mmap K 272 h = (a1, h1)" by (cases "heap_mmap K 272 h")
  let ?h2 = "h1\<lparr>alloc := \<lparr>free_lists = replicate 32 0, heap_start = heap_start (alloc h1),
                          heap_size = 1048576\<rparr>\<rparr>"
  obtain p2 h3 where m2: "heap_mmap K 1048576 ?h2 = (p2, h3)" by (cases "heap_mmap K 1048576 ?h2")
  have h3: "alloc h3 = alloc ?h2"
    using m2 by (auto simp: heap_mmap_def split: prod.splits)
  have ord: "get_order 1048576 = 14"
    by (rule get_order_bsz) (simp_all add: bsz_def)
  have big: "push_bit 20 1 = (1048576 :: u64)" by (simp add: push_bit_eq_mult)
  have res: "a = a1" "galloc h' = a1" "p2 = p"
    "hdr h' p = \<lparr>blk_size = 1048576 - block_hdr_size, blk_order = 14, is_free = 1,
                   next_free = 0, buddy = 0\<rparr>"
    "alloc h' = \<lparr>free_lists = (replicate 32 0)[14 := p], heap_start = p, heap_size = 1048576\<rparr>"
    using g run p(1) m1 m2
    by (auto simp: ensure_allocator_init_def buddy_init_def big Let_def ord h3 set_head_def)
  have b14: "bsz 14 = 1048576" by (simp add: bsz_def)
  have "heap_ok h' {p} (\<lambda>k. if k = 14 then [p] else []) {}"
  proof (rule heap_okI)
    show "blocks_ok h' {p}"
      using p(2,3) by (simp add: blocks_ok_def res b14)
    show "chain (hdr h') (get_head (alloc h') k) (if k = 14 then [p] else [])"
      if "0 \<le> k" "k < 32" for k
      using that p(2) by (auto simp: res get_head_def nth_list_update)
  qed (auto simp: res)
  then show ?thesis using res b14 by (simp add: bytes_total_def)
qed

subsection \<open>Unlinking\<close>

lemma find_cell_chain:
  "chain (hdr h) (read_cell h c) (us @ bud # vs) \<Longrightarrow> bud \<notin> set us \<Longrightarrow>
   find_cell h bud c = Some (if us = [] then c else NextOf (last us))"
proof (induction us arbitrary: c)
  case Nil
  then show ?case by (simp add: find_cell.simps [of h bud c])
next
  case (Cons u us)
  have "find_cell h bud (NextOf u) = Some (if us = [] then NextOf u else NextOf (last us))"
    by (rule Cons.IH) (use Cons.prems in auto)
  with Cons.prems show ?case by (auto simp: find_cell.simps [of h bud c])
qed

lemma chain_unlink:
  "chain s p (us @ bud # vs) \<Longrightarrow> distinct (us @ bud # vs) \<Longrightarrow> us \<noteq> [] \<Longrightarrow>
   chain (s(last us := (s (last us))\<lparr>next_free := next_free (s bud)\<rparr>)) p (us @ vs)"
proof (induction us arbitrary: p)
  case (Cons u us)
  show ?case
  proof (cases "us = []")
    case True
    with Cons.prems have "u \<notin> set vs" "bud \<noteq> u" "chain s (next_free (s bud)) vs" "p = u" "u \<noteq> 0" by auto
    with True show ?thesis by simp
  next
    case False
    then have "u \<noteq> last us" using Cons.prems(2) by auto
    moreover have "chain (s(last us := (s (last us))\<lparr>next_free := next_free (s bud)\<rparr>))
        (next_free (s u)) (us @ vs)"
      by (rule Cons.IH) (use Cons.prems False in auto)
    ultimately show ?thesis using Cons.prems(1) False by simp
  qed
qed simp

text \<open>Two headers that differ at most in the list link.\<close>

definition same_but_next :: "block \<Rightarrow> block \<Rightarrow> bool" where
  "same_but_next x y \<longleftrightarrow> y\<lparr>next_free := 0\<rparr> = x\<lparr>next_free := 0\<rparr>"

lemma same_but_next_iff:
  "same_but_next x y \<longleftrightarrow> blk_size y = blk_size x \<and> blk_order y = blk_order x \<and>
     is_free y = is_free x \<and> buddy y = buddy x"
  by (cases x, cases y) (simp add: same_but_next_def)

definition cell_before :: "int \<Rightarrow> u64 list \<Rightarrow> cell" where
  "cell_before k us = (if us = [] then Head k else NextOf (last us))"

lemma unlink_run:
  assumes ch: "chain (hdr h) (get_head (alloc h) k) (us @ bud # vs)" and ord: "blk_order (hdr h bud) = k"
  shows "unlink_block bud h = Some (write_cell (cell_before k us) (next_free (hdr h bud)) h)"
proof -
  have find: "find_cell h bud (Head (blk_order (hdr h bud))) = Some (cell_before k us)"
    using find_cell_chain [of h "Head k" us bud vs] ch chain_distinct [OF ch] by (simp add: ord cell_before_def)
  have "read_cell h (cell_before k us) \<noteq> 0"
  proof (cases "us = []")
    case False
    then have "us = butlast us @ [last us]" by simp
    then have "chain (hdr h) (get_head (alloc h) k) (butlast us @ last us # bud # vs)"
      using ch by (metis append.assoc append_Cons append_Nil)
    then have "chain (hdr h) (last us) (last us # bud # vs)" by (rule chain_suffix)
    with False show ?thesis by (simp add: cell_before_def)
  qed (use ch in \<open>simp add: cell_before_def\<close>)
  with find show ?thesis by (simp add: unlink_block_def)
qed

lemma unlink_frame:
  assumes "h' = write_cell (cell_before k us) v h" and "k < 32"
  shows "same_but_next (hdr h x) (hdr h' x)" "x \<notin> set us \<Longrightarrow> hdr h' x = hdr h x" "same_pool h h'"
    "length (free_lists (alloc h')) = length (free_lists (alloc h))"
proof -
  show "hdr h' x = hdr h x" if "x \<notin> set us"
  proof (cases "us = []")
    case False
    then have "x \<noteq> last us" using that last_in_set by blast
    with False assms(1) show ?thesis by (simp add: cell_before_def)
  qed (use assms(1) in \<open>simp add: cell_before_def\<close>)
qed (use assms in \<open>simp_all add: cell_before_def same_but_next_iff\<close>)

lemma unlink_chains:
  assumes ok: "heap_ok h B L X" and k: "0 \<le> k" "k < 32" and L: "L k = us @ bud # vs"
    and h': "h' = write_cell (cell_before k us) (next_free (hdr h bud)) h" and j: "0 \<le> j" "j < 32"
  shows "chain (hdr h') (get_head (alloc h') j) ((L(k := us @ vs)) j)"
proof (cases "j = k")
  case True
  have ch: "chain (hdr h) (get_head (alloc h) k) (us @ bud # vs)" using heap_okD(4) [OF ok k] by (simp add: L)
  have "chain (hdr h') (get_head (alloc h') k) (us @ vs)"
    using ch heap_okD(3) [OF ok] k chain_unlink [OF ch chain_distinct [OF ch]]
    by (cases "us = []") (simp_all add: h' cell_before_def)
  with True show ?thesis by simp
next
  case False
  have "last us \<notin> set (L j)" if "us \<noteq> []"
    using heap_okD(5) [OF ok j, of "last us"] heap_okD(5) [OF ok k, of "last us"] that False
    by (simp add: L)
  moreover have "get_head (alloc h') j = get_head (alloc h) j"
    using False j k heap_okD(3) [OF ok] by (simp add: h' cell_before_def)
  ultimately show ?thesis
    using heap_okD(4) [OF ok j] False by (simp add: h' cell_before_def)
qed

lemma unlink_ok:
  assumes ok: "heap_ok h B L X" and k: "0 \<le> k" "k < 32" and bud: "bud \<in> set (L k)"
  shows "\<exists>h'. unlink_block bud h = Some h' \<and>
    heap_ok h' B (L(k := remove1 bud (L k))) (insert bud X) \<and> same_pool h h' \<and>
    (\<forall>c. same_but_next (hdr h c) (hdr h' c)) \<and> (\<forall>c. c \<notin> set (L k) \<longrightarrow> hdr h' c = hdr h c)"
proof -
  have inB: "bud \<in> B - X" and ord: "blk_order (hdr h bud) = k"
    using heap_okD(5) [OF ok k, of bud] bud by auto
  obtain us vs where L: "L k = us @ bud # vs" using bud by (meson split_list)
  have ch: "chain (hdr h) (get_head (alloc h) k) (us @ bud # vs)"
    using heap_okD(4) [OF ok k] by (simp add: L)
  have dist: "distinct (us @ bud # vs)" using chain_distinct [OF ch] .
  have rem: "remove1 bud (L k) = us @ vs" using dist by (simp add: L remove1_append)
  define h' where "h' = write_cell (cell_before k us) (next_free (hdr h bud)) h"
  note frame = unlink_frame [OF h'_def k(2)]
  have "heap_ok h' B (L(k := remove1 bud (L k))) (insert bud X)"
  proof (rule heap_okI)
    show "blocks_ok h' B"
      using heap_okD(1) [OF ok] by (rule blocks_ok_cong)
        (use frame(1,3) in \<open>simp_all add: same_pool_def same_but_next_iff\<close>)
    show "insert bud X \<subseteq> B" using inB heap_okD(2) [OF ok] by blast
    show "length (free_lists (alloc h')) = 32" using frame(4) heap_okD(3) [OF ok] by simp
  next
    fix j :: int assume j: "0 \<le> j" "j < 32"
    show "chain (hdr h') (get_head (alloc h') j) ((L(k := remove1 bud (L k))) j)"
      using unlink_chains [OF ok k L h'_def j] by (simp only: rem)
    fix x
    have "x \<in> set (remove1 bud (L k)) \<longleftrightarrow> x \<in> set (L k) \<and> x \<noteq> bud"
      using dist by (auto simp: rem L)
    then show "x \<in> set ((L(k := remove1 bud (L k))) j) \<longleftrightarrow> x \<in> B - insert bud X \<and>
        blk_order (hdr h' x) = j \<and> is_free (hdr h' x) \<noteq> 0"
      using heap_okD(5) [OF ok j, of x] frame(1) [of x] ord
      by (auto simp: same_but_next_iff split: if_splits)
  qed
  moreover have "unlink_block bud h = Some h'" unfolding h'_def by (rule unlink_run [OF ch ord])
  moreover have "hdr h' c = hdr h c" if "c \<notin> set (L k)" for c
    by (rule frame(2)) (use that in \<open>simp add: L\<close>)
  ultimately show ?thesis using frame(1,3) by blast
qed

subsection \<open>Merging with the block behind\<close>

text \<open>Two held blocks that touch become one; the inverse of \<open>carve_ok\<close>.\<close>

lemma fuse_geometry:
  assumes B: "blocks_ok h B" "b \<in> B" "bud \<in> B" and bud: "bud = b + order_bytes k"
    and k: "blk_order (hdr h b) = k" "blk_order (hdr h bud) = k"
  shows "unat bud = unat b + bsz k" "bud \<noteq> b" "bsz (k + 1) = bsz k + bsz k"
    "\<And>c. c \<in> B - {bud} \<Longrightarrow> c \<noteq> b \<Longrightarrow> unat b + bsz (k + 1) \<le> unat c \<or> unat c + bsz (blk_order (hdr h c)) \<le> unat b"
proof -
  show ub: "unat bud = unat b + bsz k"
    unfolding bud by (rule unat_block_end [OF B(1,2)]) (simp add: k)
  show dbl: "bsz (k + 1) = bsz k + bsz k" using blocks_okD(2) [OF B(1,2)] bsz_Suc [of k] by (simp add: k)
  have pos: "0 < bsz k" by simp
  then show "bud \<noteq> b" using ub by (metis less_add_same_cancel1 less_irrefl)
  fix c assume c: "c \<in> B - {bud}" "c \<noteq> b"
  have "unat bud + bsz k \<le> unat c \<or> unat c + bsz (blk_order (hdr h c)) \<le> unat bud"
    using blocks_ok_apart [OF B(1,3), of c] c k(2) by auto
  moreover have "unat b + bsz k \<le> unat c \<or> unat c + bsz (blk_order (hdr h c)) \<le> unat b"
    using blocks_ok_apart [OF B(1,2), of c] c k(1) by auto
  moreover have "0 < bsz (blk_order (hdr h c))" by simp
  ultimately show "unat b + bsz (k + 1) \<le> unat c \<or> unat c + bsz (blk_order (hdr h c)) \<le> unat b"
    using ub dbl by linarith
qed

lemma fuse_blocks:
  assumes B: "blocks_ok h B" "b \<in> B" "bud \<in> B" and bud: "bud = b + order_bytes k"
    and k: "blk_order (hdr h b) = k" "blk_order (hdr h bud) = k" "k < 31"
    and ord: "\<And>c. blk_order (hdr h' c) = (if c = b then k + 1 else blk_order (hdr h c))" and al: "alloc h' = alloc h"
  shows "blocks_ok h' (B - {bud})"
proof -
  note bb = blocks_okD [OF B(1,2), unfolded k] and bd = blocks_okD [OF B(1,3), unfolded k]
  note geo = fuse_geometry [OF B bud k(1,2)]
  show ?thesis
    unfolding blocks_ok_def ord al
  proof (intro conjI ballI impI)
    show "heap_start (alloc h) \<noteq> 0" "unat (heap_start (alloc h)) + unat (heap_size (alloc h)) < 2 ^ 64"
      using B(1) by (simp_all add: blocks_ok_def)
  next
    fix c assume c: "c \<in> B - {bud}"
    let ?o = "if c = b then k + 1 else blk_order (hdr h c)"
    show "0 \<le> ?o" "?o < 32" "unat (heap_start (alloc h)) \<le> unat c"
      "unat c + bsz ?o \<le> unat (heap_start (alloc h)) + unat (heap_size (alloc h))"
      using c k(3) bb(2) bd(5) blocks_okD(2-5) [OF B(1)] by (auto simp: geo(1,3))
    show "unat c + bsz ?o = unat (heap_start (alloc h)) + unat (heap_size (alloc h)) \<or>
        (\<exists>d\<in>B - {bud}. unat d = unat c + bsz ?o)"
    proof (cases "c = b")
      case True
      have "0 < bsz k" by simp
      then have "d \<noteq> bud" if "unat d = unat b + (bsz k + bsz k)" for d
        using that geo(1) by (metis add.assoc less_add_same_cancel1 less_irrefl)
      with True blocks_ok_next [OF B(1,3)] show ?thesis
        by (simp add: k(2) geo(1,3) add.assoc) blast
    next
      case False
      have "unat c + bsz (blk_order (hdr h c)) \<noteq> unat bud"
        using geo(4) [OF c False] geo(1,3) bsz_pos [of k] bsz_pos [of "blk_order (hdr h c)"] by linarith
      with blocks_ok_next [OF B(1), of c] c False show ?thesis by auto
    qed
  next
    fix c d assume cd: "c \<in> B - {bud}" "d \<in> B - {bud}" "c \<noteq> d"
    show "unat c + bsz (if c = b then k + 1 else blk_order (hdr h c)) \<le> unat d \<or>
      unat d + bsz (if d = b then k + 1 else blk_order (hdr h d)) \<le> unat c"
      using blocks_ok_apart [OF B(1), of c d] geo(4) [of c] geo(4) [of d] cd by auto
  qed
qed

lemma fuse_total:
  assumes B: "blocks_ok h B" "b \<in> B" "bud \<in> B" and bud: "bud = b + order_bytes k"
    and k: "blk_order (hdr h b) = k" "blk_order (hdr h bud) = k"
    and ord: "\<And>c. blk_order (hdr h' c) = (if c = b then k + 1 else blk_order (hdr h c))"
  shows "bytes_total h' (B - {bud}) = bytes_total h B"
proof -
  note geo = fuse_geometry [OF B bud k]
  have bB: "b \<in> B - {bud}" using B geo(2) by simp
  have "bytes_total h' (B - {bud}) = bsz (k + 1) + (\<Sum>c\<in>B - {bud} - {b}. bsz (blk_order (hdr h' c)))"
    using bB by (simp add: bytes_total_def sum.remove [of _ b] ord)
  also have "(\<Sum>c\<in>B - {bud} - {b}. bsz (blk_order (hdr h' c))) = (\<Sum>c\<in>B - {bud} - {b}. bsz (blk_order (hdr h c)))"
    by (rule sum.cong) (simp_all add: ord)
  also have "bsz (k + 1) + \<dots> = bytes_total h B"
    using bB B(3) sum.remove [of B bud "\<lambda>c. bsz (blk_order (hdr h c))"]
      sum.remove [of "B - {bud}" b "\<lambda>c. bsz (blk_order (hdr h c))"]
    by (simp add: bytes_total_def k geo(3))
  finally show ?thesis .
qed

lemma fuse_ok:
  assumes ok: "heap_ok h B L X" and b: "b \<in> X" and bud: "bud \<in> X" "bud = b + order_bytes k"
    and k: "blk_order (hdr h b) = k" "blk_order (hdr h bud) = k" "k < 31"
    and f: "blk_order (f (hdr h b)) = k + 1"
    and h': "h' = upd_block b f h"
  shows "heap_ok h' (B - {bud}) L (X - {bud}) \<and> bytes_total h' (B - {bud}) = bytes_total h B"
proof
  have B: "blocks_ok h B" "b \<in> B" "bud \<in> B" using ok b bud by (auto simp: heap_ok_def)
  have ord: "blk_order (hdr h' c) = (if c = b then k + 1 else blk_order (hdr h c))" for c
    using f by (simp add: h')
  have al: "alloc h' = alloc h" by (simp add: h')
  show "bytes_total h' (B - {bud}) = bytes_total h B" by (rule fuse_total [OF B bud(2) k(1,2) ord])
  show "heap_ok h' (B - {bud}) L (X - {bud})"
  proof (rule heap_okI [OF fuse_blocks [OF B bud(2) k ord al]])
    show "X - {bud} \<subseteq> B - {bud}" using heap_okD(2) [OF ok] by blast
    show "length (free_lists (alloc h')) = 32" using heap_okD(3) [OF ok] by (simp add: al)
    fix j :: int assume j: "0 \<le> j" "j < 32"
    show "chain (hdr h') (get_head (alloc h') j) (L j)"
      using heap_okD(4) [OF ok j] held_notin [OF ok b j] by (simp add: h')
    show "x \<in> set (L j) \<longleftrightarrow> x \<in> B - {bud} - (X - {bud}) \<and> blk_order (hdr h' x) = j \<and> is_free (hdr h' x) \<noteq> 0" for x
      using heap_okD(5) [OF ok j, of x] held_notin [OF ok b j] bud(1) b by (auto simp: h')
  qed
qed

text \<open>What merging keeps: the other headers but for their links, and those of used blocks entirely.\<close>

definition others_kept :: "u64 \<Rightarrow> 'k heap \<Rightarrow> 'k heap \<Rightarrow> bool" where
  "others_kept b h h' \<longleftrightarrow> (\<forall>c. c \<noteq> b \<longrightarrow> same_but_next (hdr h c) (hdr h' c) \<and>
     (is_free (hdr h c) = 0 \<longrightarrow> hdr h' c = hdr h c))"

lemma others_kept_trans: "others_kept b h h1 \<Longrightarrow> others_kept b h1 h2 \<Longrightarrow> others_kept b h h2"
  by (simp add: others_kept_def same_but_next_iff)

lemma others_kept_upd [simp]: "others_kept b h (upd_block b f h)"
  by (simp add: others_kept_def same_but_next_iff)

lemma absorb_ok:
  assumes ok: "heap_ok h B L X" and b: "b \<in> X" and k: "blk_order (hdr h b) = k" "k < 31"
    and bud: "bud = b + order_bytes k" "bud \<in> set (L k)"
  obtains h' where "absorb b bud h = Some h'"
    "heap_ok h' (B - {bud}) (L(k := remove1 bud (L k))) X"
    "bytes_total h' (B - {bud}) = bytes_total h B" "same_pool h h'" "others_kept b h h'"
    "hdr h' b = (hdr h b)\<lparr>blk_order := k + 1, blk_size := order_bytes (k + 1) - block_hdr_size,
       buddy := if b + order_bytes (k + 1) < heap_start (alloc h) + heap_size (alloc h)
                then b + order_bytes (k + 1) else 0\<rparr>"
proof -
  have B: "blocks_ok h B" "b \<in> B" using ok b by (auto simp: heap_ok_def)
  have k0: "0 \<le> k" "k < 32" using blocks_okD(2) [OF B] k by simp_all
  obtain h1 where u: "unlink_block bud h = Some h1"
      "heap_ok h1 B (L(k := remove1 bud (L k))) (insert bud X)" "same_pool h h1"
      "\<And>c. same_but_next (hdr h c) (hdr h1 c)" "\<And>c. c \<notin> set (L k) \<Longrightarrow> hdr h1 c = hdr h c"
    using unlink_ok [OF ok k0 bud(2)] by blast
  have budk: "blk_order (hdr h bud) = k" "is_free (hdr h bud) \<noteq> 0" "bud \<notin> X"
    using heap_okD(5) [OF ok k0, of bud] bud(2) by auto
  have hb: "hdr h1 b = hdr h b" by (rule u(5)) (rule held_notin [OF ok b k0])
  have neq: "b \<noteq> bud" using b budk(3) by blast
  let ?f = "\<lambda>x. x\<lparr>blk_order := k + 1, blk_size := order_bytes (k + 1) - block_hdr_size,
       buddy := if b + order_bytes (k + 1) < heap_start (alloc h) + heap_size (alloc h)
                then b + order_bytes (k + 1) else 0\<rparr>"
  let ?h' = "upd_block b ?f h1"
  have run: "absorb b bud h = Some ?h'"
    using u(1) hb k(1) by (simp add: absorb_def Let_def upd_block_def)
  have fuse: "heap_ok ?h' (B - {bud}) (L(k := remove1 bud (L k))) (insert bud X - {bud})
      \<and> bytes_total ?h' (B - {bud}) = bytes_total h1 B"
    by (rule fuse_ok [OF u(2) _ _ bud(1) _ _ k(2) _ refl])
      (use b hb k budk u(4) [of bud] in \<open>auto simp: same_but_next_iff\<close>)
  have "bytes_total h1 B = bytes_total h B"
    by (rule bytes_total_cong) (use u(4) in \<open>simp add: same_but_next_iff\<close>)
  moreover have "insert bud X - {bud} = X" using budk(3) by (rule Diff_insert_absorb)
  moreover have "others_kept b h h1"
    unfolding others_kept_def using u(4,5) heap_okD(5) [OF ok k0] by blast
  ultimately show ?thesis
    by (intro that [OF run])
      (use fuse u(3) hb in \<open>simp_all add: same_pool_def others_kept_trans [of _ _ h1]\<close>)
qed

text \<open>
  The case the loop handles: whatever \<open>buddy\<close> names is not the block itself and, if it is a free
  block of the same order, it is the one right behind.
\<close>

definition partner_right :: "'k heap \<Rightarrow> u64 set \<Rightarrow> u64 \<Rightarrow> bool" where
  "partner_right h B b \<longleftrightarrow>
     (let e = buddy (hdr h b); k = blk_order (hdr h b)
      in e \<noteq> b \<and> (e = 0 \<or> is_free (hdr h e) = 0 \<or> blk_order (hdr h e) \<noteq> k \<or>
           (e = b + order_bytes k \<and> e \<in> B)))"

definition merge_result :: "u64 \<Rightarrow> u64 set \<Rightarrow> 'k heap \<Rightarrow> 'k heap \<Rightarrow> u64 set \<Rightarrow> (int \<Rightarrow> u64 list) \<Rightarrow> bool" where
  "merge_result b B h h' B' L' \<longleftrightarrow>
     heap_ok h' B' L' {b} \<and> bytes_total h' B' = bytes_total h B \<and> same_pool h h' \<and>
     others_kept b h h' \<and> is_free (hdr h' b) = is_free (hdr h b) \<and> B' \<subseteq> B \<and>
     (\<forall>c \<in> B - B'. is_free (hdr h c) \<noteq> 0) \<and> blk_order (hdr h b) \<le> blk_order (hdr h' b)"

lemma merge_result_refl: "heap_ok h B L {b} \<Longrightarrow> merge_result b B h h B L"
  by (simp add: merge_result_def others_kept_def same_but_next_iff)

lemma merge_result_trans:
  assumes m1: "merge_result b B h h1 B1 L1" and m2: "merge_result b B1 h1 h2 B2 L2"
  shows "merge_result b B h h2 B2 L2"
proof -
  have b: "b \<in> B2" using m2 by (auto simp: merge_result_def heap_ok_def)
  have "is_free (hdr h c) \<noteq> 0" if c: "c \<in> B - B2" for c
  proof (cases "c \<in> B1")
    case True
    then have "is_free (hdr h1 c) \<noteq> 0" using m2 c by (simp add: merge_result_def)
    moreover have "c \<noteq> b" using b c by blast
    ultimately show ?thesis
      using m1 by (auto simp: merge_result_def others_kept_def same_but_next_iff)
  next
    case False
    with m1 c show ?thesis by (simp add: merge_result_def)
  qed
  then show ?thesis
    using m1 m2 others_kept_trans [of b h h1 h2] same_pool_trans [of h h1 h2]
    unfolding merge_result_def by auto
qed

lemma next_partner_right:
  assumes B: "blocks_ok h B" "b \<in> B"
    and e: "buddy (hdr h b) = (if b + order_bytes (blk_order (hdr h b)) < heap_start (alloc h) + heap_size (alloc h)
      then b + order_bytes (blk_order (hdr h b)) else 0)"
  shows "partner_right h B b"
proof (cases "b + order_bytes (blk_order (hdr h b)) < heap_start (alloc h) + heap_size (alloc h)")
  case False
  with e blocks_okD(1) [OF B] show ?thesis by (simp add: partner_right_def)
next
  case lt: True
  let ?e = "b + order_bytes (blk_order (hdr h b))"
  have u: "unat ?e = unat b + bsz (blk_order (hdr h b))" by (rule unat_block_end [OF B]) simp
  have "unat ?e < unat (heap_start (alloc h)) + unat (heap_size (alloc h))"
    using lt unat_add_le [of "heap_start (alloc h)" "heap_size (alloc h)"] by (simp add: word_less_nat_alt)
  then obtain c where "c \<in> B" "unat c = unat ?e" using blocks_ok_next [OF B] u by auto
  then have "?e \<in> B" by (simp only: word_unat_eq_iff [symmetric])
  moreover have "?e \<noteq> b" using u by (metis bsz_pos less_add_same_cancel1 less_irrefl)
  ultimately show ?thesis using lt e by (simp add: partner_right_def)
qed

lemma merge_loop_ok:
  assumes "heap_ok h B L {b}" and "partner_right h B b"
  shows "\<exists>h' B' L'. merge_loop b h = Some (b, h') \<and> merge_result b B h h' B' L'"
  using assms
proof (induction "nat (31 - blk_order (hdr h b))" arbitrary: h B L rule: less_induct)
  case less
  let ?k = "blk_order (hdr h b)" and ?e = "buddy (hdr h b)"
  have B: "blocks_ok h B" "b \<in> B" using less.prems(1) by (auto simp: heap_ok_def)
  note bb = blocks_okD [OF B]
  show ?case
  proof (cases "?k < 31 \<and> \<not> (?e = 0 \<or> is_free (hdr h ?e) = 0 \<or> blk_order (hdr h ?e) \<noteq> ?k)")
    case False
    then have "merge_loop b h = Some (b, h)" by (auto simp: merge_loop.simps [of b h] Let_def)
    then show ?thesis using merge_result_refl [OF less.prems(1)] by blast
  next
    case True
    then have e: "?e = b + order_bytes ?k" "?e \<in> B" "?e \<noteq> b" "?k < 31"
      using less.prems(2) by (auto simp: partner_right_def Let_def)
    have inL: "?e \<in> set (L ?k)"
      using heap_okD(5) [OF less.prems(1) bb(2,3), of ?e] True e by auto
    obtain h1 where a: "absorb b ?e h = Some h1"
      and ok1: "heap_ok h1 (B - {?e}) (L(?k := remove1 ?e (L ?k))) {b}"
      and tot: "bytes_total h1 (B - {?e}) = bytes_total h B" and pool: "same_pool h h1"
      and kept: "others_kept b h h1"
      and hb: "hdr h1 b = (hdr h b)\<lparr>blk_order := ?k + 1, blk_size := order_bytes (?k + 1) - block_hdr_size,
         buddy := if b + order_bytes (?k + 1) < heap_start (alloc h) + heap_size (alloc h)
                  then b + order_bytes (?k + 1) else 0\<rparr>"
      using absorb_ok [OF less.prems(1) singletonI refl e(4) e(1) inL] by metis
    have "unat ?e = unat b + bsz ?k" unfolding e(1) by (rule unat_block_end [OF B]) simp
    then have "\<not> ?e < b" by (simp add: word_less_nat_alt)
    then have step: "merge_loop b h = merge_loop b h1"
      using True e(1) a by (simp add: merge_loop.simps [of b h] Let_def)
    have m1: "merge_result b B h h1 (B - {?e}) (L(?k := remove1 ?e (L ?k)))"
      using ok1 tot pool kept hb True by (auto simp: merge_result_def)
    have B1: "blocks_ok h1 (B - {?e})" "b \<in> B - {?e}" using ok1 by (auto simp: heap_ok_def)
    have "partner_right h1 (B - {?e}) b"
      using pool hb by (intro next_partner_right [OF B1]) (simp add: same_pool_def)
    moreover have "nat (31 - blk_order (hdr h1 b)) < nat (31 - ?k)"
      using hb e(4) by simp
    ultimately obtain h2 B2 L2 where l: "merge_loop b h1 = Some (b, h2)"
        "merge_result b (B - {?e}) h1 h2 B2 L2"
      using less.hyps [OF _ ok1] by blast
    show ?thesis using merge_result_trans [OF m1 l(2)] l(1) unfolding step by blast
  qed
qed

text \<open>What \<open>free\<close> promises for the block \<open>b\<close>.\<close>

definition free_result :: "u64 \<Rightarrow> u64 set \<Rightarrow> 'k heap \<Rightarrow> 'k heap \<Rightarrow> u64 set \<Rightarrow> (int \<Rightarrow> u64 list) \<Rightarrow> bool" where
  "free_result b B h h' B' L' \<longleftrightarrow>
     heap_ok h' B' L' {} \<and> b \<in> B' \<and> is_free (hdr h' b) \<noteq> 0 \<and> same_pool h h' \<and>
     bytes_total h' B' = bytes_total h B \<and> B' \<subseteq> B \<and>
     (\<forall>c \<in> B. c \<noteq> b \<and> is_free (hdr h c) = 0 \<longrightarrow> c \<in> B' \<and> hdr h' c = hdr h c) \<and>
     (\<forall>c. c \<noteq> b \<longrightarrow> is_free (hdr h' c) = is_free (hdr h c))"

lemma hold_ok:
  assumes ok: "heap_ok h B L X" and b: "b \<in> B" "is_free (hdr h b) = 0"
    and f: "blk_order (f (hdr h b)) = blk_order (hdr h b)"
  shows "heap_ok (upd_block b f h) B L (insert b X)"
proof (rule heap_okI)
  show "blocks_ok (upd_block b f h) B"
    using heap_okD(1) [OF ok] by (rule blocks_ok_cong) (use f in auto)
  show "insert b X \<subseteq> B" using heap_okD(2) [OF ok] b by blast
  show "length (free_lists (alloc (upd_block b f h))) = 32" using heap_okD(3) [OF ok] by simp
next
  fix j :: int assume j: "0 \<le> j" "j < 32"
  have nb: "b \<notin> set (L j)" using heap_okD(5) [OF ok j, of b] b by auto
  show "chain (hdr (upd_block b f h)) (get_head (alloc (upd_block b f h)) j) (L j)"
    using heap_okD(4) [OF ok j] nb by simp
  fix x
  show "x \<in> set (L j) \<longleftrightarrow> x \<in> B - insert b X \<and> blk_order (hdr (upd_block b f h) x) = j
      \<and> is_free (hdr (upd_block b f h) x) \<noteq> 0"
    using heap_okD(5) [OF ok j, of x] nb by (cases "x = b") auto
qed

lemma free_ok:
  assumes ok: "heap_ok h B L {}" and b: "b \<in> B" "is_free (hdr h b) = 0" and g: "galloc h \<noteq> 0"
    and p: "b + block_hdr_size \<noteq> 0" and right: "partner_right h B b"
  shows "\<exists>h' B' L'. free (b + block_hdr_size) h = Some h' \<and> free_result b B h h' B' L'"
proof -
  let ?h1 = "upd_block b (\<lambda>x. x\<lparr>is_free := 1\<rparr>) h"
  have ok1: "heap_ok ?h1 B L {b}" by (rule hold_ok [OF ok b]) simp
  have right1: "partner_right ?h1 B b"
    using right by (simp add: partner_right_def Let_def)
  obtain h2 B2 L2 where m: "merge_loop b ?h1 = Some (b, h2)" "merge_result b B ?h1 h2 B2 L2"
    using merge_loop_ok [OF ok1 right1] by blast
  have ok2: "heap_ok h2 B2 L2 {b}" and fr: "is_free (hdr h2 b) \<noteq> 0"
    using m(2) by (auto simp: merge_result_def)
  then have b2: "b \<in> B2" by (simp add: heap_ok_def)
  let ?h3 = "push_block b h2"
  let ?k = "blk_order (hdr h2 b)"
  have ok3: "heap_ok ?h3 B2 (L2(?k := b # L2 ?k)) {}"
    using push_ok [OF ok2 singletonI fr refl] by simp
  have run: "free (b + block_hdr_size) h = Some ?h3"
    using g p m(1) by (simp add: free_def merge_blocks_def Let_def)
  have hdr3: "hdr ?h3 c = hdr h2 c" if "c \<noteq> b" for c
    using that by (simp add: push_block_def Let_def)
  have ord3: "blk_order (hdr ?h3 c) = blk_order (hdr h2 c)" "is_free (hdr ?h3 c) = is_free (hdr h2 c)" for c
    by (simp_all add: push_block_def Let_def)
  have "same_pool h2 ?h3"
    by (rule same_pool_push_block) (rule blocks_okD(3) [OF heap_okD(1) [OF ok2] b2])
  then have pool: "same_pool h ?h3"
    using m(2) by (simp add: merge_result_def same_pool_def)
  have tot: "bytes_total ?h3 B2 = bytes_total h B"
  proof -
    have "bytes_total ?h3 B2 = bytes_total h2 B2" by (rule bytes_total_cong) (rule ord3)
    also have "\<dots> = bytes_total ?h1 B" using m(2) by (simp add: merge_result_def)
    also have "\<dots> = bytes_total h B" by (rule bytes_total_cong) simp
    finally show ?thesis .
  qed
  have kept: "c \<in> B2 \<and> hdr ?h3 c = hdr h c" if "c \<in> B" "c \<noteq> b" "is_free (hdr h c) = 0" for c
  proof -
    have h1: "hdr ?h1 c = hdr h c" using that(2) by simp
    have "hdr h2 c = hdr ?h1 c" and "c \<notin> B - B2"
      using m(2) that h1 unfolding merge_result_def others_kept_def by metis+
    then show ?thesis using that(1) hdr3 [OF that(2)] h1 by simp
  qed
  have flags: "is_free (hdr ?h3 c) = is_free (hdr h c)" if "c \<noteq> b" for c
    using m(2) that ord3(2) [of c] by (simp add: merge_result_def others_kept_def same_but_next_iff)
  show ?thesis
    using run ok3 b2 fr pool tot kept flags m(2) unfolding free_result_def merge_result_def
    by (intro exI [of _ ?h3] exI [of _ B2] exI conjI) (auto simp: ord3)
qed

end
