(* ===== verification/Malloc_Client.thy ===== *)
theory Malloc_Client
  imports Malloc_Free
begin

text \<open>
  The contract between an allocator and its callers, as the locale \<open>memory_allocator\<close>: its
  operations, the conditions under which they are called, and a consistency relation between the
  heap and the table of live allocations (address and requested size). Whatever sequence of calls
  a client makes within the contract, its live allocations never overlap. The model of malloc.c
  interprets it.
\<close>

type_synonym table = "(u64 \<times> u64) set"

definition payloads_apart :: "table \<Rightarrow> bool" where
  "payloads_apart A \<longleftrightarrow> (\<forall>(p, m) \<in> A. unat p + unat m < 2 ^ 64 \<and> (\<forall>(q, n) \<in> A.
     (p, m) = (q, n) \<or> unat p + unat m < unat q \<or> unat q + unat n < unat p))"

text \<open>One call of the client: allocate, or give back a live allocation.\<close>

inductive client_step :: "(u64 \<Rightarrow> 'h \<Rightarrow> (u64 \<times> 'h) option) \<Rightarrow> (u64 \<Rightarrow> 'h \<Rightarrow> 'h option) \<Rightarrow>
    (u64 \<Rightarrow> 'h \<Rightarrow> bool) \<Rightarrow> (u64 \<Rightarrow> 'h \<Rightarrow> bool) \<Rightarrow> table \<times> 'h \<Rightarrow> table \<times> 'h \<Rightarrow> bool"
  for alloc_op free_op can_alloc can_free where
  step_alloc: "can_alloc sz h \<Longrightarrow> alloc_op sz h = Some (p, h') \<Longrightarrow>
    client_step alloc_op free_op can_alloc can_free (A, h) (insert (p, sz) A, h')"
| step_free: "(p, sz) \<in> A \<Longrightarrow> can_free p h \<Longrightarrow> free_op p h = Some h' \<Longrightarrow>
    client_step alloc_op free_op can_alloc can_free (A, h) (A - {(p, sz)}, h')"

inductive_cases client_stepE: "client_step al fr ca cf (A, h) (A', h')"

locale memory_allocator =
  fixes alloc_op :: "u64 \<Rightarrow> 'h \<Rightarrow> (u64 \<times> 'h) option"
    and free_op :: "u64 \<Rightarrow> 'h \<Rightarrow> 'h option"
    and can_alloc :: "u64 \<Rightarrow> 'h \<Rightarrow> bool"
    and can_free :: "u64 \<Rightarrow> 'h \<Rightarrow> bool"
    and consistent :: "table \<Rightarrow> 'h \<Rightarrow> bool"
  assumes alloc_returns: "consistent A h \<Longrightarrow> can_alloc sz h \<Longrightarrow>
      \<exists>p h'. alloc_op sz h = Some (p, h') \<and> consistent (insert (p, sz) A) h' \<and> p \<notin> fst ` A"
    and free_returns: "consistent A h \<Longrightarrow> (p, sz) \<in> A \<Longrightarrow> can_free p h \<Longrightarrow>
      \<exists>h'. free_op p h = Some h' \<and> consistent (A - {(p, sz)}) h'"
    and consistent_apart: "consistent A h \<Longrightarrow> payloads_apart A"
begin

lemma step_consistent:
  "client_step alloc_op free_op can_alloc can_free s s' \<Longrightarrow> consistent (fst s) (snd s) \<Longrightarrow>
   consistent (fst s') (snd s')"
proof (induction rule: client_step.induct)
  case (step_alloc sz h p h' A)
  then show ?case using alloc_returns [of A h sz] by auto
next
  case (step_free p sz A h h')
  then show ?case using free_returns [of A h p sz] by auto
qed

lemma run_consistent:
  "(client_step alloc_op free_op can_alloc can_free)\<^sup>*\<^sup>* s s' \<Longrightarrow> consistent (fst s) (snd s) \<Longrightarrow>
   consistent (fst s') (snd s')"
  by (induction rule: rtranclp_induct) (auto intro: step_consistent)

lemma run_apart:
  "(client_step alloc_op free_op can_alloc can_free)\<^sup>*\<^sup>* s s' \<Longrightarrow> consistent (fst s) (snd s) \<Longrightarrow>
   payloads_apart (fst s')"
  using run_consistent consistent_apart by blast

text \<open>A call within the contract always returns.\<close>

lemma alloc_progress:
  "consistent A h \<Longrightarrow> can_alloc sz h \<Longrightarrow>
   \<exists>s'. client_step alloc_op free_op can_alloc can_free (A, h) s' \<and> consistent (fst s') (snd s')"
  using alloc_returns [of A h sz] client_step.step_alloc [of can_alloc sz h alloc_op]
  by (metis fst_conv snd_conv)

lemma free_progress:
  "consistent A h \<Longrightarrow> (p, sz) \<in> A \<Longrightarrow> can_free p h \<Longrightarrow>
   \<exists>s'. client_step alloc_op free_op can_alloc can_free (A, h) s' \<and> consistent (fst s') (snd s')"
  using free_returns [of A h p sz] client_step.step_free [of p sz A can_free h free_op]
  by (metis fst_conv snd_conv)

end

subsection \<open>The buddy allocator\<close>

text \<open>
  A live allocation is the payload of a block in use that has room for it. \<open>free\<close> is called
  within the contract when the partner recorded in the header is not a free block of the same
  order on the left.
\<close>

definition live :: "'k heap \<Rightarrow> u64 set \<Rightarrow> u64 \<Rightarrow> u64 \<Rightarrow> bool" where
  "live h B p sz \<longleftrightarrow> p - block_hdr_size \<in> B \<and> is_free (hdr h (p - block_hdr_size)) = 0 \<and>
     unat sz + 32 \<le> bsz (blk_order (hdr h (p - block_hdr_size)))"

definition heap_consistent :: "table \<Rightarrow> 'k heap \<Rightarrow> bool" where
  "heap_consistent A h \<longleftrightarrow> galloc h \<noteq> 0 \<and>
     (\<exists>B L. heap_ok h B L {} \<and> (\<forall>(p, sz) \<in> A. live h B p sz) \<and> inj_on fst A)"

definition free_within :: "u64 \<Rightarrow> 'k heap \<Rightarrow> bool" where
  "free_within p h \<longleftrightarrow>
     (let b = p - block_hdr_size; e = buddy (hdr h b); k = blk_order (hdr h b)
      in p \<noteq> 0 \<and> e \<noteq> b \<and> (e = 0 \<or> is_free (hdr h e) = 0 \<or> blk_order (hdr h e) \<noteq> k \<or>
           (e = b + order_bytes k \<and> e < heap_start (alloc h) + heap_size (alloc h))))"

lemma unat_payload:
  assumes "blocks_ok h B" "b \<in> B"
  shows "unat (b + block_hdr_size) = unat b + 32"
proof -
  have "unat b + 32 < 2 ^ 64"
    using blocks_okD(6) [OF assms] bsz_ge [of "blk_order (hdr h b)"] by linarith
  then show ?thesis by (simp add: block_hdr_size_def unat_word_ariths)
qed

lemma live_apart:
  assumes "blocks_ok h B" "live h B p m" "live h B q n" "p \<noteq> q"
  shows "unat p + unat m < unat q \<or> unat q + unat n < unat p"
proof -
  let ?b = "p - block_hdr_size" and ?c = "q - block_hdr_size"
  have "?b \<in> B" "?c \<in> B" "?b \<noteq> ?c" using assms by (auto simp: live_def)
  moreover from this have "unat p = unat ?b + 32" "unat q = unat ?c + 32"
    using unat_payload [OF assms(1), of ?b] unat_payload [OF assms(1), of ?c] by simp_all
  ultimately show ?thesis
    using blocks_ok_apart [OF assms(1), of ?b ?c] assms(2,3) unfolding live_def by linarith
qed

lemma live_bound:
  assumes "blocks_ok h B" "live h B p m"
  shows "unat (heap_start (alloc h)) + 32 \<le> unat p"
    "unat p + unat m \<le> unat (heap_start (alloc h)) + unat (heap_size (alloc h))"
    "unat p + unat m < 2 ^ 64"
proof -
  let ?b = "p - block_hdr_size"
  have b: "?b \<in> B" using assms(2) by (simp add: live_def)
  have "unat p = unat ?b + 32" using unat_payload [OF assms(1) b] by simp
  moreover have "unat m + 32 \<le> bsz (blk_order (hdr h ?b))" using assms(2) by (simp add: live_def)
  ultimately show "unat (heap_start (alloc h)) + 32 \<le> unat p"
    "unat p + unat m \<le> unat (heap_start (alloc h)) + unat (heap_size (alloc h))"
    "unat p + unat m < 2 ^ 64"
    using blocks_okD(4-6) [OF assms(1) b] by linarith+
qed

lemma heap_consistentE:
  assumes "heap_consistent A h"
  obtains B L where "galloc h \<noteq> 0" "heap_ok h B L {}" "\<And>p m. (p, m) \<in> A \<Longrightarrow> live h B p m"
    "inj_on fst A"
proof -
  obtain B L where "heap_ok h B L {}" "\<forall>(p, m) \<in> A. live h B p m"
    using assms unfolding heap_consistent_def by blast
  then show ?thesis using assms by (intro that [of B L]) (auto simp: heap_consistent_def)
qed

lemma heap_consistent_apart: "heap_consistent A h \<Longrightarrow> payloads_apart A"
proof -
  assume c: "heap_consistent A h"
  obtain B L where ok: "heap_ok h B L {}" and A: "\<And>p m. (p, m) \<in> A \<Longrightarrow> live h B p m"
    and inj: "inj_on fst A" using heap_consistentE [OF c] by metis
  note B = heap_okD(1) [OF ok]
  have "unat p + unat m < 2 ^ 64" if "(p, m) \<in> A" for p m
    using live_bound(3) [OF B A [OF that]] .
  moreover have "(p, m) = (q, n) \<or> unat p + unat m < unat q \<or> unat q + unat n < unat p"
    if "(p, m) \<in> A" "(q, n) \<in> A" for p m q n
  proof (cases "p = q")
    case True
    then show ?thesis using inj_onD [OF inj _ that] by simp
  next
    case False
    then show ?thesis using live_apart [OF B A [OF that(1)] A [OF that(2)]] by blast
  qed
  ultimately show ?thesis unfolding payloads_apart_def by blast
qed

text \<open>The table of live allocations over the blocks \<open>B\<close> of the pool.\<close>

definition heap_table :: "table \<Rightarrow> 'k heap \<Rightarrow> u64 set \<Rightarrow> (int \<Rightarrow> u64 list) \<Rightarrow> bool" where
  "heap_table A h B L \<longleftrightarrow>
     galloc h \<noteq> 0 \<and> heap_ok h B L {} \<and> (\<forall>(p, sz) \<in> A. live h B p sz) \<and> inj_on fst A"

lemma heap_consistent_table: "heap_consistent A h \<longleftrightarrow> (\<exists>B L. heap_table A h B L)"
  by (auto simp: heap_consistent_def heap_table_def)

text \<open>Both operations leave the pool and the state outside the allocator as they are.\<close>

lemma malloc_table:
  assumes t: "heap_table A h B L" and s: "served sz h"
  shows "\<exists>b k h' B' L'. malloc K sz h = Some (b + block_hdr_size, h') \<and> alloc_result b k B h h' B' L' \<and>
    heap_table (insert (b + block_hdr_size, sz) A) h' B' L' \<and> b + block_hdr_size \<notin> fst ` A \<and> b + block_hdr_size \<noteq> 0"
proof -
  have ok: "heap_ok h B L {}" and A: "\<And>p m. (p, m) \<in> A \<Longrightarrow> live h B p m" and inj: "inj_on fst A"
    using t by (auto simp: heap_table_def)
  obtain b h' B' L' where run: "malloc K sz h = Some (b + block_hdr_size, h')"
    and r: "alloc_result b (get_order (sz + block_hdr_size)) B h h' B' L'"
    and fits: "unat sz + 32 \<le> bsz (get_order (sz + block_hdr_size))"
    using malloc_served [OF ok s] by blast
  have new: "live h' B' (b + block_hdr_size) sz"
    using r fits by (auto simp: live_def alloc_result_def)
  have fresh: "b + block_hdr_size \<notin> fst ` A"
    using A r by (force simp: live_def alloc_result_def)
  have old: "live h' B' p m" if "(p, m) \<in> A" for p m
  proof -
    have l: "live h B p m" using A that by blast
    then have "p - block_hdr_size \<noteq> b" using r by (auto simp: live_def alloc_result_def)
    then show ?thesis using l r by (auto simp: live_def alloc_result_def)
  qed
  have "inj_on fst (insert (b + block_hdr_size, sz) A)"
    using inj fresh by (force simp: inj_on_def)
  then have "heap_table (insert (b + block_hdr_size, sz) A) h' B' L'"
    unfolding heap_table_def using r t new old
    by (auto simp: alloc_result_def heap_table_def same_pool_def)
  moreover have "b + block_hdr_size \<noteq> 0"
    using live_bound(1) [OF heap_okD(1) [of h' B' L' "{}"] new] r unat_eq_0 [of "b + block_hdr_size"]
    by (auto simp: alloc_result_def)
  ultimately show ?thesis using run fresh r by blast
qed

lemma malloc_consistent_pool:
  assumes c: "heap_consistent A h" and s: "served sz h"
  shows "\<exists>p h'. malloc K sz h = Some (p, h') \<and> heap_consistent (insert (p, sz) A) h' \<and> p \<notin> fst ` A \<and>
    p \<noteq> 0 \<and> same_pool h h'"
proof -
  obtain B L where "heap_table A h B L" using c heap_consistent_table by blast
  from malloc_table [OF this s, of K] show ?thesis
    unfolding heap_consistent_table alloc_result_def by blast
qed

lemma malloc_consistent:
  "heap_consistent A h \<Longrightarrow> served sz h \<Longrightarrow>
   \<exists>p h'. malloc K sz h = Some (p, h') \<and> heap_consistent (insert (p, sz) A) h' \<and> p \<notin> fst ` A"
  using malloc_consistent_pool [of A h sz K] by blast

lemma free_within_right:
  assumes "heap_ok h B L {}" and b: "b \<in> B" and "free_within (b + block_hdr_size) h"
  shows "partner_right h B b"
proof (cases "buddy (hdr h b) = b + order_bytes (blk_order (hdr h b)) \<and>
    buddy (hdr h b) < heap_start (alloc h) + heap_size (alloc h)")
  case True
  have ok: "blocks_ok h B" using heap_okD(1) [OF assms(1)] .
  let ?e = "b + order_bytes (blk_order (hdr h b))"
  have u: "unat ?e = unat b + bsz (blk_order (hdr h b))" by (rule unat_block_end [OF ok b]) simp
  moreover have "unat ?e < unat (heap_start (alloc h)) + unat (heap_size (alloc h))"
  proof -
    have "?e < heap_start (alloc h) + heap_size (alloc h)" using True by argo
    then show ?thesis unfolding word_less_nat_alt by (rule order_less_le_trans) (rule unat_add_le)
  qed
  ultimately obtain c where "c \<in> B" "unat c = unat ?e" using blocks_ok_next [OF ok b] by auto
  then have "?e \<in> B" by (simp only: word_unat_eq_iff [symmetric])
  with True assms(3) show ?thesis by (simp add: partner_right_def free_within_def Let_def)
next
  case False
  with assms(3) show ?thesis by (auto simp: partner_right_def free_within_def Let_def)
qed

lemma free_table:
  assumes t: "heap_table A h B L" and p: "(p, sz) \<in> A" and w: "free_within p h"
  shows "\<exists>h' B' L'. free p h = Some h' \<and> free_result (p - block_hdr_size) B h h' B' L' \<and> heap_table (A - {(p, sz)}) h' B' L'"
proof -
  have ok: "heap_ok h B L {}" and A: "\<And>p m. (p, m) \<in> A \<Longrightarrow> live h B p m" and inj: "inj_on fst A"
    using t by (auto simp: heap_table_def)
  let ?b = "p - block_hdr_size"
  have b: "?b \<in> B" "is_free (hdr h ?b) = 0" using A [OF p] by (auto simp: live_def)
  have w': "free_within (?b + block_hdr_size) h" "?b + block_hdr_size \<noteq> 0"
    using w by (simp_all add: free_within_def Let_def)
  obtain h' B' L' where run: "free p h = Some h'" and r: "free_result ?b B h h' B' L'"
    using free_ok [OF ok b _ w'(2) free_within_right [OF ok b(1) w'(1)]] t
    by (auto simp: heap_table_def)
  have "live h' B' q m" if "(q, m) \<in> A - {(p, sz)}" for q m
  proof -
    have l: "live h B q m" using A that by blast
    have "q \<noteq> p" using inj_onD [OF inj, of "(q, m)" "(p, sz)"] that p by auto
    then have "q - block_hdr_size \<noteq> ?b" by simp
    then show ?thesis using l r by (simp add: live_def free_result_def)
  qed
  moreover have "inj_on fst (A - {(p, sz)})" using inj by (rule inj_on_subset) blast
  ultimately have "heap_table (A - {(p, sz)}) h' B' L'"
    unfolding heap_table_def using r t
    by (auto simp: free_result_def heap_table_def same_pool_def)
  then show ?thesis using run r by blast
qed

lemma free_consistent_pool:
  assumes c: "heap_consistent A h" and p: "(p, sz) \<in> A" and w: "free_within p h"
  shows "\<exists>h'. free p h = Some h' \<and> heap_consistent (A - {(p, sz)}) h' \<and> same_pool h h'"
proof -
  obtain B L where "heap_table A h B L" using c heap_consistent_table by blast
  from free_table [OF this p w] show ?thesis
    unfolding heap_consistent_table free_result_def by blast
qed

lemma free_consistent:
  "heap_consistent A h \<Longrightarrow> (p, sz) \<in> A \<Longrightarrow> free_within p h \<Longrightarrow>
   \<exists>h'. free p h = Some h' \<and> heap_consistent (A - {(p, sz)}) h'"
  using free_consistent_pool [of A h p sz] by blast

text \<open>The allocator's state does not depend on memory and kernel.\<close>

lemma heap_consistent_cong:
  "hdr h' = hdr h \<Longrightarrow> alloc h' = alloc h \<Longrightarrow> galloc h' = galloc h \<Longrightarrow> heap_consistent A h' = heap_consistent A h"
  by (simp add: heap_consistent_def heap_ok_def blocks_ok_def lists_ok_def live_def)

lemma free_within_cong:
  "hdr h' = hdr h \<Longrightarrow> alloc h' = alloc h \<Longrightarrow> free_within p h' = free_within p h"
  by (simp add: free_within_def)

text \<open>
  No leak: the blocks cover the whole pool and every block in use is the block of a live allocation.
  (Consistency alone allows blocks in use that the table does not list.)
\<close>

definition heap_exact :: "table \<Rightarrow> 'k heap \<Rightarrow> bool" where
  "heap_exact A h \<longleftrightarrow> (\<exists>B L. heap_table A h B L \<and> bytes_total h B = unat (heap_size (alloc h)) \<and>
     (\<forall>b \<in> B. is_free (hdr h b) = 0 \<longrightarrow> b + block_hdr_size \<in> fst ` A))"

lemma heap_exact_consistent: "heap_exact A h \<Longrightarrow> heap_consistent A h"
  by (auto simp: heap_exact_def heap_consistent_table)

lemma malloc_exact:
  assumes "heap_exact A h" and s: "served sz h"
  shows "\<exists>p h'. malloc K sz h = Some (p, h') \<and> heap_exact (insert (p, sz) A) h' \<and> p \<notin> fst ` A \<and> p \<noteq> 0 \<and> same_pool h h'"
proof -
  obtain B L where t: "heap_table A h B L" "bytes_total h B = unat (heap_size (alloc h))"
      "\<forall>b \<in> B. is_free (hdr h b) = 0 \<longrightarrow> b + block_hdr_size \<in> fst ` A"
    using assms(1) by (auto simp: heap_exact_def)
  obtain b k h' B' L' where m: "malloc K sz h = Some (b + block_hdr_size, h')" "alloc_result b k B h h' B' L'"
      "heap_table (insert (b + block_hdr_size, sz) A) h' B' L'" "b + block_hdr_size \<notin> fst ` A" "b + block_hdr_size \<noteq> 0"
    using malloc_table [OF t(1) s] by blast
  have "c + block_hdr_size \<in> fst ` insert (b + block_hdr_size, sz) A" if "c \<in> B'" "is_free (hdr h' c) = 0" for c
    using m(2) t(3) that by (cases "c = b") (auto simp: alloc_result_def)
  then have "heap_exact (insert (b + block_hdr_size, sz) A) h'"
    unfolding heap_exact_def using m(2,3) t(2) by (auto simp: alloc_result_def same_pool_def)
  with m show ?thesis by (auto simp: alloc_result_def)
qed

lemma free_exact:
  assumes "heap_exact A h" and p: "(p, sz) \<in> A" and w: "free_within p h"
  shows "\<exists>h'. free p h = Some h' \<and> heap_exact (A - {(p, sz)}) h' \<and> same_pool h h'"
proof -
  obtain B L where t: "heap_table A h B L" "bytes_total h B = unat (heap_size (alloc h))"
      "\<forall>b \<in> B. is_free (hdr h b) = 0 \<longrightarrow> b + block_hdr_size \<in> fst ` A"
    using assms(1) by (auto simp: heap_exact_def)
  let ?b = "p - block_hdr_size"
  obtain h' B' L' where f: "free p h = Some h'" "free_result ?b B h h' B' L'" "heap_table (A - {(p, sz)}) h' B' L'"
    using free_table [OF t(1) p w] by blast
  have "c + block_hdr_size \<in> fst ` (A - {(p, sz)})" if "c \<in> B'" "is_free (hdr h' c) = 0" for c
  proof -
    have "c \<noteq> ?b" using f(2) that by (auto simp: free_result_def)
    then have "c \<in> B" "is_free (hdr h c) = 0" using f(2) that by (auto simp: free_result_def)
    then have "c + block_hdr_size \<in> fst ` A" "c + block_hdr_size \<noteq> p"
      using t(3) \<open>c \<noteq> ?b\<close> by auto
    then show ?thesis by force
  qed
  then have "heap_exact (A - {(p, sz)}) h'"
    unfolding heap_exact_def using f(2,3) t(2) by (auto simp: free_result_def same_pool_def)
  with f show ?thesis by (auto simp: free_result_def)
qed

lemma heap_exact_cong:
  "hdr h' = hdr h \<Longrightarrow> alloc h' = alloc h \<Longrightarrow> galloc h' = galloc h \<Longrightarrow> heap_exact A h' = heap_exact A h"
  by (simp add: heap_exact_def heap_table_def heap_ok_def blocks_ok_def lists_ok_def live_def bytes_total_def)

interpretation buddy: memory_allocator "malloc K" free served free_within heap_consistent for K
  by unfold_locales (auto intro: malloc_consistent free_consistent heap_consistent_apart)

text \<open>The contract holds with this stronger relation too, and the heap starts in it.\<close>

interpretation leak_free: memory_allocator "malloc K" free served free_within heap_exact for K
proof unfold_locales
  fix A :: table and h :: "'a heap" and sz
  assume "heap_exact A h" "served sz h"
  then show "\<exists>p h'. malloc K sz h = Some (p, h') \<and> heap_exact (insert (p, sz) A) h' \<and> p \<notin> fst ` A"
    using malloc_exact [of A h sz K] by blast
next
  fix A :: table and h :: "'a heap" and p sz
  assume "heap_exact A h" "(p, sz) \<in> A" "free_within p h"
  then show "\<exists>h'. free p h = Some h' \<and> heap_exact (A - {(p, sz)}) h'"
    using free_exact [of A h p sz] by blast
qed (rule heap_consistent_apart [OF heap_exact_consistent])

lemma init_exact:
  assumes "galloc h = 0" and "ensure_allocator_init K h = (a, h')" and "a \<noteq> 0"
    and "heap_start (alloc h') = p" "p \<noteq> 0" "unat p + 2 ^ 20 < 2 ^ 64"
  shows "heap_exact {} h'"
  using init_ok [OF assms] assms(3)
  by (auto simp: heap_exact_def heap_table_def intro!: exI [of _ "{p}"])

end
