(* ===== verification/Malloc_Claims.thy ===== *)
theory Malloc_Claims
  imports Malloc_Client
begin

text \<open>
  The properties of the allocator of malloc.c, with a concrete kernel and a concrete heap they
  are applied to.
\<close>

subsection \<open>A concrete kernel\<close>

text \<open>Its state is the next address it maps; \<open>mmap\<close> hands out consecutive regions.\<close>

definition demo_kernel :: "u64 kernel" where
  "demo_kernel k m nr args =
     (if nr = 222 then case args of _ # RX sz # _ \<Rightarrow> (k, m, k + mini_align sz 4096) | _ \<Rightarrow> (- 22, m, k)
      else (- 38, m, k))"

definition empty_heap :: "u64 heap" where
  "empty_heap = \<lparr>hdr = (\<lambda>_. \<lparr>blk_size = 0, blk_order = 0, is_free = 0, next_free = 0, buddy = 0\<rparr>),
     galloc = 0, alloc = \<lparr>free_lists = replicate 32 0, heap_start = 0, heap_size = 0\<rparr>, printed = [],
     hw = \<lparr>wmem = (\<lambda>_. 0), kst = 0x10000\<rparr>\<rparr>"

definition demo_heap :: "u64 heap" where
  "demo_heap = snd (ensure_allocator_init demo_kernel empty_heap)"

lemma demo_init: "ensure_allocator_init demo_kernel empty_heap = (0x10000, demo_heap)
    \<and> heap_start (alloc demo_heap) = 0x11000 \<and> kst (hw demo_heap) = 0x111000"
proof -
  have a: "mini_align 272 4096 = 4096" "mini_align 1048576 4096 = 1048576"
    by (simp_all add: mini_align_def)
  have s: "sint (272 :: u64) = 272" "sint (1048576 :: u64) = 1048576" "sint (4096 :: u64) = 4096"
    by simp_all
  have ord: "get_order 1048576 = 14" by (rule get_order_bsz) (simp_all add: bsz_def)
  have big: "push_bit 20 1 = (1048576 :: u64)" by (simp add: push_bit_eq_mult)
  show ?thesis
    by (simp add: demo_heap_def ensure_allocator_init_def empty_heap_def buddy_init_def big Let_def
        heap_mmap_def mmap_def raw_mmap_def svc_def demo_kernel_def a s ord set_head_def)
qed

lemma demo_facts:
  "heap_ok demo_heap {0x11000} (\<lambda>k. if k = 14 then [0x11000] else []) {}"
  "galloc demo_heap = 0x10000" "heap_size (alloc demo_heap) = 2 ^ 20"
  "hdr demo_heap 0x11000 = \<lparr>blk_size = 2 ^ 20 - block_hdr_size, blk_order = 14, is_free = 1,
     next_free = 0, buddy = 0\<rparr>"
  using init_ok [of empty_heap demo_kernel "0x10000" demo_heap "0x11000"] demo_init
  by (simp_all add: empty_heap_def)

lemma demo_heads:
  assumes "0 \<le> k" "k < 32"
  shows "get_head (alloc demo_heap) k = (if k = 14 then 0x11000 else 0)"
  using heap_okD(4) [OF demo_facts(1) assms] by (simp split: if_splits)

lemma find_order_intro:
  "k \<le> c \<Longrightarrow> c < 32 \<Longrightarrow> get_head (alloc h) c \<noteq> 0 \<Longrightarrow> find_order h k \<noteq> None"
  using find_order_None [of h k c] by blast

lemma demo_served: "unat sz + 32 \<le> 2 ^ 20 \<Longrightarrow> served sz demo_heap"
proof -
  assume sz: "unat sz + 32 \<le> 2 ^ 20"
  then have u: "unat (sz + block_hdr_size) = unat sz + 32"
    by (simp add: block_hdr_size_def unat_word_ariths)
  have "get_order (sz + block_hdr_size) \<le> 14"
    by (rule get_order_le) (use sz u in \<open>simp_all add: bsz_def\<close>)
  then have "find_order demo_heap (get_order (sz + block_hdr_size)) \<noteq> None"
    by (rule find_order_intro) (simp_all add: demo_heads)
  with sz show ?thesis by (simp add: served_def demo_facts)
qed

lemma demo_consistent: "heap_consistent {} demo_heap"
  unfolding heap_consistent_def using demo_facts(1,2) by auto

subsection \<open>Calls within the contract\<close>

text \<open>C2. A request the pool can serve returns: the payload lies inside the pool, is as large as
  requested, touches the payload of no block in use, and the heap invariant holds again with every
  block that was in use untouched and no byte of the pool lost.\<close>

theorem malloc_returns_payload:
  assumes "heap_ok h B L {}" and "served sz h"
  shows "\<exists>p h' B' L'. malloc K sz h = Some (p, h') \<and> heap_ok h' B' L' {} \<and>
    unat (heap_start (alloc h)) + 32 \<le> unat p \<and>
    unat p + unat sz \<le> unat (heap_start (alloc h)) + unat (heap_size (alloc h)) \<and>
    is_free (hdr h' (p - block_hdr_size)) = 0 \<and>
    (\<forall>c \<in> B. is_free (hdr h c) = 0 \<longrightarrow> c \<in> B' \<and> hdr h' c = hdr h c \<and>
       (unat c + bsz (blk_order (hdr h c)) + 32 \<le> unat p \<or> unat p + unat sz \<le> unat c)) \<and>
    bytes_total h' B' = bytes_total h B"
proof -
  obtain b h' B' L' where run: "malloc K sz h = Some (b + block_hdr_size, h')"
    and r: "alloc_result b (get_order (sz + block_hdr_size)) B h h' B' L'"
    and fits: "unat sz + 32 \<le> bsz (get_order (sz + block_hdr_size))"
    using malloc_served [OF assms] by blast
  let ?p = "b + block_hdr_size"
  have ok: "blocks_ok h' B'" "b \<in> B'" using r by (auto simp: alloc_result_def heap_ok_def)
  have l: "live h' B' ?p sz" using r fits ok(2) by (simp add: live_def alloc_result_def)
  have u: "unat ?p = unat b + 32" by (rule unat_payload [OF ok])
  have used: "c \<in> B' \<and> hdr h' c = hdr h c \<and>
      (unat c + bsz (blk_order (hdr h c)) + 32 \<le> unat ?p \<or> unat ?p + unat sz \<le> unat c)"
    if "c \<in> B" "is_free (hdr h c) = 0" for c
  proof -
    have c: "c \<noteq> b" "c \<in> B'" "hdr h' c = hdr h c"
      using r that by (auto simp: alloc_result_def)
    moreover have "blk_order (hdr h' b) = get_order (sz + block_hdr_size)"
      using r by (simp add: alloc_result_def)
    ultimately show ?thesis
      using blocks_ok_apart [OF ok c(2)] fits u by fastforce
  qed
  have pool: "alloc h' = alloc h \<or> heap_start (alloc h') = heap_start (alloc h) \<and>
      heap_size (alloc h') = heap_size (alloc h)"
    using r by (simp add: alloc_result_def same_pool_def)
  show ?thesis
    by (intro exI [of _ ?p] exI [of _ h'] exI [of _ B'] exI [of _ L'])
      (use run r used live_bound [OF ok(1) l] pool in \<open>auto simp: alloc_result_def\<close>)
qed

theorem malloc_returns_payload_witness:
  "\<exists>p h' B' L'. malloc demo_kernel 100 demo_heap = Some (p, h') \<and> heap_ok h' B' L' {} \<and>
    unat p + 100 \<le> 0x111000"
proof -
  have "served 100 demo_heap" by (rule demo_served) simp
  from malloc_returns_payload [OF demo_facts(1) this, of demo_kernel] show ?thesis
    using demo_init demo_facts(3) by auto
qed

text \<open>C3. Freeing a block in use whose recorded partner is not a free block of its order on the
  left returns: the heap invariant holds again, the block (grown by the free blocks behind it) is
  on a free list, every other block in use is untouched and no byte of the pool is lost.\<close>

theorem free_returns_block:
  assumes "heap_ok h B L {}" and "galloc h \<noteq> 0" and "b \<in> B" and "is_free (hdr h b) = 0"
    and "free_within (b + block_hdr_size) h"
  shows "\<exists>h' B' L'. free (b + block_hdr_size) h = Some h' \<and> heap_ok h' B' L' {} \<and> b \<in> B' \<and>
    is_free (hdr h' b) \<noteq> 0 \<and> b \<in> set (L' (blk_order (hdr h' b))) \<and>
    (\<forall>c \<in> B. c \<noteq> b \<and> is_free (hdr h c) = 0 \<longrightarrow> c \<in> B' \<and> hdr h' c = hdr h c) \<and>
    bytes_total h' B' = bytes_total h B"
proof -
  have p: "b + block_hdr_size \<noteq> 0" using assms(5) by (simp add: free_within_def Let_def)
  obtain h' B' L' where run: "free (b + block_hdr_size) h = Some h'"
    and r: "free_result b B h h' B' L'"
    using free_ok [OF assms(1,3,4,2) p free_within_right [OF assms(1,3,5)]] by blast
  have ok: "heap_ok h' B' L' {}" "b \<in> B'" using r by (auto simp: free_result_def)
  have "b \<in> set (L' (blk_order (hdr h' b)))"
    using heap_okD(5) [OF ok(1), of "blk_order (hdr h' b)" b] ok(2) r
      blocks_okD(2,3) [OF heap_okD(1) [OF ok(1)] ok(2)] by (simp add: free_result_def)
  with run r show ?thesis unfolding free_result_def by blast
qed

theorem free_returns_block_witness:
  "\<exists>h h'. malloc demo_kernel 600000 demo_heap = Some (0x11020, h) \<and> free 0x11020 h = Some h' \<and>
    is_free (hdr h' 0x11000) \<noteq> 0"
proof -
  have s: "served 600000 demo_heap" by (rule demo_served) simp
  have ord: "get_order (600000 + block_hdr_size) = 14"
  proof (rule order_antisym)
    show "get_order (600000 + block_hdr_size) \<le> 14"
      by (rule get_order_le) (simp_all add: block_hdr_size_def bsz_def)
    show "14 \<le> get_order (600000 + block_hdr_size)"
    proof (rule ccontr)
      assume "\<not> 14 \<le> get_order (600000 + block_hdr_size)"
      then have "bsz (get_order (600000 + block_hdr_size)) \<le> bsz 13" "get_order (600000 + block_hdr_size) < 32"
        by (simp_all add: bsz_mono)
      with get_order_spec [of "600000 + block_hdr_size"] show False
        by (simp add: block_hdr_size_def bsz_def)
    qed
  qed
  have f: "find_order demo_heap 14 = Some 14"
    by (simp add: find_order.simps [of demo_heap 14] demo_heads)
  obtain h1 B' L' where run: "malloc demo_kernel 600000 demo_heap = Some (0x11020, h1)"
    and r: "alloc_result 0x11000 14 {0x11000} demo_heap h1 B' L'"
    and hdr: "hdr h1 0x11000 = (hdr demo_heap 0x11000)\<lparr>is_free := 0, next_free := 0\<rparr>"
  proof -
    have m: "malloc demo_kernel 600000 demo_heap = take_block 14 14 demo_heap"
      using malloc_take [OF s, of 14] f by (simp add: ord)
    obtain h1 B' L' where t: "take_block 14 14 demo_heap = Some (0x11000 + block_hdr_size, h1)"
        "alloc_result 0x11000 14 {0x11000} demo_heap h1 B' L'"
      using take_block_ok [OF demo_facts(1), of 14 14] by (auto simp: demo_heads)
    have "hdr h1 0x11000 = (hdr demo_heap 0x11000)\<lparr>is_free := 0, next_free := 0\<rparr>"
      using t(1) by (auto simp: take_block_def Let_def demo_heads)
    then show ?thesis using that [of h1 B' L'] m t by (simp add: block_hdr_size_def)
  qed
  have w: "free_within (0x11000 + block_hdr_size) h1"
    by (simp add: free_within_def hdr demo_facts block_hdr_size_def)
  have b: "0x11000 \<in> B'" using r by (auto simp: alloc_result_def)
  have "\<exists>h'. free (0x11000 + block_hdr_size) h1 = Some h' \<and> is_free (hdr h' 0x11000) \<noteq> 0"
    using free_returns_block [of h1 B' L' "0x11000"] r b w
    by (auto simp: alloc_result_def same_pool_def demo_facts)
  with run show ?thesis by (simp add: block_hdr_size_def)
qed

text \<open>C1. From the first call on, whatever sequence of \<open>malloc\<close> and \<open>free\<close> calls a client makes
  within the contract (requests the pool serves without growing, no block freed while a free
  partner of its order lies to its left), its live allocations are pairwise disjoint and inside
  the pool.\<close>

theorem malloc_client_safe:
  assumes "galloc h0 = 0" and "ensure_allocator_init K h0 = (a, h)" and "a \<noteq> 0"
    and "heap_start (alloc h) \<noteq> 0" and "unat (heap_start (alloc h)) + 2 ^ 20 < 2 ^ 64"
    and "(client_step (malloc K) free served free_within)\<^sup>*\<^sup>* ({}, h) (A, h')"
  shows "payloads_apart A \<and> (\<exists>B L. heap_ok h' B L {} \<and> (\<forall>(p, m) \<in> A. live h' B p m))"
proof -
  have "heap_consistent {} h"
    unfolding heap_consistent_def using init_ok [OF assms(1-3) refl assms(4,5)] assms(3) by auto
  then have "heap_consistent A h'" using buddy.run_consistent [OF assms(6)] by simp
  then show ?thesis
    using heap_consistent_apart by (auto simp: heap_consistent_def)
qed

theorem malloc_client_safe_witness:
  "\<exists>p h'. (client_step (malloc demo_kernel) free served free_within)\<^sup>*\<^sup>* ({}, demo_heap) ({(p, 100)}, h')
    \<and> payloads_apart {(p, 100)}"
proof -
  have s: "served 100 demo_heap" by (rule demo_served) simp
  obtain p h' where m: "malloc demo_kernel 100 demo_heap = Some (p, h')"
    using malloc_consistent [OF demo_consistent s, of demo_kernel] by auto
  have run: "(client_step (malloc demo_kernel) free served free_within)\<^sup>*\<^sup>* ({}, demo_heap) ({(p, 100)}, h')"
    using step_alloc [of served 100 demo_heap "malloc demo_kernel" p h' free free_within "{}"] s m
    by (intro r_into_rtranclp) simp
  have "payloads_apart {(p, 100)}"
    using malloc_client_safe [OF _ conjunct1 [OF demo_init] _ _ _ run] conjunct2 [OF demo_init]
    by (simp add: empty_heap_def)
  with run show ?thesis by blast
qed

text \<open>\<open>get_order\<close> is the least order whose blocks are as large as the request, capped at 32.\<close>

theorem get_order_least:
  "0 \<le> get_order sz \<and> get_order sz \<le> 32 \<and>
   (\<forall>j \<in> {0..<get_order sz}. unat (order_bytes j) < unat sz) \<and>
   (get_order sz < 32 \<longrightarrow> unat sz \<le> unat (order_bytes (get_order sz)))"
  using get_order_spec [of sz] by (auto simp: unat_order_bytes)

theorem get_order_least_witness: "get_order 4096 < 32 \<and> unat (4096 :: u64) \<le> unat (order_bytes (get_order 4096))"
proof -
  have "get_order 4096 = 6" by (rule get_order_bsz) (simp_all add: bsz_def)
  then show ?thesis using get_order_least [of 4096] by simp
qed

end
