(* ===== verification/Malloc_Bugs.thy ===== *)
theory Malloc_Bugs
  imports Malloc_Claims
begin

text \<open>
  What the allocator does outside the contract: growing the pool inserts the new block in its
  list twice, and freeing a block whose free partner lies to its left leaves that partner on two
  lists. Either way a later pair of calls returns the same address twice. The loop that computes
  the new pool size is characterised exactly.
\<close>

subsection \<open>Growing the pool\<close>

lemma heap_mmap_fields:
  "heap_mmap K sz h = (p, h1) \<Longrightarrow> hdr h1 = hdr h \<and> alloc h1 = alloc h \<and> galloc h1 = galloc h"
  by (auto simp: heap_mmap_def split: prod.splits)

lemma get_order_exact:
  assumes "0 \<le> k" "unat sz \<le> bsz k" "bsz k < 2 * unat sz" "k < 32"
  shows "get_order sz = k"
proof (rule order_antisym)
  show "get_order sz \<le> k" by (rule get_order_le [OF assms(1,2)])
  show "k \<le> get_order sz"
  proof (rule ccontr)
    assume lt: "\<not> k \<le> get_order sz"
    show False
    proof (cases "get_order sz < 32")
      case True
      have "bsz (get_order sz + 1) \<le> bsz k" using lt by (intro bsz_mono) simp
      moreover have "bsz (get_order sz + 1) = 2 * bsz (get_order sz)"
        using get_order_spec [of sz] by (intro bsz_Suc) blast
      moreover have "unat sz \<le> bsz (get_order sz)" using get_order_spec [of sz] True by blast
      ultimately show False using assms(3) by linarith
    next
      case False
      then show False using lt assms(4) by linarith
    qed
  qed
qed

text \<open>The block returned by \<open>mmap\<close> ends up as its own successor, at the head of its list.\<close>

lemma expand_self_loop:
  assumes new: "grow_size (heap_size (alloc h) * 2) req = Some sz" and map: "heap_mmap K sz h = (p, h1)"
    and p: "p \<noteq> MAP_FAILED" and st: "heap_start (alloc h) \<noteq> 0"
    and len: "length (free_lists (alloc h)) = 32" and k: "get_order sz = k" "k < 32"
  shows "\<exists>h'. expand_memory_pool K req h = Some (1, h') \<and> get_head (alloc h') k = p \<and>
    next_free (hdr h' p) = p \<and> blk_order (hdr h' p) = k \<and> galloc h' = galloc h \<and>
    heap_size (alloc h') = heap_size (alloc h) + sz \<and> length (free_lists (alloc h')) = 32"
proof -
  note f = heap_mmap_fields [OF map]
  have k0: "0 \<le> k" using get_order_spec [of sz] k by blast
  let ?v = "\<lparr>blk_size = sz - block_hdr_size, blk_order = k, is_free = 1, next_free = 0, buddy = 0\<rparr>"
  let ?h3 = "upd_block p (\<lambda>b. b\<lparr>next_free := get_head (alloc h) k\<rparr>) (upd_block p (\<lambda>_. ?v) h1)"
  let ?h4 = "upd_head k p ?h3"
  have loop: "merge_loop p ?h4 = Some (p, ?h4)"
    by (simp add: merge_loop.simps [of p ?h4] Let_def)
  then have m: "merge_blocks p ?h4 = Some (push_block p ?h4)" by (simp add: merge_blocks_def)
  have "expand_memory_pool K req h = Some (1, (push_block p ?h4)\<lparr>alloc :=
      (alloc (push_block p ?h4))\<lparr>heap_size := heap_size (alloc (push_block p ?h4)) + sz\<rparr>\<rparr>)"
    using new map p st k m by (simp add: expand_memory_pool_def Let_def f)
  moreover have "get_head (set_head k p (set_head k p (alloc h))\<lparr>heap_size := x\<rparr>) k = p" for x
    using k0 k len by (simp add: get_head_def set_head_def)
  ultimately show ?thesis
    using k0 k len by (simp add: push_block_def Let_def f)
qed

text \<open>A block that is its own successor is allocated without leaving its list.\<close>

lemma take_self_loop:
  assumes k: "0 \<le> k" "k < 32" and p: "get_head (alloc h) k = p" "next_free (hdr h p) = p"
    and len: "length (free_lists (alloc h)) = 32"
  shows "\<exists>h'. take_block k k h = Some (p + block_hdr_size, h') \<and> get_head (alloc h') k = p \<and>
    same_pool h h' \<and> length (free_lists (alloc h')) = 32"
proof -
  let ?h' = "upd_block p (\<lambda>b. b\<lparr>is_free := 0, next_free := 0\<rparr>) (upd_head k p h)"
  have "take_block k k h = Some (p + block_hdr_size, ?h')"
    using p by (simp add: take_block_def Let_def)
  moreover have "get_head (alloc ?h') k = p \<and> same_pool h ?h' \<and> length (free_lists (alloc ?h')) = 32"
    using k len by (simp add: same_pool_def)
  ultimately show ?thesis by blast
qed

lemma find_order_here: "k < 32 \<Longrightarrow> get_head (alloc h) k \<noteq> 0 \<Longrightarrow> find_order h k = Some k"
  by (simp add: find_order.simps [of h k])

lemma malloc_here:
  assumes "galloc h \<noteq> 0" and "unat sz + 32 \<le> unat (heap_size (alloc h))"
    and "get_order (sz + block_hdr_size) = k" "k < 32" and "get_head (alloc h) k \<noteq> 0"
  shows "malloc K sz h = take_block k k h"
  using malloc_take [of sz h k K] find_order_here [of k h] assms by (simp add: served_def)

lemma malloc_after_grow:
  assumes g: "galloc h \<noteq> 0" and big: "\<not> sz + block_hdr_size \<le> heap_size (alloc h)"
    and e: "expand_memory_pool K (sz + block_hdr_size) h = Some (1, h1)"
    and k: "get_order (sz + block_hdr_size) = k" "k < 32" and head: "get_head (alloc h1) k \<noteq> 0"
  shows "malloc K sz h = take_block k k h1"
  using assms find_order_here [of k h1]
  by (simp add: malloc.simps [of K sz h] ensure_allocator_init_def Let_def not_le)

text \<open>When a request makes the pool grow to its double and needs the whole new block, the
  code returns that block, and returns the very same address for the next request of that size:
  the new block was put on its free list once by the expansion and once more by
  \<open>merge_blocks\<close>, so it is its own successor and never leaves the list.\<close>

theorem malloc_grow_same_address_twice:
  assumes "galloc h \<noteq> 0" and "heap_start (alloc h) \<noteq> 0"
    and "length (free_lists (alloc h)) = 32" and "0 \<le> k" and "k < 32"
    and "2 * unat (heap_size (alloc h)) = bsz k"
    and "unat (heap_size (alloc h)) < unat sz + 32" and "unat sz + 32 \<le> bsz k"
    and "heap_mmap K (heap_size (alloc h) * 2) h = (p, h0)" and "p \<noteq> 0" and "p \<noteq> MAP_FAILED"
  shows "\<exists>h1 h2. malloc K sz h = Some (p + block_hdr_size, h1) \<and>
    malloc K sz h1 = Some (p + block_hdr_size, h2)"
proof -
  let ?s = "heap_size (alloc h)"
  have small: "bsz k \<le> 2 ^ 38" using assms(5) by (intro bsz_small) simp
  have t: "unat (sz + block_hdr_size) = unat sz + 32"
    using assms(8) small by (simp add: block_hdr_size_def unat_word_ariths)
  have d: "unat (?s * 2) = bsz k"
    using assms(6) small by (simp add: unat_word_ariths mult.commute)
  have grow: "grow_size (?s * 2) (sz + block_hdr_size) = Some (?s * 2)"
    using assms(8) by (simp add: grow_size.simps [of "?s * 2"] word_less_nat_alt d t)
  have ordn: "get_order (?s * 2) = k" by (rule get_order_bsz [OF assms(4,5) d])
  have ord: "get_order (sz + block_hdr_size) = k"
    by (rule get_order_exact) (use assms(4-8) t in simp_all)
  obtain h1 where e: "expand_memory_pool K (sz + block_hdr_size) h = Some (1, h1)"
      "get_head (alloc h1) k = p" "next_free (hdr h1 p) = p" "galloc h1 = galloc h"
      "heap_size (alloc h1) = ?s + ?s * 2" "length (free_lists (alloc h1)) = 32"
    using expand_self_loop [OF grow assms(9,11,2,3) ordn assms(5)] by blast
  have "unat (?s + ?s * 2) = unat ?s + bsz k"
    using d assms(6) small by (simp add: unat_word_ariths)
  then have fits: "unat sz + 32 \<le> unat (heap_size (alloc h1))" using assms(8) e(5) by simp
  have big: "\<not> sz + block_hdr_size \<le> ?s" using assms(7) t by (simp add: word_le_nat_alt)
  have m1: "malloc K sz h = take_block k k h1"
    by (rule malloc_after_grow [OF assms(1) big e(1) ord assms(5)]) (simp add: e assms(10))
  obtain h2 where h2: "take_block k k h1 = Some (p + block_hdr_size, h2)"
      "get_head (alloc h2) k = p" "same_pool h1 h2"
    using take_self_loop [OF assms(4,5) e(2,3,6)] by blast
  have m2: "malloc K sz h2 = take_block k k h2"
    by (rule malloc_here [OF _ _ ord assms(5)])
      (use h2 e(4) fits assms(1,10) in \<open>simp_all add: same_pool_def\<close>)
  have "\<exists>h3. take_block k k h2 = Some (p + block_hdr_size, h3)"
    using h2(2) by (simp add: take_block_def Let_def)
  with m1 m2 h2 show ?thesis by auto
qed

theorem malloc_grow_same_address_twice_witness:
  "\<exists>p h1 h2. malloc demo_kernel 2000000 demo_heap = Some (p, h1) \<and> malloc demo_kernel 2000000 h1 = Some (p, h2)"
proof -
  have len: "length (free_lists (alloc demo_heap)) = 32" using heap_okD(3) [OF demo_facts(1)] .
  obtain h0 where map: "heap_mmap demo_kernel (heap_size (alloc demo_heap) * 2) demo_heap = (0x111000, h0)"
  proof -
    have "mini_align 0x200000 4096 = 0x200000" "sint (0x200000 :: u64) = 0x200000"
      by (simp_all add: mini_align_def)
    then have "fst (heap_mmap demo_kernel (heap_size (alloc demo_heap) * 2) demo_heap) = 0x111000"
      using demo_init by (simp add: heap_mmap_def mmap_def raw_mmap_def svc_def demo_kernel_def demo_facts)
    then show ?thesis using that by (metis prod.collapse)
  qed
  have "\<exists>h1 h2. malloc demo_kernel 2000000 demo_heap = Some (0x111000 + block_hdr_size, h1) \<and>
      malloc demo_kernel 2000000 h1 = Some (0x111000 + block_hdr_size, h2)"
    by (rule malloc_grow_same_address_twice [OF _ _ len _ _ _ _ _ map, of 15])
      (use demo_init in \<open>simp_all add: demo_facts bsz_def MAP_FAILED_def\<close>)
  then show ?thesis by blast
qed

subsection \<open>The size computation\<close>

lemma grow_size_returns:
  "req \<le> s * 2 ^ i \<Longrightarrow> \<forall>j < i. \<not> req \<le> s * 2 ^ j \<Longrightarrow> grow_size s req = Some (s * 2 ^ i)"
proof (induction i arbitrary: s)
  case 0
  then show ?case by (simp add: grow_size.simps [of s req] leD)
next
  case (Suc i)
  have "\<not> req \<le> s * 2 ^ 0" using Suc.prems(2) by blast
  moreover have "grow_size (s * 2) req = Some (s * 2 * 2 ^ i)"
  proof (rule Suc.IH)
    show "req \<le> s * 2 * 2 ^ i" using Suc.prems(1) by (simp add: mult.assoc)
    show "\<forall>j<i. \<not> req \<le> s * 2 * 2 ^ j"
      using Suc.prems(2) by (metis Suc_less_eq mult.assoc power_Suc)
  qed
  ultimately show ?case by (simp add: grow_size.simps [of s req] mult.assoc not_le)
qed

lemma grow_size_reaches: "grow_size s req = Some y \<Longrightarrow> \<exists>i. req \<le> s * 2 ^ i"
proof (rule grow_size.raw_induct [where P = "\<lambda>s req y. \<exists>i. req \<le> s * 2 ^ i"])
  fix g and s req y :: u64
  assume IH: "\<And>s req y. g s req = Some y \<Longrightarrow> \<exists>i. req \<le> s * 2 ^ i"
    and step: "(if s < req then g (s * 2) req else Some s) = Some y"
  show "\<exists>i. req \<le> s * 2 ^ i"
  proof (cases "s < req")
    case True
    then obtain i where "req \<le> s * 2 * 2 ^ i" using IH step by fastforce
    then have "req \<le> s * 2 ^ Suc i" by (simp add: mult.assoc)
    then show ?thesis by blast
  next
    case False
    then have "req \<le> s * 2 ^ 0" by simp
    then show ?thesis by blast
  qed
qed

lemma power_two_wraps: "64 \<le> i \<Longrightarrow> (2 :: u64) ^ i = 0"
  by simp

text \<open>The loop that computes the new pool size ends exactly when one of the first 64 doublings
  of the start value, taken modulo 2 ^ 64, reaches the requirement, and then with the first one that
  does; otherwise the value wraps to 0 and the loop never ends.\<close>

theorem grow_size_exact:
  "grow_size s req =
     (if \<exists>i < 64. req \<le> s * 2 ^ i then Some (s * 2 ^ (LEAST i. req \<le> s * 2 ^ i)) else None)"
proof (cases "\<exists>i. req \<le> s * 2 ^ i")
  case True
  let ?i = "LEAST i. req \<le> s * 2 ^ i"
  have i: "req \<le> s * 2 ^ ?i" using True by (rule LeastI_ex)
  have "?i < 64"
  proof (rule ccontr)
    assume "\<not> ?i < 64"
    with i have "req \<le> s * 2 ^ 0" by (simp add: power_two_wraps)
    then have "?i \<le> 0" by (rule Least_le)
    with \<open>\<not> ?i < 64\<close> show False by simp
  qed
  moreover have "\<forall>j < ?i. \<not> req \<le> s * 2 ^ j" using not_less_Least by blast
  ultimately show ?thesis using grow_size_returns [OF i] i by auto
next
  case False
  then have "grow_size s req = None"
    using grow_size_reaches by (cases "grow_size s req") auto
  with False show ?thesis by auto
qed

text \<open>C40. A request above half the address space never returns from a pool whose size is a power of
  two (the initial one is): no doubling of the pool size reaches it.\<close>

theorem malloc_huge_never_returns:
  assumes "galloc h \<noteq> 0" and "unat (heap_size (alloc h)) = 2 ^ j" and "j < 63"
    and "2 ^ 63 < unat (sz + block_hdr_size)"
  shows "malloc K sz h = None"
proof -
  let ?req = "sz + block_hdr_size"
  have hs: "heap_size (alloc h) = 2 ^ j"
  proof -
    have "heap_size (alloc h) = of_nat (unat (heap_size (alloc h)))" by simp
    then show ?thesis by (simp only: assms(2) of_nat_power of_nat_numeral)
  qed
  have le: "unat ((2 :: u64) ^ i) \<le> 2 ^ 63" for i
  proof (cases "i < 64")
    case True
    then have "(2 :: nat) ^ i < 2 ^ 64" by (intro power_strict_increasing) simp_all
    then have "unat ((2 :: u64) ^ i) = 2 ^ i"
      using unat_of_nat_small [of "2 ^ i", where 'a = 64] by simp
    moreover have "(2 :: nat) ^ i \<le> 2 ^ 63" by (rule power_increasing) (use True in simp_all)
    ultimately show ?thesis by (simp only:)
  qed (simp add: power_two_wraps)
  have no: "\<not> ?req \<le> heap_size (alloc h) * 2 * 2 ^ i" for i
  proof -
    have "heap_size (alloc h) * 2 * 2 ^ i = 2 ^ (j + 1 + i)" by (simp add: hs power_add)
    then show ?thesis using le [of "j + 1 + i"] assms(4) by (simp add: word_le_nat_alt)
  qed
  have "grow_size (heap_size (alloc h) * 2) ?req = None"
  proof (cases "grow_size (heap_size (alloc h) * 2) ?req")
    case (Some y)
    from grow_size_reaches [OF this] obtain i where "?req \<le> heap_size (alloc h) * 2 * 2 ^ i"
      by (rule exE)
    with no [of i] show ?thesis by (rule notE)
  qed
  moreover have "?req > heap_size (alloc h)"
    using le [of j] assms(4) by (simp add: hs word_less_nat_alt)
  ultimately show ?thesis
    using assms(1)
    by (simp add: malloc.simps [of K sz h] ensure_allocator_init_def expand_memory_pool_def)
qed

theorem malloc_huge_never_returns_witness: "malloc demo_kernel (2 ^ 63) demo_heap = None"
  by (rule malloc_huge_never_returns [of _ 20]) (simp_all add: demo_facts block_hdr_size_def)

subsection \<open>Freeing the right half of a pair\<close>

lemma find_cell_missing:
  "chain (hdr h) (read_cell h c) xs \<Longrightarrow> bud \<notin> set xs \<Longrightarrow>
   \<exists>c'. find_cell h bud c = Some c' \<and> read_cell h c' = 0"
proof (induction xs arbitrary: c)
  case Nil
  then show ?case by (simp add: find_cell.simps [of h bud c])
next
  case (Cons x xs)
  have "\<exists>c'. find_cell h bud (NextOf x) = Some c' \<and> read_cell h c' = 0"
    by (rule Cons.IH) (use Cons.prems in auto)
  with Cons.prems show ?case by (auto simp: find_cell.simps [of h bud c])
qed

lemma unlink_missing:
  assumes "chain (hdr h) (get_head (alloc h) (blk_order (hdr h bud))) xs" and "bud \<notin> set xs"
  shows "unlink_block bud h = Some h"
proof -
  have "chain (hdr h) (read_cell h (Head (blk_order (hdr h bud)))) xs" using assms(1) by simp
  from find_cell_missing [OF this assms(2)] show ?thesis by (auto simp: unlink_block_def)
qed

lemma order_bytes_neq: "j < k \<Longrightarrow> 0 \<le> j \<Longrightarrow> k \<le> 32 \<Longrightarrow> order_bytes j \<noteq> order_bytes k"
proof
  assume *: "j < k" "0 \<le> j" "k \<le> 32" "order_bytes j = order_bytes k"
  have "bsz j = bsz k"
    using * unat_order_bytes [of j] unat_order_bytes [of k] by simp
  moreover have "bsz (j + 1) \<le> bsz k" using *(1) by (intro bsz_mono) simp
  ultimately show False using bsz_Suc [OF *(2)] by simp
qed

lemma merge_loop_swap:
  assumes "buddy (hdr h b) = a" "blk_order (hdr h b) = k" "k < 31" "blk_order (hdr h a) = k"
    "is_free (hdr h a) \<noteq> 0" "a \<noteq> 0" "a < b" "b = a + order_bytes k" "absorb a b h = Some h'"
  shows "merge_loop b h = merge_loop a h'"
  by (subst merge_loop.simps) (simp add: assms(1-7,9) assms(8) [symmetric] Let_def)

lemma merge_loop_stop:
  assumes "buddy (hdr h b) = 0 \<or> is_free (hdr h (buddy (hdr h b))) = 0 \<or>
    blk_order (hdr h (buddy (hdr h b))) \<noteq> blk_order (hdr h b)"
  shows "merge_loop b h = Some (b, h)"
  using assms by (subst merge_loop.simps) (simp add: Let_def)

text \<open>
  The partner \<open>a\<close> on the left is the head of its list. The loop swaps the two, looks for the
  block being freed (which is on no list) and so removes nothing; then \<open>a\<close>, of order \<open>k + 1\<close>
  now, is pushed on the next list while it still heads the old one.
\<close>

lemma free_right_half:
  assumes ok: "heap_ok h B L {}" and g: "galloc h \<noteq> 0" and b: "b \<in> B" "is_free (hdr h b) = 0"
    and p: "b + block_hdr_size \<noteq> 0"
    and k: "blk_order (hdr h b) = k" "k < 31" and a: "buddy (hdr h b) = a" "b = a + order_bytes k"
    and head: "get_head (alloc h) k = a" "a \<noteq> 0"
    and stop: "a + order_bytes (k + 1) < heap_start (alloc h) + heap_size (alloc h) \<Longrightarrow>
      is_free (hdr h (a + order_bytes (k + 1))) = 0 \<or> blk_order (hdr h (a + order_bytes (k + 1))) \<noteq> k + 1"
  shows "\<exists>h'. free (b + block_hdr_size) h = Some h' \<and> get_head (alloc h') k = a \<and>
    get_head (alloc h') (k + 1) = a \<and> same_pool h h' \<and> length (free_lists (alloc h')) = 32"
proof -
  have B: "blocks_ok h B" using heap_okD(1) [OF ok] .
  have k0: "0 \<le> k" "k < 32" using blocks_okD(2) [OF B b(1)] k by simp_all
  have pop: "a \<in> B" "blk_order (hdr h a) = k" "is_free (hdr h a) \<noteq> 0"
    using pop_ok [OF ok k0 head(1,2)] by auto
  have ab: "a \<noteq> b" using b(2) pop(3) by auto
  have ub: "unat b = unat a + bsz k"
    unfolding a(2) by (rule unat_block_end [OF B pop(1)]) (simp add: pop)
  have lt: "a < b" using ub by (simp add: word_less_nat_alt)
  let ?e = "a + order_bytes (k + 1)"
  have eb: "?e \<noteq> b" unfolding a(2) using order_bytes_neq [of k "k + 1"] k0 k(2) by auto
  let ?h1 = "upd_block b (\<lambda>x. x\<lparr>is_free := 1\<rparr>) h"
  let ?f = "\<lambda>x. x\<lparr>blk_order := k + 1, blk_size := order_bytes (k + 1) - block_hdr_size,
       buddy := if ?e < heap_start (alloc h) + heap_size (alloc h) then ?e else 0\<rparr>"
  let ?h2 = "upd_block a ?f ?h1"
  have nb: "b \<notin> set (L k)" using heap_okD(5) [OF ok k0, of b] b(2) by auto
  have un: "unlink_block b ?h1 = Some ?h1"
    by (rule unlink_missing [of _ _ "L k"]) (use heap_okD(4) [OF ok k0] nb k in simp_all)
  have ha: "hdr ?h1 a = hdr h a" using ab by simp
  have absorb: "absorb a b ?h1 = Some ?h2"
    using un ha pop(2) ab by (simp add: absorb_def Let_def upd_block_def)
  have step: "merge_loop b ?h1 = merge_loop a ?h2"
    by (rule merge_loop_swap [OF _ _ k(2) _ _ head(2) lt a(2) absorb])
      (use a(1) k pop ab in simp_all)
  have stopped: "merge_loop a ?h2 = Some (a, ?h2)"
  proof (rule merge_loop_stop)
    have "?e \<noteq> a" using order_bytes_nonzero [of "k + 1"] k(2) by auto
    then have "hdr ?h2 ?e = hdr h ?e" using eb by simp
    then show "buddy (hdr ?h2 a) = 0 \<or> is_free (hdr ?h2 (buddy (hdr ?h2 a))) = 0 \<or>
        blk_order (hdr ?h2 (buddy (hdr ?h2 a))) \<noteq> blk_order (hdr ?h2 a)"
      using stop ab by (cases "?e < heap_start (alloc h) + heap_size (alloc h)") auto
  qed
  have run: "free (b + block_hdr_size) h = Some (push_block a ?h2)"
    using g p step stopped by (simp add: free_def Let_def merge_blocks_def del: upd_block_fields)
  have len: "length (free_lists (alloc h)) = 32" using heap_okD(3) [OF ok] .
  show ?thesis
    using run ab head(1) len k0 k(2)
    by (intro exI [of _ "push_block a ?h2"]) (simp add: push_block_def Let_def same_pool_def)
qed

text \<open>Freeing the right half of a pair whose left half is the head of its free list (the block
  behind the pair not being mergeable) returns, but leaves the left half on two lists: the next
  request of the old order and the next request of the doubled order both get its address.\<close>

theorem free_right_half_same_address_twice:
  assumes "heap_ok h B L {}" and "galloc h \<noteq> 0" and "b \<in> B" and "is_free (hdr h b) = 0"
    and "b + block_hdr_size \<noteq> 0" and "blk_order (hdr h b) = k" and "k < 31"
    and "buddy (hdr h b) = a" and "b = a + order_bytes k"
    and "get_head (alloc h) k = a" and "a \<noteq> 0"
    and "a + order_bytes (k + 1) < heap_start (alloc h) + heap_size (alloc h) \<Longrightarrow>
      is_free (hdr h (a + order_bytes (k + 1))) = 0 \<or> blk_order (hdr h (a + order_bytes (k + 1))) \<noteq> k + 1"
    and "get_order (s1 + block_hdr_size) = k" and "get_order (s2 + block_hdr_size) = k + 1"
    and "unat s1 + 32 \<le> unat (heap_size (alloc h))" and "unat s2 + 32 \<le> unat (heap_size (alloc h))"
  shows "\<exists>h1 h2 h3. free (b + block_hdr_size) h = Some h1 \<and>
    malloc K s1 h1 = Some (a + block_hdr_size, h2) \<and> malloc K s2 h2 = Some (a + block_hdr_size, h3)"
proof -
  obtain h1 where h1: "free (b + block_hdr_size) h = Some h1" "get_head (alloc h1) k = a"
      "get_head (alloc h1) (k + 1) = a" "same_pool h h1" "length (free_lists (alloc h1)) = 32"
    using free_right_half [OF assms(1-12)] by blast
  have k0: "0 \<le> k" using get_order_spec [of "s1 + block_hdr_size"] assms(13) by simp
  have g1: "galloc h1 \<noteq> 0" "heap_size (alloc h1) = heap_size (alloc h)"
    using h1(4) assms(2) by (simp_all add: same_pool_def)
  let ?h2 = "upd_block a (\<lambda>b. b\<lparr>is_free := 0, next_free := 0\<rparr>) (upd_head k (next_free (hdr h1 a)) h1)"
  have t1: "take_block k k h1 = Some (a + block_hdr_size, ?h2)"
    using h1(2) by (simp add: take_block_def Let_def)
  have m1: "malloc K s1 h1 = take_block k k h1"
    by (rule malloc_here [OF g1(1) _ assms(13)]) (use assms(7,11,15) g1(2) h1(2) in simp_all)
  have head2: "get_head (alloc ?h2) (k + 1) = a" using h1(3,5) k0 assms(7) by simp
  have m2: "malloc K s2 ?h2 = take_block (k + 1) (k + 1) ?h2"
    by (rule malloc_here [OF _ _ assms(14)])
      (use assms(7,11,16) g1 h1(3,5) k0 in simp_all)
  have "\<exists>h3. take_block (k + 1) (k + 1) ?h2 = Some (a + block_hdr_size, h3)"
    using head2 by (simp add: take_block_def Let_def)
  with h1(1) m1 t1 m2 show ?thesis by auto
qed

text \<open>A pool of one pair, the right half in use.\<close>

definition pair_heap :: "u64 heap" where
  "pair_heap = \<lparr>hdr = (\<lambda>p. if p = 0x1000
       then \<lparr>blk_size = 32, blk_order = 0, is_free = 1, next_free = 0, buddy = 0x1040\<rparr>
       else \<lparr>blk_size = 32, blk_order = 0, is_free = 0, next_free = 0, buddy = 0x1000\<rparr>),
     galloc = 1, alloc = \<lparr>free_lists = (replicate 32 0)[0 := 0x1000], heap_start = 0x1000, heap_size = 128\<rparr>,
     printed = [], hw = \<lparr>wmem = (\<lambda>_. 0), kst = 0\<rparr>\<rparr>"

lemma pair_heap_ok: "heap_ok pair_heap {0x1000, 0x1040} (\<lambda>k. if k = 0 then [0x1000] else []) {}"
proof (rule heap_okI)
  show "blocks_ok pair_heap {0x1000, 0x1040}" by (simp add: blocks_ok_def pair_heap_def bsz_def)
  show "chain (hdr pair_heap) (get_head (alloc pair_heap) k) (if k = 0 then [0x1000] else [])"
    if "0 \<le> k" "k < 32" for k
    using that by (auto simp: pair_heap_def get_head_def nth_list_update)
qed (auto simp: pair_heap_def)

theorem free_right_half_same_address_twice_witness:
  "\<exists>h1 h2 h3. free 0x1060 pair_heap = Some h1 \<and> malloc demo_kernel 32 h1 = Some (0x1020, h2) \<and>
    malloc demo_kernel 96 h2 = Some (0x1020, h3)"
proof -
  have "get_order 64 = 0" "get_order 128 = 1"
    by (rule get_order_bsz; simp add: bsz_def)+
  then have "\<exists>h1 h2 h3. free (0x1040 + block_hdr_size) pair_heap = Some h1 \<and>
    malloc demo_kernel 32 h1 = Some (0x1000 + block_hdr_size, h2) \<and>
    malloc demo_kernel 96 h2 = Some (0x1000 + block_hdr_size, h3)"
    by (intro free_right_half_same_address_twice [OF pair_heap_ok, of "0x1040" 0])
      (simp_all add: pair_heap_def block_hdr_size_def order_bytes_def get_head_def)
  then show ?thesis by (simp add: block_hdr_size_def)
qed

end
