(* ===== verification/Transition.thy ===== *)
theory Transition
  imports Prelude
begin

text \<open>
  Interleaving semantics for the concurrent components: a component is an initial predicate and a
  step relation on its states, one step being one atomic action of one thread. The locale
  \<open>inductive_invariant\<close> is what a component's invariant has to satisfy; \<open>trace_refinement\<close> is
  forward simulation of a specification by labelled steps, and gives the inclusion of the traces.
\<close>

definition reachable :: "('s \<Rightarrow> bool) \<Rightarrow> ('s \<Rightarrow> 's \<Rightarrow> bool) \<Rightarrow> 's \<Rightarrow> bool" where
  "reachable init step s \<longleftrightarrow> (\<exists>s0. init s0 \<and> step\<^sup>*\<^sup>* s0 s)"

lemma reachable_init: "init s \<Longrightarrow> reachable init step s"
  by (auto simp: reachable_def)

lemma reachable_step: "reachable init step s \<Longrightarrow> step s s' \<Longrightarrow> reachable init step s'"
  unfolding reachable_def by (meson rtranclp.rtrancl_into_rtrancl)

locale inductive_invariant =
  fixes init :: "'s \<Rightarrow> bool" and step :: "'s \<Rightarrow> 's \<Rightarrow> bool" and inv :: "'s \<Rightarrow> bool"
  assumes inv_init: "init s \<Longrightarrow> inv s"
    and inv_step: "inv s \<Longrightarrow> step s s' \<Longrightarrow> inv s'"
begin

lemma inv_steps: "step\<^sup>*\<^sup>* s s' \<Longrightarrow> inv s \<Longrightarrow> inv s'"
  by (induction rule: rtranclp_induct) (auto intro: inv_step)

lemma inv_reachable: "reachable init step s \<Longrightarrow> inv s"
  using inv_init inv_steps by (auto simp: reachable_def)

end

text \<open>
  Traces. A labelled step carries the events it shows, none or more; \<open>traced step s es s'\<close> is a run
  from \<open>s\<close> to \<open>s'\<close> that shows the events \<open>es\<close> in that order. A specification is a partial function
  from a state and an event to the next state: \<open>spec_run\<close> is \<open>None\<close> when it refuses an event.
\<close>

inductive traced :: "('s \<Rightarrow> 'e list \<Rightarrow> 's \<Rightarrow> bool) \<Rightarrow> 's \<Rightarrow> 'e list \<Rightarrow> 's \<Rightarrow> bool" for step s where
  traced_start: "traced step s [] s"
| traced_step: "traced step s es s' \<Longrightarrow> step s' fs s'' \<Longrightarrow> traced step s (es @ fs) s''"

primrec spec_run :: "('a \<Rightarrow> 'e \<Rightarrow> 'a option) \<Rightarrow> 'a \<Rightarrow> 'e list \<Rightarrow> 'a option" where
  "spec_run next a [] = Some a"
| "spec_run next a (e # es) = Option.bind (next a e) (\<lambda>b. spec_run next b es)"

lemma spec_run_append:
  "spec_run next a (es @ fs) = Option.bind (spec_run next a es) (\<lambda>b. spec_run next b fs)"
  by (induction es arbitrary: a) (simp_all add: Option.bind_assoc)

text \<open>
  Trace refinement: whatever events a run from an initial state shows, the specification accepts
  them in that order and ends in a state related to the one the run ends in.
\<close>

locale trace_refinement =
  fixes init :: "'s \<Rightarrow> bool" and step :: "'s \<Rightarrow> 'e list \<Rightarrow> 's \<Rightarrow> bool" and inv :: "'s \<Rightarrow> bool"
    and start :: "'a" and next_state :: "'a \<Rightarrow> 'e \<Rightarrow> 'a option" and sim :: "'s \<Rightarrow> 'a \<Rightarrow> bool"
  assumes sim_init: "init s \<Longrightarrow> inv s \<and> sim s start"
    and sim_step: "inv s \<Longrightarrow> sim s a \<Longrightarrow> step s es s' \<Longrightarrow>
      inv s' \<and> (\<exists>a'. spec_run next_state a es = Some a' \<and> sim s' a')"
begin

lemma sim_traced:
  assumes "traced step s0 es s" and "init s0"
  shows "inv s \<and> (\<exists>a. spec_run next_state start es = Some a \<and> sim s a)"
  using assms(1)
proof (induction rule: traced.induct)
  case traced_start
  then show ?case using sim_init [OF assms(2)] by simp
next
  case (traced_step es s' fs s'')
  then obtain a where a: "spec_run next_state start es = Some a" "sim s' a" and "inv s'" by blast
  with sim_step [OF _ a(2) traced_step.hyps(2)] show ?case by (auto simp: spec_run_append)
qed

end

end
