(* ===== verification/Mutex.thy ===== *)
theory Mutex
  imports Transition
begin

text \<open>
  The mutex of mini_libc/src/lock.c. A state holds the two words of \<open>pthread_mutex_t\<close>, the
  program counter of every thread, the threads asleep in \<open>FUTEX_WAIT\<close>, and (for the
  specification only) the threads between a successful lock and their next call of unlock. One
  step is one atomic action: a load or store of a shared word, a compare-and-swap, or a futex
  call; the weak memory order of the machine is not modelled.

  The kernel is documented behaviour: \<open>FUTEX_WAIT\<close> puts the caller to sleep if the word still
  has the expected value and fails with EAGAIN otherwise; \<open>FUTEX_WAKE\<close> with count 1 wakes one
  sleeper if there is one. \<open>E\<close> is the set of further errors a wait may end with; it may also end
  with 0 though nobody called \<open>FUTEX_WAKE\<close>.
\<close>

definition MINI_EINVAL :: int where "MINI_EINVAL = 2"
definition EAGAIN :: int where "EAGAIN = 11"
definition EINTR :: int where "EINTR = 4"

text \<open>
  Where a thread is: \<open>Out r\<close> outside every call, \<open>r\<close> the last value returned;
  \<open>Enter\<close> before the ownership check of lock; \<open>Cas n\<close> before the compare-and-swap with
  \<open>spin_count = n\<close>; \<open>SetOwner\<close> after it succeeded; \<open>Wait n\<close> before \<open>FUTEX_WAIT\<close>; \<open>Asleep n\<close>
  in it; \<open>UEnter\<close> before the ownership check of unlock; then the two stores and the wake.
\<close>

datatype pc = Out int | Enter | Cas int | SetOwner | Wait int | Asleep int
  | UEnter | ClearOwner | StoreLock | Wake

record mutex =
  lock :: int
  owner :: int

record mstate =
  mtx :: mutex
  pcs :: "int \<Rightarrow> pc"
  inside :: "int set"

definition pthread_mutex_init :: "mutex \<Rightarrow> mutex \<times> int" where
  "pthread_mutex_init m = (m\<lparr>lock := 0, owner := 0\<rparr>, 0)"

definition atomic_cas :: "int \<Rightarrow> int \<Rightarrow> mutex \<Rightarrow> bool \<times> mutex" where
  "atomic_cas expected desired m =
     (if lock m = expected then (True, m\<lparr>lock := desired\<rparr>) else (False, m))"

definition atomic_store :: "int \<Rightarrow> mutex \<Rightarrow> mutex" where
  "atomic_store v m = m\<lparr>lock := v\<rparr>"

text \<open>\<open>spin_count-- > 0\<close> decides between another attempt and the futex call.\<close>

definition after_failed_cas :: "int \<Rightarrow> pc" where
  "after_failed_cas n = (if n > 0 then Cas (n - 1) else Wait (n - 1))"

text \<open>What a failed \<open>FUTEX_WAIT\<close> leads to, by the error code.\<close>

definition after_wait_error :: "int \<Rightarrow> int \<Rightarrow> pc" where
  "after_wait_error err n =
     (if err = EAGAIN then Cas 100 else if err = EINTR then Cas n else Out (- MINI_EINVAL))"

definition goto :: "int \<Rightarrow> pc \<Rightarrow> mstate \<Rightarrow> mstate" where
  "goto t p s = s\<lparr>pcs := (pcs s)(t := p)\<rparr>"

definition set_mtx :: "mutex \<Rightarrow> mstate \<Rightarrow> mstate" where
  "set_mtx m s = s\<lparr>mtx := m\<rparr>"

inductive lock_step :: "int set \<Rightarrow> int \<Rightarrow> mstate \<Rightarrow> mstate \<Rightarrow> bool" for E and t where
  call_lock: "pcs s t = Out r \<Longrightarrow> lock_step E t s (goto t Enter s)"
| call_lock_null: "pcs s t = Out r \<Longrightarrow> lock_step E t s (goto t (Out (- 1)) s)"
| lock_reentrant: "pcs s t = Enter \<Longrightarrow> owner (mtx s) = t \<Longrightarrow> lock_step E t s (goto t (Out (- 1)) s)"
| lock_enter: "pcs s t = Enter \<Longrightarrow> owner (mtx s) \<noteq> t \<Longrightarrow> lock_step E t s (goto t (Cas 100) s)"
| cas_ok: "pcs s t = Cas n \<Longrightarrow> atomic_cas 0 1 (mtx s) = (True, m) \<Longrightarrow>
    lock_step E t s (goto t SetOwner (set_mtx m s))"
| cas_fail: "pcs s t = Cas n \<Longrightarrow> atomic_cas 0 1 (mtx s) = (False, m) \<Longrightarrow>
    lock_step E t s (goto t (after_failed_cas n) (set_mtx m s))"
| set_owner: "pcs s t = SetOwner \<Longrightarrow>
    lock_step E t s ((goto t (Out 0) (set_mtx ((mtx s)\<lparr>owner := t\<rparr>) s))\<lparr>inside := insert t (inside s)\<rparr>)"
| wait_sleep: "pcs s t = Wait n \<Longrightarrow> lock (mtx s) = 1 \<Longrightarrow> lock_step E t s (goto t (Asleep n) s)"
| wait_again: "pcs s t = Wait n \<Longrightarrow> lock (mtx s) \<noteq> 1 \<Longrightarrow>
    lock_step E t s (goto t (after_wait_error EAGAIN n) s)"
| wait_error: "pcs s t = Wait n \<or> pcs s t = Asleep n \<Longrightarrow> err \<in> E \<Longrightarrow>
    lock_step E t s (goto t (after_wait_error err n) s)"
| wait_spurious: "pcs s t = Asleep n \<Longrightarrow> lock_step E t s (goto t (Cas 100) s)"

inductive unlock_step :: "int \<Rightarrow> mstate \<Rightarrow> mstate \<Rightarrow> bool" for t where
  call_unlock: "pcs s t = Out r \<Longrightarrow>
    unlock_step t s ((goto t UEnter s)\<lparr>inside := inside s - {t}\<rparr>)"
| call_unlock_null: "pcs s t = Out r \<Longrightarrow> unlock_step t s (goto t (Out (- 1)) s)"
| unlock_foreign: "pcs s t = UEnter \<Longrightarrow> owner (mtx s) \<noteq> t \<Longrightarrow> unlock_step t s (goto t (Out (- 1)) s)"
| unlock_enter: "pcs s t = UEnter \<Longrightarrow> owner (mtx s) = t \<Longrightarrow> unlock_step t s (goto t ClearOwner s)"
| clear_owner: "pcs s t = ClearOwner \<Longrightarrow>
    unlock_step t s (goto t StoreLock (set_mtx ((mtx s)\<lparr>owner := 0\<rparr>) s))"
| store_lock: "pcs s t = StoreLock \<Longrightarrow>
    unlock_step t s (goto t Wake (set_mtx (atomic_store 0 (mtx s)) s))"
| wake_one: "pcs s t = Wake \<Longrightarrow> pcs s u = Asleep n \<Longrightarrow>
    unlock_step t s (goto u (Cas 100) (goto t (Out 0) s))"
| wake_none: "pcs s t = Wake \<Longrightarrow> \<forall>u n. pcs s u \<noteq> Asleep n \<Longrightarrow> unlock_step t s (goto t (Out 0) s)"

text \<open>Thread ids are what \<open>gettid\<close> answers: positive numbers.\<close>

inductive mutex_step :: "int set \<Rightarrow> mstate \<Rightarrow> mstate \<Rightarrow> bool" for E where
  by_lock: "0 < t \<Longrightarrow> lock_step E t s s' \<Longrightarrow> mutex_step E s s'"
| by_unlock: "0 < t \<Longrightarrow> unlock_step t s s' \<Longrightarrow> mutex_step E s s'"

definition mutex_initial :: "mstate \<Rightarrow> bool" where
  "mutex_initial s \<longleftrightarrow> (\<exists>m. mtx s = fst (pthread_mutex_init m)) \<and> (\<forall>t. \<exists>r. pcs s t = Out r) \<and> inside s = {}"

inductive_cases lock_stepE: "lock_step E t s s'"
inductive_cases unlock_stepE: "unlock_step t s s'"
inductive_cases mutex_stepE: "mutex_step E s s'"

lemmas mutex_defs = goto_def set_mtx_def atomic_cas_def atomic_store_def after_failed_cas_def
  after_wait_error_def pthread_mutex_init_def EAGAIN_def EINTR_def MINI_EINVAL_def

subsection \<open>The invariant\<close>

definition critical_pc :: "pc \<Rightarrow> bool" where
  "critical_pc p \<longleftrightarrow> p \<in> {SetOwner, ClearOwner, StoreLock}"

text \<open>Where the owner of the mutex may be: outside, or before an ownership check.\<close>

definition resting_pc :: "pc \<Rightarrow> bool" where
  "resting_pc p \<longleftrightarrow> p = Enter \<or> (\<exists>r. p = Out r)"

text \<open>
  Either nobody has the lock, or the one thread \<open>h\<close> whose compare-and-swap succeeded last: it is
  about to record itself as owner, or is the owner (and then outside every call or before an
  ownership check), or is on its way through unlock.
\<close>

definition unheld :: "mstate \<Rightarrow> bool" where
  "unheld s \<longleftrightarrow> lock (mtx s) = 0 \<and> owner (mtx s) = 0 \<and> inside s = {} \<and> (\<forall>u. \<not> critical_pc (pcs s u))"

definition held_by :: "int \<Rightarrow> mstate \<Rightarrow> bool" where
  "held_by h s \<longleftrightarrow> 0 < h \<and> lock (mtx s) = 1 \<and> inside s \<subseteq> {h} \<and> (\<forall>u. u \<noteq> h \<longrightarrow> \<not> critical_pc (pcs s u)) \<and>
     (if owner (mtx s) = h then resting_pc (pcs s h) \<or> inside s = {} \<and> pcs s h \<in> {UEnter, ClearOwner}
      else owner (mtx s) = 0 \<and> inside s = {} \<and> pcs s h \<in> {SetOwner, StoreLock})"

definition mutex_inv :: "mstate \<Rightarrow> bool" where
  "mutex_inv s \<longleftrightarrow> unheld s \<or> (\<exists>h. held_by h s)"

lemma pc_classes [simp]:
  "\<not> critical_pc (Out r)" "\<not> critical_pc Enter" "\<not> critical_pc (Cas n)" "\<not> critical_pc (Wait n)"
  "\<not> critical_pc (Asleep n)" "\<not> critical_pc UEnter" "\<not> critical_pc Wake"
  "critical_pc SetOwner" "critical_pc ClearOwner" "critical_pc StoreLock"
  "resting_pc (Out r)" "resting_pc Enter" "\<not> resting_pc (Cas n)" "\<not> resting_pc (Wait n)"
  "\<not> resting_pc (Asleep n)" "\<not> resting_pc UEnter" "\<not> resting_pc Wake"
  "\<not> resting_pc SetOwner" "\<not> resting_pc ClearOwner" "\<not> resting_pc StoreLock"
  by (simp_all add: critical_pc_def resting_pc_def)

lemma goto_fields [simp]:
  "mtx (goto t p s) = mtx s" "inside (goto t p s) = inside s"
  "pcs (goto t p s) u = (if u = t then p else pcs s u)"
  "mtx (set_mtx m s) = m" "pcs (set_mtx m s) = pcs s" "inside (set_mtx m s) = inside s"
  by (simp_all add: goto_def set_mtx_def)

text \<open>A move between two places where the lock is neither being taken nor given back.\<close>

lemma unheld_move: "unheld s \<Longrightarrow> \<not> critical_pc p \<Longrightarrow> unheld (goto t p s)"
  by (simp add: unheld_def)

lemma held_by_move_other: "held_by h s \<Longrightarrow> t \<noteq> h \<Longrightarrow> \<not> critical_pc p \<Longrightarrow> held_by h (goto t p s)"
  by (auto simp: held_by_def)

lemma held_by_move_self: "held_by h s \<Longrightarrow> resting_pc (pcs s h) \<Longrightarrow> resting_pc p \<Longrightarrow> held_by h (goto h p s)"
  by (auto simp: held_by_def split: if_splits)

text \<open>
  What a step does to the holder: a free lock stays free or gets a holder, a held lock keeps its
  holder or becomes free.
\<close>

definition keeps :: "mstate \<Rightarrow> mstate \<Rightarrow> bool" where
  "keeps s s' \<longleftrightarrow> (unheld s \<longrightarrow> unheld s' \<or> (\<exists>h. held_by h s')) \<and>
     (\<forall>h. held_by h s \<longrightarrow> held_by h s' \<or> unheld s')"

lemma keeps_inv: "keeps s s' \<Longrightarrow> mutex_inv s \<Longrightarrow> mutex_inv s'"
  by (auto simp: keeps_def mutex_inv_def)

lemma keeps_move:
  assumes p: "\<not> critical_pc p"
    and own: "held_by t s \<Longrightarrow> resting_pc (pcs s t) \<and> resting_pc p"
  shows "keeps s (goto t p s)"
proof -
  have "held_by h (goto t p s)" if h: "held_by h s" for h
    using held_by_move_other [OF h _ p] held_by_move_self [OF h] own h by (cases "t = h") auto
  then show ?thesis using unheld_move [OF _ p] by (simp add: keeps_def)
qed

lemma held_by_unique: "held_by h s \<Longrightarrow> held_by t s \<Longrightarrow> h = t"
  by (auto simp: held_by_def split: if_splits)

lemma held_not_unheld: "held_by h s \<Longrightarrow> \<not> unheld s"
  by (auto simp: held_by_def unheld_def)

lemma keeps_held: "held_by t s \<Longrightarrow> held_by t s' \<or> unheld s' \<Longrightarrow> keeps s s'"
  using held_by_unique held_not_unheld by (auto simp: keeps_def)

lemma critical_holder:
  assumes inv: "mutex_inv s" and c: "critical_pc (pcs s t)"
  shows "held_by t s"
proof -
  obtain h where h: "held_by h s" using assms by (auto simp: mutex_inv_def unheld_def)
  then have "t = h" using c by (auto simp: held_by_def)
  with h show ?thesis by simp
qed

lemma mutex_inv_init: "mutex_initial s \<Longrightarrow> mutex_inv s"
proof -
  assume init: "mutex_initial s"
  then have "\<not> critical_pc (pcs s t)" for t
    unfolding mutex_initial_def by (metis pc_classes(1))
  then have "unheld s"
    using init by (auto simp: mutex_initial_def pthread_mutex_init_def unheld_def)
  then show ?thesis by (simp add: mutex_inv_def)
qed

text \<open>A thread in the spinning and sleeping places does not hold the lock.\<close>

lemma spinning_not_holder:
  "held_by h s \<Longrightarrow> pcs s t \<in> range Cas \<union> range Wait \<union> range Asleep \<union> {Wake} \<Longrightarrow> h \<noteq> t"
  by (auto simp: held_by_def split: if_splits)

lemma keeps_lock:
  assumes "lock_step E t s s'" and inv: "mutex_inv s" and t: "0 < t"
  shows "keeps s s'"
  using assms(1)
proof (cases rule: lock_step.cases)
  case lock_enter
  then show ?thesis
    unfolding lock_enter(1) by (intro keeps_move) (auto simp: held_by_def split: if_splits)
next
  case (cas_ok n m)
  then have free: "lock (mtx s) = 0" and s': "s' = goto t SetOwner (set_mtx ((mtx s)\<lparr>lock := 1\<rparr>) s)"
    by (auto simp: atomic_cas_def split: if_splits)
  then have "unheld s" using inv by (auto simp: mutex_inv_def held_by_def)
  moreover from this have "held_by t s'" using t by (auto simp: s' unheld_def held_by_def)
  ultimately show ?thesis using held_not_unheld by (auto simp: keeps_def)
next
  case (cas_fail n m)
  then have "set_mtx m s = s" by (auto simp: atomic_cas_def set_mtx_def split: if_splits)
  with cas_fail show ?thesis
    using spinning_not_holder [of t s t] by (auto intro!: keeps_move simp: after_failed_cas_def)
next
  case set_owner
  then have h: "held_by t s" using critical_holder [OF inv, of t] by simp
  then have "held_by t s'" using set_owner t by (auto simp: held_by_def split: if_splits)
  with h show ?thesis by (auto intro: keeps_held)
qed (use spinning_not_holder [of t s t] in
    \<open>auto intro!: keeps_move simp: after_wait_error_def held_by_def split: if_splits\<close>)

text \<open>The record of who is inside only loses the caller when unlock is called.\<close>

lemma keeps_leave:
  assumes "pcs s t = Out r"
  shows "keeps s ((goto t UEnter s)\<lparr>inside := inside s - {t}\<rparr>)"
proof -
  have "held_by h ((goto t UEnter s)\<lparr>inside := inside s - {t}\<rparr>)" if "held_by h s" for h
    using that assms by (auto simp: held_by_def split: if_splits)
  then show ?thesis by (auto simp: keeps_def unheld_def)
qed

lemma keeps_wake:
  assumes "pcs s t = Wake" and "pcs s u = Asleep n"
  shows "keeps s (goto u (Cas 100) (goto t (Out 0) s))"
proof -
  have "u \<noteq> t" using assms by auto
  then have "held_by h (goto u (Cas 100) (goto t (Out 0) s))" if "held_by h s" for h
    using that assms spinning_not_holder [OF that, of t] spinning_not_holder [OF that, of u]
    by (intro held_by_move_other) auto
  then show ?thesis by (simp add: keeps_def unheld_move)
qed

lemma keeps_unlock:
  assumes "unlock_step t s s'" and inv: "mutex_inv s" and t: "0 < t"
  shows "keeps s s'"
  using assms(1)
proof (cases rule: unlock_step.cases)
  case (call_unlock r)
  then show ?thesis using keeps_leave by blast
next
  case unlock_foreign
  then show ?thesis
    unfolding unlock_foreign(1) by (intro keeps_move) (auto simp: held_by_def split: if_splits)
next
  case unlock_enter
  then obtain h where h: "held_by h s" using inv t by (auto simp: mutex_inv_def unheld_def)
  with unlock_enter t have "h = t" by (auto simp: held_by_def split: if_splits)
  with h unlock_enter t have "held_by t s'" by (auto simp: held_by_def split: if_splits)
  with h \<open>h = t\<close> show ?thesis by (auto intro: keeps_held)
next
  case clear_owner
  then have h: "held_by t s" using critical_holder [OF inv, of t] by simp
  with clear_owner have "held_by t s'" by (auto simp: held_by_def split: if_splits)
  with h show ?thesis by (auto intro: keeps_held)
next
  case store_lock
  then have h: "held_by t s" using critical_holder [OF inv, of t] by simp
  with store_lock have "unheld s'"
    by (auto simp: held_by_def unheld_def atomic_store_def split: if_splits)
  with h show ?thesis by (auto intro: keeps_held)
next
  case (wake_one u n)
  then show ?thesis using keeps_wake by blast
qed (use spinning_not_holder [of t s t] in
    \<open>auto intro!: keeps_move simp: held_by_def split: if_splits\<close>)

lemma keeps_step: "mutex_inv s \<Longrightarrow> mutex_step E s s' \<Longrightarrow> keeps s s'"
  by (auto elim!: mutex_stepE intro: keeps_lock keeps_unlock)

lemma mutex_inv_step: "mutex_inv s \<Longrightarrow> mutex_step E s s' \<Longrightarrow> mutex_inv s'"
  using keeps_step keeps_inv by blast

interpretation mutex: inductive_invariant mutex_initial "mutex_step E" mutex_inv for E
  by unfold_locales (auto intro: mutex_inv_init mutex_inv_step)

subsection \<open>No lost wakeup\<close>

text \<open>
  If a wait ends only with 0, interrupted or refused with EAGAIN, then whenever threads
  sleep while the lock is free, some thread is about to wake one or to try for the lock itself.
\<close>

definition trying_pc :: "pc \<Rightarrow> bool" where
  "trying_pc p \<longleftrightarrow> p = Wake \<or> (\<exists>n. p = Cas n \<or> p = Wait n)"

definition sleepers_served :: "mstate \<Rightarrow> bool" where
  "sleepers_served s \<longleftrightarrow> (\<exists>u n. pcs s u = Asleep n) \<and> lock (mtx s) = 0 \<longrightarrow> (\<exists>u. trying_pc (pcs s u))"

definition mutex_live :: "mstate \<Rightarrow> bool" where
  "mutex_live s \<longleftrightarrow> mutex_inv s \<and> sleepers_served s"

lemma trying_simps [simp]:
  "trying_pc Wake" "trying_pc (Cas n)" "trying_pc (Wait n)" "\<not> trying_pc (Out r)" "\<not> trying_pc Enter"
  "\<not> trying_pc (Asleep n)" "\<not> trying_pc SetOwner" "\<not> trying_pc UEnter" "\<not> trying_pc ClearOwner"
  "\<not> trying_pc StoreLock"
  by (simp_all add: trying_pc_def)

lemma served_keep:
  assumes "sleepers_served s" and "\<not> trying_pc (pcs s t)" and "lock (mtx s') = lock (mtx s)"
    and "\<And>u. u \<noteq> t \<Longrightarrow> pcs s' u = pcs s u" and "\<And>n. pcs s' t \<noteq> Asleep n"
  shows "sleepers_served s'"
  using assms unfolding sleepers_served_def by metis

lemma served_locked: "lock (mtx s') \<noteq> 0 \<Longrightarrow> sleepers_served s'"
  by (simp add: sleepers_served_def)

lemma served_trying: "trying_pc (pcs s' u) \<Longrightarrow> sleepers_served s'"
  by (auto simp: sleepers_served_def)

lemma served_lock:
  assumes "lock_step {EINTR} t s s'" and "mutex_live s" and "0 < t"
  shows "sleepers_served s'"
  using assms(1)
proof (cases rule: lock_step.cases)
  case (cas_ok n m)
  then show ?thesis by (intro served_locked) (auto simp: atomic_cas_def split: if_splits)
next
  case (cas_fail n m)
  then show ?thesis by (intro served_trying [of _ t]) (simp add: after_failed_cas_def)
next
  case (wait_sleep n)
  then show ?thesis by (intro served_locked) simp
next
  case (wait_again n)
  then show ?thesis by (intro served_trying [of _ t]) (simp add: after_wait_error_def)
next
  case (wait_error n err)
  then show ?thesis by (intro served_trying [of _ t]) (simp add: after_wait_error_def)
next
  case (wait_spurious n)
  then show ?thesis by (intro served_trying [of _ t]) simp
next
  case lock_enter
  then show ?thesis by (intro served_trying [of _ t]) simp
qed (rule served_keep [of s t]; use assms(2) in \<open>simp add: mutex_live_def\<close>)+

lemma served_unlock:
  assumes "unlock_step t s s'" and "mutex_live s" and "0 < t"
  shows "sleepers_served s'"
  using assms(1)
proof (cases rule: unlock_step.cases)
  case store_lock
  then show ?thesis by (intro served_trying [of _ t]) simp
next
  case (wake_one u n)
  then show ?thesis by (intro served_trying [of _ u]) simp
next
  case wake_none
  then show ?thesis by (auto simp: sleepers_served_def split: if_splits)
qed (rule served_keep [of s t]; use assms(2) in \<open>simp add: mutex_live_def\<close>)+

lemma mutex_live_step: "mutex_live s \<Longrightarrow> mutex_step {EINTR} s s' \<Longrightarrow> mutex_live s'"
  using mutex_inv_step [of s "{EINTR}" s'] served_lock [of _ s s'] served_unlock [of _ s s']
  by (auto simp: mutex_live_def elim!: mutex_stepE)

lemma mutex_live_init: "mutex_initial s \<Longrightarrow> mutex_live s"
proof -
  assume init: "mutex_initial s"
  then have "pcs s u \<noteq> Asleep n" for u n unfolding mutex_initial_def by (metis pc.distinct(9))
  then show ?thesis using mutex_inv_init [OF init] by (simp add: mutex_live_def sleepers_served_def)
qed

interpretation mutex_progress: inductive_invariant mutex_initial "mutex_step {EINTR}" mutex_live
  by unfold_locales (auto intro: mutex_live_init mutex_live_step)

subsection \<open>Refinement of an abstract lock\<close>

text \<open>
  What a step of thread \<open>t\<close> shows: \<open>Acquire t\<close> when its compare-and-swap succeeds and it goes on to
  record itself as owner, \<open>Release t\<close> when its unlock clears the lock word.
\<close>

datatype lock_event = Acquire int | Release int

definition event_of :: "int \<Rightarrow> mstate \<Rightarrow> mstate \<Rightarrow> lock_event list" where
  "event_of t s s' =
     (if pcs s t \<noteq> SetOwner \<and> pcs s' t = SetOwner then [Acquire t]
      else if pcs s t = StoreLock \<and> pcs s' t = Wake then [Release t] else [])"

inductive mutex_lstep :: "int set \<Rightarrow> mstate \<Rightarrow> lock_event list \<Rightarrow> mstate \<Rightarrow> bool" for E where
  lstep_lock: "0 < t \<Longrightarrow> lock_step E t s s' \<Longrightarrow> mutex_lstep E s (event_of t s s') s'"
| lstep_unlock: "0 < t \<Longrightarrow> unlock_step t s s' \<Longrightarrow> mutex_lstep E s (event_of t s s') s'"

inductive_cases mutex_lstepE: "mutex_lstep E s es s'"

text \<open>An abstract lock is free or held by one thread. A free one can only be acquired; a held one
  can only be released, and by its holder, so it is never handed from one thread to another.\<close>

fun lock_next :: "int option \<Rightarrow> lock_event \<Rightarrow> int option option" where
  "lock_next None (Acquire t) = Some (Some t)"
| "lock_next (Some h) (Release t) = (if h = t then Some None else None)"
| "lock_next _ _ = None"

definition lock_sim :: "mstate \<Rightarrow> int option \<Rightarrow> bool" where
  "lock_sim s a \<longleftrightarrow> (case a of None \<Rightarrow> unheld s | Some h \<Rightarrow> held_by h s)"

lemma mutex_lstep_step: "mutex_step E s s' \<longleftrightarrow> (\<exists>es. mutex_lstep E s es s')"
  by (auto elim!: mutex_stepE mutex_lstepE intro: by_lock by_unlock lstep_lock lstep_unlock)

text \<open>A step that shows nothing leaves the lock word as it was.\<close>

lemma silent_lock: "lock_step E t s s' \<Longrightarrow> event_of t s s' = [] \<Longrightarrow> lock (mtx s') = lock (mtx s)"
  by (erule lock_step.cases) (auto simp: event_of_def atomic_cas_def split: if_splits)

lemma silent_unlock: "unlock_step t s s' \<Longrightarrow> event_of t s s' = [] \<Longrightarrow> lock (mtx s') = lock (mtx s)"
  by (erule unlock_step.cases) (auto simp: event_of_def split: if_splits)

text \<open>A successful compare-and-swap found the word 0; the store of unlock leaves 0.\<close>

lemma acquire_was_free:
  "lock_step E t s s' \<or> unlock_step t s s' \<Longrightarrow> pcs s t \<noteq> SetOwner \<Longrightarrow> pcs s' t = SetOwner \<Longrightarrow>
    lock (mtx s) = 0"
  by (elim disjE lock_step.cases unlock_step.cases)
    (auto simp: atomic_cas_def after_failed_cas_def after_wait_error_def split: if_splits)

lemma release_leaves_free:
  "lock_step E t s s' \<or> unlock_step t s s' \<Longrightarrow> pcs s t = StoreLock \<Longrightarrow> lock (mtx s') = 0"
  by (elim disjE lock_step.cases unlock_step.cases) (auto simp: atomic_store_def)

lemma sim_free: "mutex_inv s \<Longrightarrow> lock (mtx s) = 0 \<Longrightarrow> unheld s"
  by (auto simp: mutex_inv_def held_by_def)

lemma lock_sim_step:
  assumes inv: "mutex_inv s" and sim: "lock_sim s a"
    and step: "0 < t" "lock_step E t s s' \<or> unlock_step t s s'"
  shows "\<exists>a'. spec_run lock_next a (event_of t s s') = Some a' \<and> lock_sim s' a'"
proof -
  have mstep: "mutex_step E s s'" using step by (auto intro: by_lock by_unlock)
  have inv': "mutex_inv s'" by (rule mutex_inv_step [OF inv mstep])
  consider (acq) "pcs s t \<noteq> SetOwner" "pcs s' t = SetOwner"
    | (rel) "pcs s t = StoreLock" "pcs s' t = Wake" | (silent) "event_of t s s' = []"
    by (metis event_of_def)
  then show ?thesis
  proof cases
    case acq
    have "a = None" using sim acquire_was_free [OF step(2) acq]
      by (cases a) (auto simp: lock_sim_def held_by_def)
    moreover have "held_by t s'" by (rule critical_holder [OF inv']) (simp add: acq)
    ultimately show ?thesis using acq by (simp add: event_of_def lock_sim_def)
  next
    case rel
    have "held_by t s" by (rule critical_holder [OF inv]) (simp add: rel)
    then have "a = Some t" using sim held_by_unique held_not_unheld
      by (cases a) (auto simp: lock_sim_def)
    then show ?thesis using rel sim_free [OF inv' release_leaves_free [OF step(2) rel(1)]]
      by (simp add: event_of_def lock_sim_def)
  next
    case silent
    then have "lock (mtx s') = lock (mtx s)" using step(2) silent_lock silent_unlock by blast
    then have "lock_sim s' a"
      using keeps_step [OF inv mstep] sim sim_free [OF inv']
      by (cases a) (auto simp: lock_sim_def keeps_def unheld_def held_by_def)
    then show ?thesis by (simp add: silent)
  qed
qed

lemma lock_sim_init: "mutex_initial s \<Longrightarrow> mutex_inv s \<and> lock_sim s None"
  using mutex_inv_init [of s] sim_free [of s]
  by (auto simp: mutex_initial_def pthread_mutex_init_def lock_sim_def)

interpretation mutex_spec: trace_refinement mutex_initial "mutex_lstep E" mutex_inv None lock_next lock_sim for E
  by unfold_locales
    (auto simp: lock_sim_init mutex_lstep_step elim!: mutex_lstepE intro: lock_sim_step mutex_inv_step by_lock by_unlock)

end
