(* ===== verification/Mutex_Claims.thy ===== *)
theory Mutex_Claims
  imports Mutex
begin

text \<open>The properties of the mutex, and runs of one and of two threads they are applied to.\<close>

subsection \<open>Runs\<close>

definition mutex0 :: mstate where
  "mutex0 = \<lparr>mtx = \<lparr>lock = 0, owner = 0\<rparr>, pcs = (\<lambda>_. Out 0), inside = {}\<rparr>"

lemma mutex0_initial: "mutex_initial mutex0"
  by (auto simp: mutex_initial_def mutex0_def pthread_mutex_init_def)

lemma goto_goto [simp]: "goto t p (goto t q s) = goto t p s"
  by (simp add: goto_def)

lemma goto_set_mtx: "goto t p (set_mtx m s) = set_mtx m (goto t p s)"
  by (simp add: goto_def set_mtx_def)

lemma set_mtx_set_mtx [simp]: "set_mtx m (set_mtx m' s) = set_mtx m s"
  by (simp add: set_mtx_def)

lemma set_mtx_same [simp]: "set_mtx (mtx s) s = s"
  by (simp add: set_mtx_def)

text \<open>An uncontended lock call, from outside to return.\<close>

lemma lock_run:
  assumes "0 < t" and "pcs s t = Out r" and "lock (mtx s) = 0" and "owner (mtx s) \<noteq> t"
  shows "(mutex_step E)\<^sup>*\<^sup>* s ((goto t (Out 0) (set_mtx \<lparr>lock = 1, owner = t\<rparr> s))\<lparr>inside := insert t (inside s)\<rparr>)"
proof -
  let ?a = "goto t Enter s" and ?b = "goto t (Cas 100) s"
  let ?c = "goto t SetOwner (set_mtx ((mtx s)\<lparr>lock := 1\<rparr>) ?b)"
  let ?d = "(goto t (Out 0) (set_mtx ((mtx ?c)\<lparr>owner := t\<rparr>) ?c))\<lparr>inside := insert t (inside ?c)\<rparr>"
  have 1: "mutex_step E s ?a" by (rule by_lock [OF assms(1) call_lock [OF assms(2)]])
  have 2: "mutex_step E ?a ?b" using by_lock [OF assms(1) lock_enter, of ?a E] assms by simp
  have 3: "mutex_step E ?b ?c"
    by (rule by_lock [OF assms(1) cas_ok [of _ _ 100]]) (use assms in \<open>simp_all add: atomic_cas_def\<close>)
  have 4: "mutex_step E ?c ?d" by (rule by_lock [OF assms(1) set_owner]) simp
  have "?d = (goto t (Out 0) (set_mtx \<lparr>lock = 1, owner = t\<rparr> s))\<lparr>inside := insert t (inside s)\<rparr>"
    by (simp add: goto_set_mtx)
  with 1 2 3 4 show ?thesis by (metis (no_types, lifting) converse_rtranclp_into_rtranclp rtranclp.rtrancl_refl)
qed

text \<open>The attempts of a thread that keeps finding the lock taken.\<close>

lemma spin_run:
  assumes "lock (mtx s) = 1"
  shows "pcs s t = Cas (int n) \<Longrightarrow> (lock_step E t ^^ Suc n) s (goto t (Wait (- 1)) s)"
  using assms
proof (induction n arbitrary: s)
  case 0
  have "lock_step E t s (goto t (after_failed_cas 0) (set_mtx (mtx s) s))"
    using 0 by (intro cas_fail [of _ _ 0]) (simp_all add: atomic_cas_def)
  then show ?case by (simp add: after_failed_cas_def relcompp_apply)
next
  case (Suc n)
  let ?s = "goto t (Cas (int n)) s"
  have "lock_step E t s (goto t (after_failed_cas (int (Suc n))) (set_mtx (mtx s) s))"
    using Suc.prems by (intro cas_fail) (simp_all add: atomic_cas_def)
  then have "lock_step E t s ?s" by (simp add: after_failed_cas_def)
  moreover have "(lock_step E t ^^ Suc n) ?s (goto t (Wait (- 1)) ?s)"
    by (rule Suc.IH) (use Suc.prems in simp_all)
  ultimately show ?case by (metis goto_goto relpowp_Suc_I2)
qed

lemma lock_steps: "0 < t \<Longrightarrow> (lock_step E t)\<^sup>*\<^sup>* s s' \<Longrightarrow> (mutex_step E)\<^sup>*\<^sup>* s s'"
  by (rule rtranclp_mono [THEN predicate2D, rotated]) (auto intro: by_lock)

lemma unlock_steps: "0 < t \<Longrightarrow> (unlock_step t)\<^sup>*\<^sup>* s s' \<Longrightarrow> (mutex_step E)\<^sup>*\<^sup>* s s'"
  by (rule rtranclp_mono [THEN predicate2D, rotated]) (auto intro: by_unlock)

text \<open>Unlock by the thread inside, up to the wake and with it.\<close>

lemma unlock_run:
  assumes "mutex_inv s" and "t \<in> inside s" and "pcs s t = Out r"
  shows "(unlock_step t)\<^sup>*\<^sup>* s ((goto t Wake (set_mtx \<lparr>lock = 0, owner = 0\<rparr> s))\<lparr>inside := {}\<rparr>)"
proof -
  have h: "held_by t s" using assms(1,2) by (auto simp: mutex_inv_def held_by_def unheld_def)
  have o: "owner (mtx s) = t" "inside s = {t}"
    using h assms(2,3) by (auto simp: held_by_def split: if_splits)
  let ?a = "(goto t UEnter s)\<lparr>inside := inside s - {t}\<rparr>"
  let ?b = "goto t ClearOwner ?a"
  let ?c = "goto t StoreLock (set_mtx ((mtx ?b)\<lparr>owner := 0\<rparr>) ?b)"
  let ?d = "goto t Wake (set_mtx (atomic_store 0 (mtx ?c)) ?c)"
  have 1: "unlock_step t s ?a" by (rule call_unlock [OF assms(3)])
  have 2: "unlock_step t ?a ?b" by (rule unlock_enter) (simp_all add: o)
  have 3: "unlock_step t ?b ?c" by (rule clear_owner) simp
  have 4: "unlock_step t ?c ?d" by (rule store_lock) simp
  have "?d = (goto t Wake (set_mtx \<lparr>lock = 0, owner = 0\<rparr> s))\<lparr>inside := {}\<rparr>"
    using o by (simp add: goto_def set_mtx_def atomic_store_def)
  with 1 2 3 4 show ?thesis by (metis (no_types, lifting) converse_rtranclp_into_rtranclp rtranclp.rtrancl_refl)
qed

lemma reachable_steps: "reachable init step s \<Longrightarrow> step\<^sup>*\<^sup>* s s' \<Longrightarrow> reachable init step s'"
  unfolding reachable_def by (meson rtranclp_trans)

definition mutex1 :: mstate where
  "mutex1 = (goto 1 (Out 0) (set_mtx \<lparr>lock = 1, owner = 1\<rparr> mutex0))\<lparr>inside := {1}\<rparr>"

lemma mutex1_reachable: "reachable mutex_initial (mutex_step E) mutex1"
proof -
  have "reachable mutex_initial (mutex_step E) mutex0" using mutex0_initial by (rule reachable_init)
  from reachable_steps [OF this lock_run [of 1 mutex0 0 E]] show ?thesis
    by (simp add: mutex1_def mutex0_def)
qed

text \<open>The events of an uncontended lock call and of an unlock that finds nobody asleep.\<close>

lemma traced_lock:
  "traced (mutex_lstep E) s0 es s \<Longrightarrow> 0 < t \<Longrightarrow> lock_step E t s s' \<Longrightarrow> event_of t s s' = fs \<Longrightarrow>
    traced (mutex_lstep E) s0 (es @ fs) s'"
  using traced_step lstep_lock by metis

lemma traced_unlock:
  "traced (mutex_lstep E) s0 es s \<Longrightarrow> 0 < t \<Longrightarrow> unlock_step t s s' \<Longrightarrow> event_of t s s' = fs \<Longrightarrow>
    traced (mutex_lstep E) s0 (es @ fs) s'"
  using traced_step lstep_unlock by metis

lemma lock_trace:
  assumes "traced (mutex_lstep E) s0 es s"
    and "0 < t" and "pcs s t = Out r" and "lock (mtx s) = 0" and "owner (mtx s) \<noteq> t"
  shows "traced (mutex_lstep E) s0 (es @ [Acquire t])
    ((goto t (Out 0) (set_mtx \<lparr>lock = 1, owner = t\<rparr> s))\<lparr>inside := insert t (inside s)\<rparr>)"
proof -
  let ?a = "goto t Enter s" and ?b = "goto t (Cas 100) (goto t Enter s)"
  let ?c = "goto t SetOwner (set_mtx ((mtx s)\<lparr>lock := 1\<rparr>) ?b)"
  let ?d = "(goto t (Out 0) (set_mtx ((mtx ?c)\<lparr>owner := t\<rparr>) ?c))\<lparr>inside := insert t (inside ?c)\<rparr>"
  have "traced (mutex_lstep E) s0 (es @ []) ?a"
    by (rule traced_lock [OF assms(1,2) call_lock [OF assms(3)]]) (simp add: event_of_def assms)
  then have "traced (mutex_lstep E) s0 ((es @ []) @ []) ?b"
    by (rule traced_lock [OF _ assms(2) lock_enter]) (simp_all add: event_of_def assms)
  then have "traced (mutex_lstep E) s0 (((es @ []) @ []) @ [Acquire t]) ?c"
    by (rule traced_lock [OF _ assms(2) cas_ok [of _ _ 100]])
      (simp_all add: event_of_def atomic_cas_def assms)
  then have "traced (mutex_lstep E) s0 ((((es @ []) @ []) @ [Acquire t]) @ []) ?d"
    by (rule traced_lock [OF _ assms(2) set_owner]) (simp_all add: event_of_def)
  moreover have "?d = (goto t (Out 0) (set_mtx \<lparr>lock = 1, owner = t\<rparr> s))\<lparr>inside := insert t (inside s)\<rparr>"
    by (simp add: goto_set_mtx)
  ultimately show ?thesis by simp
qed

lemma unlock_trace:
  assumes "traced (mutex_lstep E) s0 es s" and "mutex_inv s" and "t \<in> inside s"
    and "pcs s t = Out r" and "0 < t" and "\<forall>u n. pcs s u \<noteq> Asleep n"
  shows "traced (mutex_lstep E) s0 (es @ [Release t])
    (goto t (Out 0) ((set_mtx \<lparr>lock = 0, owner = 0\<rparr> s)\<lparr>inside := {}\<rparr>))"
proof -
  have "held_by t s" using assms(2,3) by (auto simp: mutex_inv_def held_by_def unheld_def)
  then have o: "owner (mtx s) = t" "inside s = {t}"
    using assms(3,4) by (auto simp: held_by_def split: if_splits)
  let ?a = "(goto t UEnter s)\<lparr>inside := inside s - {t}\<rparr>"
  let ?b = "goto t ClearOwner ?a"
  let ?c = "goto t StoreLock (set_mtx ((mtx ?b)\<lparr>owner := 0\<rparr>) ?b)"
  let ?d = "goto t Wake (set_mtx (atomic_store 0 (mtx ?c)) ?c)"
  have "traced (mutex_lstep E) s0 (es @ []) ?a"
    by (rule traced_unlock [OF assms(1,5) call_unlock [OF assms(4)]]) (simp add: event_of_def assms)
  then have "traced (mutex_lstep E) s0 ((es @ []) @ []) ?b"
    by (rule traced_unlock [OF _ assms(5) unlock_enter]) (simp_all add: event_of_def o)
  then have "traced (mutex_lstep E) s0 (((es @ []) @ []) @ []) ?c"
    by (rule traced_unlock [OF _ assms(5) clear_owner]) (simp_all add: event_of_def)
  then have "traced (mutex_lstep E) s0 ((((es @ []) @ []) @ []) @ [Release t]) ?d"
    by (rule traced_unlock [OF _ assms(5) store_lock]) (simp_all add: event_of_def)
  then have "traced (mutex_lstep E) s0 (((((es @ []) @ []) @ []) @ [Release t]) @ []) (goto t (Out 0) ?d)"
    by (rule traced_unlock [OF _ assms(5) wake_none]) (use assms(6) in \<open>simp_all add: event_of_def\<close>)
  moreover have "goto t (Out 0) ?d = goto t (Out 0) ((set_mtx \<lparr>lock = 0, owner = 0\<rparr> s)\<lparr>inside := {}\<rparr>)"
    using o by (simp add: goto_def set_mtx_def atomic_store_def)
  ultimately show ?thesis by simp
qed

text \<open>Every reachable state ends a run with some events.\<close>

lemma reachable_traced:
  "reachable mutex_initial (mutex_step E) s \<longleftrightarrow> (\<exists>s0 es. mutex_initial s0 \<and> traced (mutex_lstep E) s0 es s)"
proof
  assume "reachable mutex_initial (mutex_step E) s"
  then obtain s0 where s0: "mutex_initial s0" and run: "(mutex_step E)\<^sup>*\<^sup>* s0 s"
    by (auto simp: reachable_def)
  from run have "\<exists>es. traced (mutex_lstep E) s0 es s"
    by (induction rule: rtranclp_induct) (auto simp: mutex_lstep_step intro: traced.intros)
  with s0 show "\<exists>s0 es. mutex_initial s0 \<and> traced (mutex_lstep E) s0 es s" by blast
next
  assume "\<exists>s0 es. mutex_initial s0 \<and> traced (mutex_lstep E) s0 es s"
  then obtain s0 es where s0: "mutex_initial s0" and run: "traced (mutex_lstep E) s0 es s" by blast
  from run have "(mutex_step E)\<^sup>*\<^sup>* s0 s"
    by (induction rule: traced.induct) (auto simp: mutex_lstep_step intro: rtranclp.rtrancl_into_rtrancl)
  with s0 show "reachable mutex_initial (mutex_step E) s" by (auto simp: reachable_def)
qed

subsection \<open>Properties\<close>

text \<open>C4. Mutual exclusion: whatever the interleaving and whatever errors the futex call returns, at
  most one thread is between a successful lock and its next call of unlock; the lock word is 1 then
  and the owner field names that thread.\<close>

theorem mutex_exclusion:
  assumes "reachable mutex_initial (mutex_step E) s" and "t \<in> inside s" and "u \<in> inside s"
  shows "t = u \<and> lock (mtx s) = 1 \<and> owner (mtx s) = t"
proof -
  have "mutex_inv s" using mutex.inv_reachable [OF assms(1)] .
  then obtain h where "held_by h s" using assms(2) by (auto simp: mutex_inv_def unheld_def)
  then show ?thesis using assms(2,3) by (auto simp: held_by_def split: if_splits)
qed

theorem mutex_exclusion_witness: "lock (mtx mutex1) = 1 \<and> owner (mtx mutex1) = 1"
  using mutex_exclusion [OF mutex1_reachable [of "{}"], of 1 1] by (simp add: mutex1_def)

text \<open>C5. No lost wakeup: if waits end only by a wake (also a spurious one), by EINTR or by EAGAIN,
  then whenever a thread sleeps on the futex while the lock word is 0, some thread is about to wake a
  sleeper or is still trying to take the lock.\<close>

theorem mutex_no_lost_wakeup:
  assumes "reachable mutex_initial (mutex_step {EINTR}) s" and "pcs s u = Asleep n"
    and "lock (mtx s) = 0"
  shows "\<exists>t. pcs s t = Wake \<or> (\<exists>k. pcs s t = Cas k \<or> pcs s t = Wait k)"
  using mutex_progress.inv_reachable [OF assms(1)] assms(2,3)
  unfolding mutex_live_def sleepers_served_def trying_pc_def by metis

theorem mutex_no_lost_wakeup_witness:
  "\<exists>s t. reachable mutex_initial (mutex_step {EINTR}) s \<and> pcs s 2 = Asleep (- 1) \<and> lock (mtx s) = 0 \<and>
    (pcs s t = Wake \<or> (\<exists>k. pcs s t = Cas k \<or> pcs s t = Wait k))"
proof -
  let ?M = "mutex_step {EINTR}"
  let ?a = "goto 2 Enter mutex1" and ?b = "goto 2 (Cas 100) mutex1" and ?c = "goto 2 (Wait (- 1)) mutex1"
    and ?d = "goto 2 (Asleep (- 1)) mutex1"
  have "?M mutex1 ?a"
    by (rule by_lock [of 2]) (simp, rule call_lock [of _ _ 0], simp add: mutex1_def mutex0_def)
  moreover have "?M ?a ?b"
    using by_lock [OF _ lock_enter, of 2 ?a "{EINTR}"] by (simp add: mutex1_def)
  moreover have "?M\<^sup>*\<^sup>* ?b ?c"
    using spin_run [of ?b 2 100 "{EINTR}"] lock_steps [of 2 "{EINTR}" ?b ?c]
    by (simp add: mutex1_def relpowp_imp_rtranclp)
  moreover have "?M ?c ?d"
    using by_lock [OF _ wait_sleep, of 2 ?c "- 1" "{EINTR}"] by (simp add: mutex1_def)
  ultimately have "?M\<^sup>*\<^sup>* mutex1 ?d"
    by (meson converse_rtranclp_into_rtranclp rtranclp.rtrancl_into_rtrancl rtranclp_trans)
  then have rd: "reachable mutex_initial ?M ?d" by (rule reachable_steps [OF mutex1_reachable])
  let ?e = "(goto 1 Wake (set_mtx \<lparr>lock = 0, owner = 0\<rparr> ?d))\<lparr>inside := {}\<rparr>"
  have "(unlock_step 1)\<^sup>*\<^sup>* ?d ?e"
    using mutex.inv_reachable [OF rd] by (rule unlock_run [of _ _ 0]) (simp_all add: mutex1_def)
  then have "reachable mutex_initial ?M ?e"
    using reachable_steps [OF rd] unlock_steps [of 1] by simp
  moreover have "pcs ?e 2 = Asleep (- 1)" "lock (mtx ?e) = 0" by simp_all
  ultimately show ?thesis using mutex_no_lost_wakeup [of ?e 2 "- 1"] by blast
qed

text \<open>C6. The mutex implements an abstract lock, trace by trace. In every run of any number of threads
  from an initialised mutex, the successful compare-and-swaps (\<open>Acquire t\<close>) and the releasing stores of
  unlock (\<open>Release t\<close>), in the order they happen, are a history of a lock that is acquired only when it
  is free and released only by the thread that holds it: never two acquisitions without a release
  between, never a release by another thread, no hand-over. At every moment the lock word is 0 exactly
  when that lock is free, and the threads inside, or between their compare-and-swap and their return,
  or on their way through unlock, are its holder.\<close>

theorem mutex_refines_lock:
  assumes "mutex_initial s0" and "traced (mutex_lstep E) s0 es s"
  shows "\<exists>a. spec_run lock_next None es = Some a \<and> (a = None \<longleftrightarrow> lock (mtx s) = 0) \<and>
    inside s \<subseteq> set_option a \<and> (\<forall>t. pcs s t \<in> {SetOwner, ClearOwner, StoreLock} \<longrightarrow> a = Some t)"
proof -
  obtain a where a: "spec_run lock_next None es = Some a" "lock_sim s a"
    using mutex_spec.sim_traced [OF assms(2,1)] by blast
  moreover have "(a = None \<longleftrightarrow> lock (mtx s) = 0) \<and> inside s \<subseteq> set_option a"
    using a(2) by (cases a) (auto simp: lock_sim_def unheld_def held_by_def)
  moreover have "a = Some t" if "pcs s t \<in> {SetOwner, ClearOwner, StoreLock}" for t
  proof -
    have "held_by t s" using mutex_spec.sim_traced [OF assms(2,1)] that
      by (intro critical_holder) (auto simp: critical_pc_def)
    with a(2) show ?thesis
      using held_by_unique held_not_unheld by (cases a) (auto simp: lock_sim_def)
  qed
  ultimately show ?thesis by blast
qed

theorem mutex_refines_lock_witness:
  "\<exists>s. traced (mutex_lstep {}) mutex0 [Acquire 1, Release 1, Acquire 2] s \<and> lock (mtx s) = 1 \<and>
    inside s = {2} \<and> (\<exists>a. spec_run lock_next None [Acquire 1, Release 1, Acquire 2] = Some a \<and> a \<noteq> None)"
proof -
  let ?L = "mutex_lstep {}"
  have 1: "traced ?L mutex0 [Acquire 1] mutex1"
    using lock_trace [OF traced_start, of 1 mutex0 0 "{}"] by (simp add: mutex1_def mutex0_def)
  have "mutex_inv mutex1" using mutex.inv_reachable [OF mutex1_reachable [of "{}"]] .
  from unlock_trace [OF 1 this, of 1 0]
  have 2: "traced ?L mutex0 [Acquire 1, Release 1] (goto 1 (Out 0) mutex0)"
    by (simp add: mutex1_def mutex0_def goto_def set_mtx_def)
  from lock_trace [OF 2, of 2 0]
  obtain s where 3: "traced ?L mutex0 [Acquire 1, Release 1, Acquire 2] s" "lock (mtx s) = 1" "inside s = {2}"
    by (auto simp: mutex0_def)
  from mutex_refines_lock [OF mutex0_initial 3(1)] 3 show ?thesis by (intro exI [of _ s]) auto
qed

text \<open>A thread that finds the lock taken makes 101 attempts in all before it asks the kernel to
  put it to sleep, and it is put to sleep then.\<close>

theorem mutex_spins_101_times:
  assumes "pcs s t = Cas 100" and "lock (mtx s) = 1"
  shows "(lock_step E t ^^ 101) s (goto t (Wait (- 1)) s) \<and>
    lock_step E t (goto t (Wait (- 1)) s) (goto t (Asleep (- 1)) s)"
proof -
  have "lock_step E t (goto t (Wait (- 1)) s) (goto t (Asleep (- 1)) (goto t (Wait (- 1)) s))"
    using assms(2) by (intro wait_sleep [of _ _ "- 1"]) simp_all
  moreover have "(lock_step E t ^^ Suc 100) s (goto t (Wait (- 1)) s)"
    by (rule spin_run) (use assms in simp_all)
  ultimately show ?thesis by (simp del: relpowp.simps)
qed

theorem mutex_spins_101_times_witness:
  "(lock_step {} 2 ^^ 101) (goto 2 (Cas 100) mutex1) (goto 2 (Wait (- 1)) mutex1)"
proof -
  have "(lock_step {} 2 ^^ 101) (goto 2 (Cas 100) mutex1) (goto 2 (Wait (- 1)) (goto 2 (Cas 100) mutex1))"
    using mutex_spins_101_times [of "goto 2 (Cas 100) mutex1" 2 "{}"]
    by (simp add: mutex1_def del: relpowp.simps)
  then show ?thesis by (simp del: relpowp.simps)
qed

text \<open>C22. A call of unlock by the thread inside always succeeds: run on its own it clears the owner
  and the lock word, wakes one sleeper if there is one, and returns 0.\<close>

theorem unlock_by_holder_returns_0:
  assumes "reachable mutex_initial (mutex_step E) s" and "t \<in> inside s" and "pcs s t = Out r"
  shows "\<exists>s'. (unlock_step t)\<^sup>*\<^sup>* s s' \<and> pcs s' t = Out 0 \<and> mtx s' = \<lparr>lock = 0, owner = 0\<rparr> \<and>
    ((\<exists>u n. pcs s u = Asleep n) \<longrightarrow> (\<exists>u n. pcs s u = Asleep n \<and> pcs s' u = Cas 100))"
proof -
  let ?w = "(goto t Wake (set_mtx \<lparr>lock = 0, owner = 0\<rparr> s))\<lparr>inside := {}\<rparr>"
  have run: "(unlock_step t)\<^sup>*\<^sup>* s ?w"
    by (rule unlock_run [OF mutex.inv_reachable [OF assms(1)] assms(2,3)])
  show ?thesis
  proof (cases "\<exists>u n. pcs s u = Asleep n")
    case True
    then obtain u n where u: "pcs s u = Asleep n" by blast
    then have ut: "u \<noteq> t" using assms(3) by auto
    have "unlock_step t ?w (goto u (Cas 100) (goto t (Out 0) ?w))"
      by (rule wake_one [of _ _ _ n]) (use u ut in simp_all)
    with run have "(unlock_step t)\<^sup>*\<^sup>* s (goto u (Cas 100) (goto t (Out 0) ?w))"
      by (rule rtranclp.rtrancl_into_rtrancl)
    with u ut show ?thesis by (intro exI [of _ "goto u (Cas 100) (goto t (Out 0) ?w)"]) auto
  next
    case False
    have "unlock_step t ?w (goto t (Out 0) ?w)" by (rule wake_none) (use False in auto)
    with run have "(unlock_step t)\<^sup>*\<^sup>* s (goto t (Out 0) ?w)" by (rule rtranclp.rtrancl_into_rtrancl)
    with False show ?thesis by (intro exI [of _ "goto t (Out 0) ?w"]) auto
  qed
qed

theorem unlock_by_holder_returns_0_witness:
  "\<exists>s'. (unlock_step 1)\<^sup>*\<^sup>* mutex1 s' \<and> pcs s' 1 = Out 0 \<and> mtx s' = \<lparr>lock = 0, owner = 0\<rparr>"
  using unlock_by_holder_returns_0 [OF mutex1_reachable [of "{}"], of 1 0] by (auto simp: mutex1_def)

end
