(* ===== verification/Pthread.thy ===== *)
theory Pthread
  imports Malloc_Client Transition
begin

text \<open>
  Threads: mini_libc/src/pthread.c. \<open>pthread_create\<close> is a function on the heap and the kernel;
  \<open>thread_start_args\<close> is a payload of 40 bytes from \<open>malloc\<close>, its fields at the offsets the
  AArch64 layout gives them. What the new thread and \<open>pthread_join\<close> do with it afterwards is a step
  relation, one shared access or futex call at a time.
\<close>

definition STACK_SIZE :: u64 where "STACK_SIZE = 64 * 1024"

definition PTHREAD_FLAGS :: i32 where
  "PTHREAD_FLAGS = 0x100 OR 0x200 OR 0x400 OR 0x800 OR 0x10000 OR 0x40000 OR 0x100000 OR 0x200000"

text \<open>Offsets in \<open>struct thread_start_args\<close>.\<close>

definition off_start_routine :: u64 where "off_start_routine = 0"
definition off_arg :: u64 where "off_arg = 8"
definition off_stack :: u64 where "off_stack = 16"
definition off_has_exited :: u64 where "off_has_exited = 24"
definition off_tid :: u64 where "off_tid = 28"
definition off_return_value :: u64 where "off_return_value = 32"

definition set_mem :: "(mem \<Rightarrow> mem) \<Rightarrow> 'k heap \<Rightarrow> 'k heap" where
  "set_mem f h = h\<lparr>hw := (hw h)\<lparr>wmem := f (wmem (hw h))\<rparr>\<rparr>"

text \<open>In the creator the call returns; the new thread runs \<open>pthread_start\<close> on the arguments.\<close>

datatype create_outcome = Created i32 | NewThread u64 u64

definition pthread_create :: "'k kernel \<Rightarrow> u64 \<Rightarrow> u64 \<Rightarrow> u64 \<Rightarrow> u64 \<Rightarrow> 'k heap \<Rightarrow>
    (create_outcome \<times> 'k heap) option" where
  "pthread_create K pthread_start thread start_routine arg h =
     (let (stack, w1) = mmap K 0 STACK_SIZE 3 0x20022 (- 1) 0 (hw h);
          h1 = h\<lparr>hw := w1\<rparr>
      in if stack = MAP_FAILED then Some (Created (- 1), h1)
         else Option.bind (malloc K 40 h1) (\<lambda>(sa, h2).
           if sa = 0 then
             (let (_, w3) = munmap K stack STACK_SIZE (hw h2) in Some (Created (- 1), h2\<lparr>hw := w3\<rparr>))
           else
             let h3 = set_mem (\<lambda>m. st32 (st64 (st64 (st64 m (sa + off_start_routine) start_routine)
                        (sa + off_arg) arg) (sa + off_stack) stack) (sa + off_has_exited) 0) h2;
                 stack_top = (stack + STACK_SIZE) AND NOT 15;
                 (r, w4) = clone K pthread_start stack_top PTHREAD_FLAGS sa (sa + off_tid, 0, sa + off_tid) (hw h3);
                 h4 = h3\<lparr>hw := w4\<rparr>
             in case r of
                  RunsChild f a \<Rightarrow> Some (NewThread f a, h4)
                | Returns ret \<Rightarrow>
                    if sint ret < 0 then
                      Option.bind (free sa (h4\<lparr>printed := printed h4 @ [''clone failed\<newline>'']\<rparr>)) (\<lambda>h5.
                        let (_, w6) = munmap K stack STACK_SIZE (hw h5)
                        in Some (Created (- 1), h5\<lparr>hw := w6\<rparr>))
                    else Some (Created 0, set_mem (\<lambda>m. st64 m thread sa) h4)))"

subsection \<open>Start and join\<close>

text \<open>
  The new thread: running the start routine, about to set \<open>has_exited\<close>, about to wake the joiner,
  returning through \<open>clone\<close> to the exit call, gone. The joiner: at the loop test, about to wait,
  asleep, about to read the result, about to free the arguments, about to unmap the stack, done.
\<close>

datatype child_pc = CRun | CSetFlag | CWake | CReturn | CGone
datatype join_pc = JCheck | JWait | JAsleep | JRead | JFree | JUnmap | JDone

record jstate =
  cpc :: child_pc
  jpc :: join_pc
  has_exited :: int
  return_value :: "u64 option"
  retval :: "u64 option"
  args_live :: bool
  stack_mapped :: bool
  stale_write :: bool

text \<open>
  \<open>res\<close> is what the start routine returns. At exit the kernel clears the \<open>tid\<close> field of the
  arguments (\<open>CLONE_CHILD_CLEARTID\<close>); \<open>stale_write\<close> notes that it did so after they were freed.
\<close>

inductive pthread_start_step :: "u64 \<Rightarrow> jstate \<Rightarrow> jstate \<Rightarrow> bool" for res where
  start_returns: "cpc s = CRun \<Longrightarrow> pthread_start_step res s (s\<lparr>cpc := CSetFlag, return_value := Some res\<rparr>)"
| set_flag: "cpc s = CSetFlag \<Longrightarrow> pthread_start_step res s (s\<lparr>cpc := CWake, has_exited := 1\<rparr>)"
| wake: "cpc s = CWake \<Longrightarrow>
    pthread_start_step res s (s\<lparr>cpc := CReturn, jpc := (if jpc s = JAsleep then JCheck else jpc s)\<rparr>)"
| thread_exit: "cpc s = CReturn \<Longrightarrow> pthread_start_step res s (s\<lparr>cpc := CGone,
    stale_write := stale_write s \<or> \<not> args_live s\<rparr>)"

text \<open>\<open>want\<close>: the caller gave a place for the result.\<close>

inductive pthread_join_step :: "bool \<Rightarrow> jstate \<Rightarrow> jstate \<Rightarrow> bool" for want where
  check_running: "jpc s = JCheck \<Longrightarrow> has_exited s = 0 \<Longrightarrow> pthread_join_step want s (s\<lparr>jpc := JWait\<rparr>)"
| check_exited: "jpc s = JCheck \<Longrightarrow> has_exited s \<noteq> 0 \<Longrightarrow> pthread_join_step want s (s\<lparr>jpc := JRead\<rparr>)"
| join_sleep: "jpc s = JWait \<Longrightarrow> has_exited s = 0 \<Longrightarrow> pthread_join_step want s (s\<lparr>jpc := JAsleep\<rparr>)"
| join_again: "jpc s = JWait \<Longrightarrow> has_exited s \<noteq> 0 \<Longrightarrow> pthread_join_step want s (s\<lparr>jpc := JCheck\<rparr>)"
| join_interrupted: "jpc s = JAsleep \<Longrightarrow> pthread_join_step want s (s\<lparr>jpc := JCheck\<rparr>)"
| read_result: "jpc s = JRead \<Longrightarrow>
    pthread_join_step want s (s\<lparr>jpc := JFree, retval := (if want then return_value s else retval s)\<rparr>)"
| free_args: "jpc s = JFree \<Longrightarrow> pthread_join_step want s (s\<lparr>jpc := JUnmap, args_live := False\<rparr>)"
| unmap_stack: "jpc s = JUnmap \<Longrightarrow> pthread_join_step want s (s\<lparr>jpc := JDone, stack_mapped := False\<rparr>)"

inductive thread_step :: "bool \<Rightarrow> u64 \<Rightarrow> jstate \<Rightarrow> jstate \<Rightarrow> bool" for want res where
  by_thread: "pthread_start_step res s s' \<Longrightarrow> thread_step want res s s'"
| by_joiner: "pthread_join_step want s s' \<Longrightarrow> thread_step want res s s'"

inductive_cases thread_stepE: "thread_step want res s s'"

definition thread_created :: "jstate \<Rightarrow> bool" where
  "thread_created s \<longleftrightarrow> s = \<lparr>cpc = CRun, jpc = JCheck, has_exited = 0, return_value = None, retval = None,
     args_live = True, stack_mapped = True, stale_write = False\<rparr>"

subsection \<open>The invariant\<close>

definition join_past :: "join_pc \<Rightarrow> bool" where
  "join_past p \<longleftrightarrow> p \<in> {JRead, JFree, JUnmap, JDone}"

definition thread_inv :: "bool \<Rightarrow> u64 \<Rightarrow> jstate \<Rightarrow> bool" where
  "thread_inv want res s \<longleftrightarrow>
     (has_exited s = 0 \<longleftrightarrow> cpc s \<in> {CRun, CSetFlag}) \<and>
     (cpc s \<noteq> CRun \<longrightarrow> return_value s = Some res) \<and>
     (join_past (jpc s) \<longrightarrow> has_exited s \<noteq> 0) \<and>
     (jpc s = JAsleep \<longrightarrow> cpc s \<in> {CRun, CSetFlag, CWake}) \<and>
     (jpc s \<in> {JFree, JUnmap, JDone} \<longrightarrow> want \<longrightarrow> retval s = Some res) \<and>
     (args_live s \<longleftrightarrow> jpc s \<notin> {JUnmap, JDone}) \<and> (stack_mapped s \<longleftrightarrow> jpc s \<noteq> JDone)"

lemma thread_inv_step:
  assumes "thread_inv want res s" and "thread_step want res s s'"
  shows "thread_inv want res s'"
  using assms(2,1)
proof (cases rule: thread_step.cases)
  case by_thread
  then show ?thesis using assms(1)
    by (cases rule: pthread_start_step.cases) (auto simp: thread_inv_def join_past_def)
next
  case by_joiner
  then show ?thesis using assms(1)
    by (cases rule: pthread_join_step.cases) (auto simp: thread_inv_def join_past_def)
qed

lemma thread_inv_init: "thread_created s \<Longrightarrow> thread_inv want res s"
  by (simp add: thread_created_def thread_inv_def join_past_def)

interpretation pthread: inductive_invariant thread_created "thread_step want res" "thread_inv want res"
  for want res
  by unfold_locales (auto intro: thread_inv_init thread_inv_step)

subsection \<open>Progress\<close>

definition child_rank :: "child_pc \<Rightarrow> nat" where
  "child_rank p = (case p of CRun \<Rightarrow> 4 | CSetFlag \<Rightarrow> 3 | CWake \<Rightarrow> 2 | CReturn \<Rightarrow> 1 | CGone \<Rightarrow> 0)"

definition join_rank :: "join_pc \<Rightarrow> nat" where
  "join_rank p = (case p of JAsleep \<Rightarrow> 7 | JWait \<Rightarrow> 6 | JCheck \<Rightarrow> 5 | JRead \<Rightarrow> 4 | JFree \<Rightarrow> 3 | JUnmap \<Rightarrow> 2 | JDone \<Rightarrow> 1)"

definition thread_rank :: "jstate \<Rightarrow> nat" where
  "thread_rank s = 10 * child_rank (cpc s) + join_rank (jpc s)"

lemma thread_advances:
  assumes inv: "thread_inv want res s" and nd: "jpc s \<noteq> JDone"
  shows "\<exists>s'. thread_step want res s s' \<and> thread_rank s' < thread_rank s"
proof (cases "cpc s")
  case CRun
  then show ?thesis
    by (intro exI conjI) (rule by_thread [OF start_returns], simp_all add: thread_rank_def child_rank_def)
next
  case CSetFlag
  then show ?thesis
    by (intro exI conjI) (rule by_thread [OF set_flag], simp_all add: thread_rank_def child_rank_def)
next
  case CWake
  then show ?thesis
    by (intro exI conjI)
      (rule by_thread [OF wake], simp_all add: thread_rank_def child_rank_def join_rank_def)
next
  case CReturn
  then show ?thesis
    by (intro exI conjI) (rule by_thread [OF thread_exit], simp_all add: thread_rank_def child_rank_def)
next
  case CGone
  then have ex: "has_exited s \<noteq> 0" "jpc s \<noteq> JAsleep" using inv by (auto simp: thread_inv_def)
  show ?thesis
  proof (cases "jpc s")
    case JCheck
    with ex show ?thesis
      by (intro exI conjI) (rule by_joiner [OF check_exited], simp_all add: thread_rank_def join_rank_def)
  next
    case JWait
    with ex show ?thesis
      by (intro exI conjI) (rule by_joiner [OF join_again], simp_all add: thread_rank_def join_rank_def)
  next
    case JRead
    then show ?thesis
      by (intro exI conjI) (rule by_joiner [OF read_result], simp_all add: thread_rank_def join_rank_def)
  next
    case JFree
    then show ?thesis
      by (intro exI conjI) (rule by_joiner [OF free_args], simp_all add: thread_rank_def join_rank_def)
  next
    case JUnmap
    then show ?thesis
      by (intro exI conjI) (rule by_joiner [OF unmap_stack], simp_all add: thread_rank_def join_rank_def)
  qed (use ex nd in simp_all)
qed

lemma thread_finishes:
  "thread_inv want res s \<Longrightarrow> \<exists>s'. (thread_step want res)\<^sup>*\<^sup>* s s' \<and> jpc s' = JDone"
proof (induction "thread_rank s" arbitrary: s rule: less_induct)
  case less
  show ?case
  proof (cases "jpc s = JDone")
    case False
    then obtain s1 where s1: "thread_step want res s s1" "thread_rank s1 < thread_rank s"
      using thread_advances [OF less.prems] by blast
    then obtain s' where "(thread_step want res)\<^sup>*\<^sup>* s1 s'" "jpc s' = JDone"
      using less.hyps [OF s1(2) thread_inv_step [OF less.prems s1(1)]] by blast
    with s1(1) show ?thesis by (meson converse_rtranclp_into_rtranclp)
  qed blast
qed

subsection \<open>Properties\<close>

definition thread0 :: jstate where
  "thread0 = \<lparr>cpc = CRun, jpc = JCheck, has_exited = 0, return_value = None, retval = None,
     args_live = True, stack_mapped = True, stale_write = False\<rparr>"

lemma thread0_reachable: "reachable thread_created (thread_step want res) thread0"
  by (rule reachable_init) (simp add: thread_created_def thread0_def)

text \<open>C30. Once \<open>pthread_join\<close> has read it, the result handed to the caller is what the start routine
  returned, and the start routine has returned by then.\<close>

theorem join_delivers_result:
  assumes "reachable thread_created (thread_step True res) s" and "jpc s \<in> {JFree, JUnmap, JDone}"
  shows "retval s = Some res \<and> cpc s \<noteq> CRun"
  using pthread.inv_reachable [OF assms(1)] assms(2)
  by (auto simp: thread_inv_def join_past_def)

text \<open>C31. Joining never blocks for good: a joiner asleep in the futex has a wake still coming, and
  from every reachable state the joiner can still return.\<close>

theorem join_can_return:
  assumes "reachable thread_created (thread_step want res) s"
  shows "(jpc s = JAsleep \<longrightarrow> cpc s \<in> {CRun, CSetFlag, CWake}) \<and>
    (\<exists>s'. (thread_step want res)\<^sup>*\<^sup>* s s' \<and> jpc s' = JDone)"
  using pthread.inv_reachable [OF assms] thread_finishes by (simp add: thread_inv_def)

theorem join_can_return_witness: "\<exists>s'. (thread_step True 7)\<^sup>*\<^sup>* thread0 s' \<and> jpc s' = JDone"
  using join_can_return [OF thread0_reachable [of True 7]] by blast

theorem join_delivers_result_witness:
  "\<exists>s. reachable thread_created (thread_step True 7) s \<and> jpc s = JDone \<and> retval s = Some 7"
proof -
  obtain s where "(thread_step True 7)\<^sup>*\<^sup>* thread0 s" "jpc s = JDone"
    using thread_finishes [OF pthread.inv_reachable [OF thread0_reachable]] by blast
  moreover from this have "reachable thread_created (thread_step True 7) s"
    using thread0_reachable [of True 7] unfolding reachable_def by (meson rtranclp_trans)
  ultimately show ?thesis using join_delivers_result [of 7 s] by blast
qed

text \<open>But joining waits for the flag and not for the thread: there is a run in which the joiner
  has freed the arguments and unmapped the stack while the thread has still to make its futex call
  and return, on that stack; when it exits, the kernel clears its id inside the freed arguments.\<close>

theorem join_unmaps_stack_in_use:
  "\<exists>s s'. reachable thread_created (thread_step want res) s \<and> jpc s = JDone \<and>
     \<not> stack_mapped s \<and> \<not> args_live s \<and> cpc s = CWake \<and>
     (thread_step want res)\<^sup>*\<^sup>* s s' \<and> cpc s' = CGone \<and> stale_write s'"
proof -
  let ?T = "thread_step want res"
  define a where "a = thread0\<lparr>cpc := CSetFlag, return_value := Some res\<rparr>"
  define b where "b = a\<lparr>cpc := CWake, has_exited := 1\<rparr>"
  define c where "c = b\<lparr>jpc := JRead\<rparr>"
  define d where "d = c\<lparr>jpc := JFree, retval := (if want then return_value c else retval c)\<rparr>"
  define e where "e = d\<lparr>jpc := JUnmap, args_live := False\<rparr>"
  define f where "f = e\<lparr>jpc := JDone, stack_mapped := False\<rparr>"
  define g where "g = f\<lparr>cpc := CReturn, jpc := (if jpc f = JAsleep then JCheck else jpc f)\<rparr>"
  define k where "k = g\<lparr>cpc := CGone, stale_write := stale_write g \<or> \<not> args_live g\<rparr>"
  note defs = thread0_def a_def b_def c_def d_def e_def f_def g_def k_def
  have "?T thread0 a" unfolding a_def by (rule by_thread [OF start_returns]) (simp add: defs)
  moreover have "?T a b" unfolding b_def by (rule by_thread [OF set_flag]) (simp add: defs)
  moreover have "?T b c" unfolding c_def by (rule by_joiner [OF check_exited]) (simp_all add: defs)
  moreover have "?T c d" unfolding d_def by (rule by_joiner [OF read_result]) (simp add: defs)
  moreover have "?T d e" unfolding e_def by (rule by_joiner [OF free_args]) (simp add: defs)
  moreover have "?T e f" unfolding f_def by (rule by_joiner [OF unmap_stack]) (simp add: defs)
  ultimately have "reachable thread_created ?T f"
    using thread0_reachable by (meson reachable_step)
  moreover have "?T f g" unfolding g_def by (rule by_thread [OF wake]) (simp add: defs)
  moreover have "?T g k" unfolding k_def by (rule by_thread [OF thread_exit]) (simp add: defs)
  ultimately have "reachable thread_created ?T f \<and> ?T\<^sup>*\<^sup>* f k" by auto
  then show ?thesis by (intro exI [of _ f] exI [of _ k]) (simp add: defs)
qed

end
