(* ===== verification/Pthread_Life.thy ===== *)
theory Pthread_Life
  imports Pthread
begin

text \<open>
  A thread from \<open>pthread_create\<close> to \<open>pthread_join\<close> (mini_libc/src/pthread.c) on the heap of the
  caller. \<open>pthread_join\<close> is modelled here as the function the caller runs; what other threads do
  meanwhile happens in memory during its futex calls, so it is part of what the kernel parameter
  answers. (The interleaving itself is the step relation of the theory \<open>Pthread\<close>.)
\<close>

text \<open>\<open>while (!start_args->has_exited) futex(&start_args->has_exited, FUTEX_WAIT, 0, NULL, NULL, 0);\<close>\<close>

partial_function (option) join_wait :: "'k kernel \<Rightarrow> u64 \<Rightarrow> 'k world \<Rightarrow> 'k world option" where
  "join_wait K sa w =
     (if ld32 (wmem w) (sa + off_has_exited) = 0
      then join_wait K sa (snd (futex K (sa + off_has_exited) 0 0 0 0 0 w)) else Some w)"

definition pthread_join :: "'k kernel \<Rightarrow> u64 \<Rightarrow> u64 \<Rightarrow> 'k heap \<Rightarrow> (i32 \<times> 'k heap) option" where
  "pthread_join K thread result h =
     (if thread = 0 then Some (- 1, h\<lparr>printed := printed h @ [''pthread_join: thread is NULL\<newline>'']\<rparr>)
      else Option.bind (join_wait K thread (hw h)) (\<lambda>w1.
        let h1 = h\<lparr>hw := w1\<rparr>;
            h2 = (if result \<noteq> 0 then set_mem (\<lambda>m. st64 m result (ld64 m (thread + off_return_value))) h1 else h1);
            stack = ld64 (wmem (hw h2)) (thread + off_stack)
        in Option.bind (free thread h2) (\<lambda>h3.
             let (_, w4) = munmap K stack STACK_SIZE (hw h3) in Some (0, h3\<lparr>hw := w4\<rparr>))))"

lemma set_mem_simps [simp]:
  "hdr (set_mem f h) = hdr h" "alloc (set_mem f h) = alloc h" "galloc (set_mem f h) = galloc h"
  "wmem (hw (set_mem f h)) = f (wmem (hw h))" "hw (set_mem f h) = (hw h)\<lparr>wmem := f (wmem (hw h))\<rparr>"
  "set_mem f (set_mem g h) = set_mem (\<lambda>m. f (g m)) h"
  by (simp_all add: set_mem_def)

subsection \<open>What the caller relies on\<close>

text \<open>
  clone(2) in the calling thread: a positive thread id, stored at the address given for it
  (CLONE_PARENT_SETTID); the caller's memory is otherwise as it was.
\<close>

definition starts_threads :: "'k kernel \<Rightarrow> bool" where
  "starts_threads K \<longleftrightarrow>
     (\<forall>k m flags st ptid tls ctid f a. case K k m 220 [RX flags, RX st, RX ptid, RX tls, RX ctid, RX f, RX a] of
        (r, m', k') \<Rightarrow> 0 < sint (ucast r :: i32) \<and> (\<forall>x. \<not> in_region ptid 4 x \<longrightarrow> m' x = m x))"

text \<open>The arguments of a thread that has been created and not yet run.\<close>

definition start_args :: "mem \<Rightarrow> u64 \<Rightarrow> u64 \<Rightarrow> u64 \<Rightarrow> u64 \<Rightarrow> bool" where
  "start_args m sa start_routine arg stack \<longleftrightarrow>
     ld64 m (sa + off_start_routine) = start_routine \<and> ld64 m (sa + off_arg) = arg \<and>
     ld64 m (sa + off_stack) = stack \<and> ld32 m (sa + off_has_exited) = 0"

lemmas offsets = off_start_routine_def off_arg_def off_stack_def off_has_exited_def off_tid_def off_return_value_def

lemma ld64_agree: "(\<And>a. in_region p 8 a \<Longrightarrow> m' a = m a) \<Longrightarrow> ld64 m' p = ld64 m p"
  unfolding ld64_def by (rule arg_cong [OF bytes_at_cong]) (auto simp: in_region_index)

lemma ld32_agree: "(\<And>a. in_region p 4 a \<Longrightarrow> m' a = m a) \<Longrightarrow> ld32 m' p = ld32 m p"
  unfolding ld32_def by (rule arg_cong [OF bytes_at_cong]) (auto simp: in_region_index)

lemma start_args_agree:
  assumes "start_args m sa s a st" and "\<And>x. in_region sa 28 x \<Longrightarrow> m' x = m x"
  shows "start_args m' sa s a st"
  using assms(1) ld64_agree [of "sa + 0" m' m] ld64_agree [of "sa + 8" m' m] ld64_agree [of "sa + 16" m' m]
    ld32_agree [of "sa + 24" m' m] in_subregion [of sa 0 8 _ 28] in_subregion [of sa 8 8 _ 28]
    in_subregion [of sa 16 8 _ 28] in_subregion [of sa 24 4 _ 28] assms(2)
  by (simp add: start_args_def offsets)

lemma start_args_stored:
  "start_args (st32 (st64 (st64 (st64 m (sa + off_start_routine) s) (sa + off_arg) a) (sa + off_stack) st)
     (sa + off_has_exited) 0) sa s a st"
  by (simp add: start_args_def offsets ld_st_apart apart_def)

subsection \<open>Creating\<close>

lemma clone_starts:
  assumes "starts_threads K"
  shows "\<exists>ret m' k'. clone K f st flags a (ptid, tls, ctid) w = (Returns ret, w\<lparr>wmem := m', kst := k'\<rparr>) \<and>
    0 < sint ret \<and> (\<forall>x. \<not> in_region ptid 4 x \<longrightarrow> m' x = wmem w x)"
proof -
  obtain r m' k' where k: "K (kst w) (wmem w) 220 [RX (scast flags), RX st, RX ptid, RX tls, RX ctid, RX f, RX a] = (r, m', k')"
    by (metis prod_cases3)
  have "case K (kst w) (wmem w) 220 [RX (scast flags), RX st, RX ptid, RX tls, RX ctid, RX f, RX a] of
      (r, m', k') \<Rightarrow> 0 < sint (ucast r :: i32) \<and> (\<forall>x. \<not> in_region ptid 4 x \<longrightarrow> m' x = wmem w x)"
    by (rule assms [unfolded starts_threads_def, THEN spec, THEN spec, THEN spec, THEN spec, THEN spec,
          THEN spec, THEN spec, THEN spec, THEN spec])
  then have "0 < sint (ucast r :: i32) \<and> (\<forall>x. \<not> in_region ptid 4 x \<longrightarrow> m' x = wmem w x)"
    unfolding k case_prod_conv .
  moreover from this have "r \<noteq> 0" by auto
  ultimately show ?thesis using k by (auto simp: clone_def svc_def)
qed

lemma live_in_pool:
  assumes "heap_consistent A h" and "(p, n) \<in> A"
  shows "unat (heap_start (alloc h)) \<le> unat p"
    "unat p + unat n \<le> unat (heap_start (alloc h)) + unat (heap_size (alloc h))"
proof -
  obtain B L where "heap_ok h B L {}" "live h B p n"
    using heap_consistentE [OF assms(1)] assms(2) by metis
  from live_bound [OF heap_okD(1) [OF this(1)] this(2)]
  show "unat (heap_start (alloc h)) \<le> unat p"
    "unat p + unat n \<le> unat (heap_start (alloc h)) + unat (heap_size (alloc h))" by simp_all
qed

text \<open>A region outside the pool is apart from a live allocation in it.\<close>

lemma apart_pool:
  assumes a: "apart t k s (unat n)" and p: "unat s \<le> unat p" "unat p + j \<le> unat s + unat n" and j: "0 < j"
  shows "apart t k p j"
proof -
  let ?i = "unat p - unat s"
  have "p = s + of_nat ?i" using p(1) by (simp add: of_nat_diff)
  moreover have "apart (s + of_nat ?i) j t k"
    by (rule apart_shift [of s "unat n"]) (use a p j in \<open>auto simp: apart_sym\<close>)
  ultimately show ?thesis by (simp add: apart_sym)
qed

lemma malloc_after_mmap:
  assumes "heap_exact A h" and "served sz h"
  shows "\<exists>p h'. malloc K sz (h\<lparr>hw := w\<rparr>) = Some (p, h') \<and> heap_exact (insert (p, sz) A) h' \<and> p \<notin> fst ` A \<and>
    p \<noteq> 0 \<and> same_pool (h\<lparr>hw := w\<rparr>) h'"
  using assms heap_exact_cong [of "h\<lparr>hw := w\<rparr>" h] find_order_cong [of "h\<lparr>hw := w\<rparr>" h]
  by (intro malloc_exact) (simp_all add: served_def)

lemma pthread_create_ok:
  assumes c: "heap_exact A h" and s: "served 40 h" and K: "starts_threads K"
    and m: "mmap K 0 STACK_SIZE 3 0x20022 (- 1) 0 (hw h) = (stack, w1)" "stack \<noteq> MAP_FAILED"
    and fr: "\<And>p h0. malloc K 40 (h\<lparr>hw := w1\<rparr>) = Some (p, h0) \<Longrightarrow> free_within p h0"
    and out: "apart thread 8 (heap_start (alloc h)) (unat (heap_size (alloc h)))"
  shows "\<exists>sa h1. pthread_create K f thread start_routine arg h = Some (Created 0, h1) \<and>
    ld64 (wmem (hw h1)) thread = sa \<and> sa \<notin> fst ` A \<and> heap_exact (insert (sa, 40) A) h1 \<and>
    free_within sa h1 \<and> start_args (wmem (hw h1)) sa start_routine arg stack \<and>
    heap_start (alloc h1) = heap_start (alloc h) \<and> heap_size (alloc h1) = heap_size (alloc h)"
proof -
  obtain sa h2 where al: "malloc K 40 (h\<lparr>hw := w1\<rparr>) = Some (sa, h2)" "heap_exact (insert (sa, 40) A) h2"
      "sa \<notin> fst ` A" "sa \<noteq> 0" "same_pool (h\<lparr>hw := w1\<rparr>) h2"
    using malloc_after_mmap [OF c s] by blast
  define m3 where "m3 = st32 (st64 (st64 (st64 (wmem (hw h2)) (sa + off_start_routine) start_routine)
    (sa + off_arg) arg) (sa + off_stack) stack) (sa + off_has_exited) 0"
  obtain ret m' k' where cl: "clone K f ((stack + STACK_SIZE) AND NOT 15) PTHREAD_FLAGS sa (sa + off_tid, 0, sa + off_tid)
        ((hw h2)\<lparr>wmem := m3\<rparr>) = (Returns ret, (hw h2)\<lparr>wmem := m', kst := k'\<rparr>)"
      and r: "0 < sint ret" and keep: "\<And>x. \<not> in_region (sa + off_tid) 4 x \<Longrightarrow> m' x = m3 x"
    using clone_starts [OF K, of f "(stack + STACK_SIZE) AND NOT 15" PTHREAD_FLAGS sa "sa + off_tid" 0 "sa + off_tid"
        "(hw h2)\<lparr>wmem := m3\<rparr>"] by auto
  let ?h = "set_mem (\<lambda>m. st64 m thread sa) (h2\<lparr>hw := (hw h2)\<lparr>wmem := m', kst := k'\<rparr>\<rparr>)"
  have "pthread_create K f thread start_routine arg h = Some (Created 0, ?h)"
    unfolding pthread_create_def m(1) using m(2) al(1,4) cl r
    by (simp add: set_mem_def m3_def)
  moreover have "heap_exact (insert (sa, 40) A) ?h" using al(2) heap_exact_cong [of ?h h2] by simp
  moreover have "start_args (wmem (hw ?h)) sa start_routine arg stack"
  proof (rule start_args_agree [of m3])
    show "start_args m3 sa start_routine arg stack" unfolding m3_def by (rule start_args_stored)
    fix x assume x: "in_region sa 28 x"
    have tid: "\<not> in_region (sa + off_tid) 4 x"
      using x by (rule apartD [rotated]) (simp add: apart_def offsets)
    have "apart thread 8 sa 40"
      using live_in_pool [OF heap_exact_consistent [OF al(2)], of sa 40] al(5) by (intro apart_pool [OF out]) (simp_all add: same_pool_def)
    then have "apart thread 8 sa 28" by (rule apart_mono) simp_all
    then have "\<not> in_region thread 8 x" using apartD x by blast
    then show "wmem (hw ?h) x = m3 x" using keep [OF tid] by (simp add: st64_other)
  qed
  moreover have "free_within sa ?h" using fr [OF al(1)] free_within_cong [of ?h h2] by simp
  ultimately show ?thesis using al by (intro exI [of _ sa] exI [of _ ?h]) (simp add: same_pool_def)
qed

subsection \<open>Joining\<close>

lemma pthread_join_ok:
  assumes c: "heap_exact (insert (sa, 40) A) h1" "sa \<notin> fst ` A" "free_within sa h1"
    and w: "join_wait K sa (hw h1) = Some w" "ld64 (wmem w) (sa + off_stack) = stack"
    and r: "result = 0 \<or> apart result 8 (sa + off_stack) 8"
  shows "\<exists>h2. pthread_join K sa result h1 = Some (0, h2) \<and> heap_exact A h2 \<and>
    hw h2 = snd (munmap K stack STACK_SIZE
      (if result = 0 then w else w\<lparr>wmem := st64 (wmem w) result (ld64 (wmem w) (sa + off_return_value))\<rparr>))"
proof -
  let ?w = "if result = 0 then w else w\<lparr>wmem := st64 (wmem w) result (ld64 (wmem w) (sa + off_return_value))\<rparr>"
  let ?h = "h1\<lparr>hw := ?w\<rparr>"
  have nz: "sa \<noteq> 0" using c(3) by (simp add: free_within_def Let_def)
  have "heap_exact (insert (sa, 40) A) ?h" using c(1) heap_exact_cong [of ?h h1] by simp
  moreover have "free_within sa ?h" using c(3) free_within_cong [of ?h h1] by simp
  ultimately obtain h3 where f: "free sa ?h = Some h3" "heap_exact (insert (sa, 40) A - {(sa, 40)}) h3" "same_pool ?h h3"
    using free_exact [of "insert (sa, 40) A" ?h sa 40] by blast
  have A: "insert (sa, 40) A - {(sa, 40)} = A" using c(2) by force
  have st: "ld64 (wmem ?w) (sa + off_stack) = stack" using w(2) r by (auto simp: ld_st_apart)
  let ?r = "h3\<lparr>hw := snd (munmap K stack STACK_SIZE ?w)\<rparr>"
  have "(if result \<noteq> 0 then set_mem (\<lambda>m. st64 m result (ld64 m (sa + off_return_value))) (h1\<lparr>hw := w\<rparr>) else h1\<lparr>hw := w\<rparr>) = ?h"
    by (simp add: set_mem_def)
  then have "pthread_join K sa result h1 = Some (0, ?r)"
    using nz w(1) f(1,3) st
    by (simp add: pthread_join_def Let_def same_pool_def case_prod_unfold del: set_mem_simps)
  moreover have "heap_exact A ?r" using f(2) A heap_exact_cong [of ?r h3] by simp
  ultimately show ?thesis by (intro exI [of _ ?r]) simp
qed

subsection \<open>Creation that fails\<close>

definition refuses_threads :: "'k kernel \<Rightarrow> bool" where
  "refuses_threads K \<longleftrightarrow>
     (\<forall>k m args. case K k m 220 args of (r, m', k') \<Rightarrow> sint (ucast r :: i32) < 0 \<and> m' = m)"

lemma clone_refused:
  assumes "refuses_threads K"
  shows "\<exists>ret k'. clone K f st flags a (ptid, tls, ctid) w = (Returns ret, w\<lparr>kst := k'\<rparr>) \<and> sint ret < 0"
proof -
  obtain r m' k' where k: "K (kst w) (wmem w) 220 [RX (scast flags), RX st, RX ptid, RX tls, RX ctid, RX f, RX a] = (r, m', k')"
    by (metis prod_cases3)
  have "case K (kst w) (wmem w) 220 [RX (scast flags), RX st, RX ptid, RX tls, RX ctid, RX f, RX a] of
      (r, m', k') \<Rightarrow> sint (ucast r :: i32) < 0 \<and> m' = wmem w"
    by (rule assms [unfolded refuses_threads_def, THEN spec, THEN spec, THEN spec])
  then have "sint (ucast r :: i32) < 0 \<and> m' = wmem w" unfolding k case_prod_conv .
  moreover from this have "r \<noteq> 0" by auto
  ultimately show ?thesis using k by (auto simp: clone_def svc_def)
qed

lemma args_stores_other:
  assumes "\<not> in_region sa 28 x"
  shows "st32 (st64 (st64 (st64 m (sa + off_start_routine) s) (sa + off_arg) a) (sa + off_stack) st)
    (sa + off_has_exited) 0 x = m x"
proof -
  have "\<not> in_region (sa + of_nat k) n x" if "k + n \<le> 28" for k n
    using assms in_subregion that by blast
  from this [of 0 8] this [of 8 8] this [of 16 8] this [of 24 4] show ?thesis
    by (simp add: offsets st64_other st32_other)
qed

lemma payload_in_pool:
  assumes "heap_consistent A h" and "(p, n) \<in> A" and "in_region p (unat n) x"
  shows "in_region (heap_start (alloc h)) (unat (heap_size (alloc h))) x"
proof -
  let ?s = "heap_start (alloc h)"
  have "p = ?s + of_nat (unat p - unat ?s)"
    using live_in_pool(1) [OF assms(1,2)] by (simp add: of_nat_diff)
  then show ?thesis
    using in_subregion [of ?s "unat p - unat ?s" "unat n" x] assms(3) live_in_pool [OF assms(1,2)] by auto
qed

lemma pthread_create_refused:
  assumes c: "heap_exact A h" and s: "served 40 h" and K: "refuses_threads K"
    and m: "mmap K 0 STACK_SIZE 3 0x20022 (- 1) 0 (hw h) = (stack, w1)" "stack \<noteq> MAP_FAILED"
    and fr: "\<And>p h0. malloc K 40 (h\<lparr>hw := w1\<rparr>) = Some (p, h0) \<Longrightarrow> free_within p h0"
  shows "\<exists>h1. pthread_create K f thread start_routine arg h = Some (Created (- 1), h1) \<and> heap_exact A h1 \<and>
    printed h1 = printed h @ [''clone failed\<newline>''] \<and>
    (\<exists>w. hw h1 = snd (munmap K stack STACK_SIZE w) \<and>
      (\<forall>x. \<not> in_region (heap_start (alloc h)) (unat (heap_size (alloc h))) x \<longrightarrow> wmem w x = wmem w1 x))"
proof -
  obtain sa h2 where al: "malloc K 40 (h\<lparr>hw := w1\<rparr>) = Some (sa, h2)" "heap_exact (insert (sa, 40) A) h2"
      "sa \<notin> fst ` A" "sa \<noteq> 0" "same_pool (h\<lparr>hw := w1\<rparr>) h2"
    using malloc_after_mmap [OF c s] by blast
  define m3 where "m3 = st32 (st64 (st64 (st64 (wmem (hw h2)) (sa + off_start_routine) start_routine)
    (sa + off_arg) arg) (sa + off_stack) stack) (sa + off_has_exited) 0"
  obtain ret k' where cl: "clone K f ((stack + STACK_SIZE) AND NOT 15) PTHREAD_FLAGS sa (sa + off_tid, 0, sa + off_tid)
        ((hw h2)\<lparr>wmem := m3\<rparr>) = (Returns ret, (hw h2)\<lparr>wmem := m3, kst := k'\<rparr>)" and r: "sint ret < 0"
    using clone_refused [OF K, of f "(stack + STACK_SIZE) AND NOT 15" PTHREAD_FLAGS sa "sa + off_tid" 0
        "sa + off_tid" "(hw h2)\<lparr>wmem := m3\<rparr>"] by auto
  let ?w = "(hw h2)\<lparr>wmem := m3, kst := k'\<rparr>"
  let ?h = "h2\<lparr>hw := ?w, printed := printed h2 @ [''clone failed\<newline>'']\<rparr>"
  have "heap_exact (insert (sa, 40) A) ?h" using al(2) heap_exact_cong [of ?h h2] by simp
  moreover have "free_within sa ?h" using fr [OF al(1)] free_within_cong [of ?h h2] by simp
  ultimately obtain h3 where f: "free sa ?h = Some h3" "heap_exact (insert (sa, 40) A - {(sa, 40)}) h3" "same_pool ?h h3"
    using free_exact [of "insert (sa, 40) A" ?h sa 40] by blast
  let ?r = "h3\<lparr>hw := snd (munmap K stack STACK_SIZE ?w)\<rparr>"
  have "pthread_create K f thread start_routine arg h = Some (Created (- 1), ?r)"
    unfolding pthread_create_def m(1) using m(2) al(1,4) cl r f(1,3)
    by (simp add: set_mem_def m3_def same_pool_def case_prod_unfold)
  moreover have "heap_exact A ?r"
  proof -
    have "insert (sa, 40) A - {(sa, 40)} = A" using al(3) by force
    then show ?thesis using f(2) heap_exact_cong [of ?r h3] by simp
  qed
  moreover have "printed ?r = printed h @ [''clone failed\<newline>'']" using f(3) al(5) by (simp add: same_pool_def)
  moreover have "wmem ?w x = wmem w1 x"
    if x: "\<not> in_region (heap_start (alloc h)) (unat (heap_size (alloc h))) x" for x
  proof -
    have "\<not> in_region sa 40 x" using payload_in_pool [OF heap_exact_consistent [OF al(2)], of sa 40 x] x al(5) by (auto simp: same_pool_def)
    then have "\<not> in_region sa 28 x" by (simp add: in_region_def)
    then show ?thesis using args_stores_other al(5) by (simp add: m3_def same_pool_def)
  qed
  ultimately show ?thesis by (intro exI [of _ ?r]) auto
qed

subsection \<open>Properties\<close>

text \<open>C28. From creation to join. On a heap whose blocks in use are exactly those of the live allocations
  (\<open>heap_exact\<close>) and whose pool can serve the thread's arguments, with the stack mapped and a kernel that
  starts threads, \<open>pthread_create\<close> returns 0: the handle it stores is a fresh allocation holding the start
  routine, its argument, the stack and a cleared exit flag. When the wait for that flag ends with the
  stack's address unharmed, \<open>pthread_join\<close> on the handle returns 0, has stored the thread's result if it is
  asked for, has given the arguments back (the blocks in use are again exactly those of the
  allocations from before the creation, so nothing is leaked) and unmapped exactly the stack that was mapped.\<close>

theorem thread_created_and_joined:
  assumes "heap_exact A h" and "served 40 h" and "starts_threads K"
    and "mmap K 0 STACK_SIZE 3 0x20022 (- 1) 0 (hw h) = (stack, w1)" and "stack \<noteq> MAP_FAILED"
    and "\<And>p h0. malloc K 40 (h\<lparr>hw := w1\<rparr>) = Some (p, h0) \<Longrightarrow> free_within p h0"
    and "apart thread 8 (heap_start (alloc h)) (unat (heap_size (alloc h)))"
  shows "\<exists>sa h1. pthread_create K f thread start_routine arg h = Some (Created 0, h1) \<and>
    ld64 (wmem (hw h1)) thread = sa \<and> sa \<notin> fst ` A \<and> heap_exact (insert (sa, 40) A) h1 \<and>
    heap_start (alloc h1) = heap_start (alloc h) \<and> heap_size (alloc h1) = heap_size (alloc h) \<and>
    start_args (wmem (hw h1)) sa start_routine arg stack \<and>
    (\<forall>w result. join_wait K sa (hw h1) = Some w \<and> ld64 (wmem w) (sa + off_stack) = stack \<and>
        (result = 0 \<or> apart result 8 (sa + off_stack) 8) \<longrightarrow>
      (\<exists>h2. pthread_join K sa result h1 = Some (0, h2) \<and> heap_exact A h2 \<and>
        hw h2 = snd (munmap K stack STACK_SIZE
          (if result = 0 then w else w\<lparr>wmem := st64 (wmem w) result (ld64 (wmem w) (sa + off_return_value))\<rparr>))))"
proof -
  obtain sa h1 where a: "pthread_create K f thread start_routine arg h = Some (Created 0, h1)"
      "ld64 (wmem (hw h1)) thread = sa" "sa \<notin> fst ` A" "heap_exact (insert (sa, 40) A) h1"
      "free_within sa h1" "start_args (wmem (hw h1)) sa start_routine arg stack"
      "heap_start (alloc h1) = heap_start (alloc h)" "heap_size (alloc h1) = heap_size (alloc h)"
    using pthread_create_ok [OF assms, of f start_routine arg] by blast
  then show ?thesis using pthread_join_ok [OF a(4,3,5)] by (intro exI [of _ sa] exI [of _ h1]) blast
qed

text \<open>
  An example: a pool of one free block of 128 bytes; the kernel maps at 0x40000, starts thread 42, and
  the first wait lets the thread end with the result 7.
\<close>

definition life_kernel :: "unit kernel" where
  "life_kernel k m nr args =
     (if nr = 222 then (0x40000, m, k)
      else if nr = 220 then (case args of [_, _, RX ptid, _, _, _, _] \<Rightarrow> (42, st32 m ptid 42, k) | _ \<Rightarrow> (- 22, m, k))
      else if nr = 98 then (case args of RX u # _ \<Rightarrow> (0, st64 (st32 m u 1) (u + 8) 7, k) | _ \<Rightarrow> (- 22, m, k))
      else (0, m, k))"

definition life_heap :: "unit heap" where
  "life_heap = \<lparr>hdr = (\<lambda>_. \<lparr>blk_size = 96, blk_order = 1, is_free = 1, next_free = 0, buddy = 0\<rparr>),
     galloc = 0x10000, alloc = \<lparr>free_lists = (replicate 32 0)[1 := 0x11000], heap_start = 0x11000, heap_size = 128\<rparr>,
     printed = [], hw = \<lparr>wmem = (\<lambda>_. 0), kst = ()\<rparr>\<rparr>"

lemma life_heads: "0 \<le> k \<Longrightarrow> k < 32 \<Longrightarrow> get_head (alloc life_heap) k = (if k = 1 then 0x11000 else 0)"
  by (auto simp: get_head_def life_heap_def nth_list_update)

lemma life_exact: "heap_exact {} life_heap"
proof -
  have "heap_ok life_heap {0x11000} (\<lambda>k. if k = 1 then [0x11000] else []) {}"
  proof (rule heap_okI)
    show "blocks_ok life_heap {0x11000}" by (simp add: blocks_ok_def life_heap_def bsz_def)
  qed (auto simp: life_heads, auto simp: life_heap_def)
  moreover have "bytes_total life_heap {0x11000} = unat (heap_size (alloc life_heap))"
    by (simp add: bytes_total_def life_heap_def bsz_def)
  ultimately show ?thesis unfolding heap_exact_def heap_table_def
    by (intro exI [of _ "{0x11000}"] exI) (auto simp: life_heap_def)
qed

lemma life_order: "get_order (40 + block_hdr_size) = 1" "find_order life_heap 1 = Some 1"
  by (simp_all add: get_order_def get_order_loop.simps block_hdr_size_def find_order.simps [of life_heap 1] life_heads)

lemma life_served: "served 40 life_heap"
  unfolding served_def life_order by (simp add: life_order life_heap_def)

lemma life_mmap: "mmap life_kernel 0 STACK_SIZE 3 0x20022 (- 1) 0 w = (0x40000, w)"
  by (simp add: mmap_def raw_mmap_def svc_def life_kernel_def mini_align_def STACK_SIZE_def)

lemma life_malloc:
  "malloc K 40 (life_heap\<lparr>hw := w\<rparr>) = Some (p, h) \<Longrightarrow> free_within p h"
proof -
  let ?h = "life_heap\<lparr>hw := w\<rparr>"
  have s: "served 40 ?h" using life_served find_order_cong [of ?h life_heap] by (simp add: served_def)
  assume "malloc K 40 ?h = Some (p, h)"
  moreover have "malloc K 40 ?h = take_block 1 1 ?h"
    using malloc_take [OF s, of 1] life_order find_order_cong [of ?h life_heap] by simp
  ultimately show ?thesis
    using life_heads [of 1]
    by (auto simp: take_block_def Let_def free_within_def block_hdr_size_def upd_block_def upd_head_def life_heap_def)
qed

theorem thread_created_and_joined_witness:
  "\<exists>h1 sa h2. pthread_create life_kernel 0x900 0x500 0x800 5 life_heap = Some (Created 0, h1) \<and>
    pthread_join life_kernel sa 0x600 h1 = Some (0, h2) \<and> heap_exact {} h2 \<and> ld64 (wmem (hw h2)) 0x600 = 7"
proof -
  have K: "starts_threads life_kernel" by (simp add: starts_threads_def life_kernel_def st32_other)
  have out: "apart 0x500 8 (heap_start (alloc life_heap)) (unat (heap_size (alloc life_heap)))"
    by (simp add: life_heap_def apart_def)
  have fr: "malloc life_kernel 40 (life_heap\<lparr>hw := hw life_heap\<rparr>) = Some (p, h0) \<Longrightarrow> free_within p h0" for p h0
    by (rule life_malloc)
  have m: "mmap life_kernel 0 STACK_SIZE 3 0x20022 (- 1) 0 (hw life_heap) = (0x40000, hw life_heap)" by (rule life_mmap)
  obtain sa h1 where c: "pthread_create life_kernel 0x900 0x500 0x800 5 life_heap = Some (Created 0, h1)"
      "heap_exact (insert (sa, 40) {}) h1" "heap_start (alloc h1) = 0x11000" "heap_size (alloc h1) = 128"
      "start_args (wmem (hw h1)) sa 0x800 5 0x40000"
    and j: "\<And>w result. join_wait life_kernel sa (hw h1) = Some w \<Longrightarrow> ld64 (wmem w) (sa + off_stack) = 0x40000 \<Longrightarrow>
        result = 0 \<or> apart result 8 (sa + off_stack) 8 \<Longrightarrow>
      \<exists>h2. pthread_join life_kernel sa result h1 = Some (0, h2) \<and> heap_exact {} h2 \<and>
        hw h2 = snd (munmap life_kernel 0x40000 STACK_SIZE
          (if result = 0 then w else w\<lparr>wmem := st64 (wmem w) result (ld64 (wmem w) (sa + off_return_value))\<rparr>))"
    using thread_created_and_joined [OF life_exact life_served K m _ fr out, where f = "0x900" and start_routine = "0x800" and arg = 5]
    by (auto simp: MAP_FAILED_def life_heap_def)
  let ?w = "(hw h1)\<lparr>wmem := st64 (st32 (wmem (hw h1)) (sa + 24) 1) (sa + 32) 7, kst := ()\<rparr>"
  have w: "join_wait life_kernel sa (hw h1) = Some ?w"
    using c(5) by (simp add: join_wait.simps [of _ _ "hw h1"] join_wait.simps [of _ _ ?w] futex_def svc_def life_kernel_def
        start_args_def offsets ld_st_apart apart_def add.assoc)
  let ?r = "if 0x600 = (0 :: u64) then ?w else ?w\<lparr>wmem := st64 (wmem ?w) 0x600 (ld64 (wmem ?w) (sa + off_return_value))\<rparr>"
  have "apart 0x600 8 (sa + off_stack) 8"
  proof -
    have out: "apart 0x600 8 0x11000 (unat (128 :: u64))" by (simp add: apart_def)
    have "unat (0x11000 :: u64) \<le> unat sa" "unat sa + 40 \<le> unat (0x11000 :: u64) + unat (128 :: u64)"
      using live_in_pool [OF heap_exact_consistent [OF c(2)] insertI1] unfolding c(3,4) by simp_all
    then have "apart 0x600 8 sa 40" by (rule apart_pool [OF out]) simp
    then show ?thesis using apart_shift [of sa 40 "0x600" 8 16 8] by (simp add: apart_sym [of "0x600"] offsets)
  qed
  then obtain h2 where "pthread_join life_kernel sa 0x600 h1 = Some (0, h2)" "heap_exact {} h2"
      "hw h2 = snd (munmap life_kernel 0x40000 STACK_SIZE ?r)"
    using j [OF w, of "0x600"] c(5) by (auto simp: start_args_def offsets ld_st_apart apart_def)
  moreover have "ld64 (wmem ?r) 0x600 = 7" by (simp add: offsets)
  ultimately show ?thesis using c(1) by (intro exI [of _ h1] exI [of _ sa] exI [of _ h2]) (simp add: munmap_def svc_def life_kernel_def)
qed

text \<open>C29. A creation that fails leaves nothing behind: when the stack cannot be mapped, the call returns
  -1 and nothing else happens; when clone is refused, it returns -1 after it has reported the failure,
  given the arguments back (the blocks in use are exactly those of the allocations from before the call,
  so nothing is leaked) and unmapped the stack, with memory outside the pool as it was.\<close>

theorem failed_create_cleans_up:
  assumes "heap_exact A h" and "served 40 h" and "refuses_threads K"
    and "mmap K 0 STACK_SIZE 3 0x20022 (- 1) 0 (hw h) = (stack, w1)"
    and "\<And>p h0. malloc K 40 (h\<lparr>hw := w1\<rparr>) = Some (p, h0) \<Longrightarrow> free_within p h0"
  shows "\<exists>h1. pthread_create K f thread start_routine arg h = Some (Created (- 1), h1) \<and> heap_exact A h1 \<and>
    (if stack = MAP_FAILED then h1 = h\<lparr>hw := w1\<rparr>
     else printed h1 = printed h @ [''clone failed\<newline>''] \<and>
       (\<exists>w. hw h1 = snd (munmap K stack STACK_SIZE w) \<and>
         (\<forall>x. \<not> in_region (heap_start (alloc h)) (unat (heap_size (alloc h))) x \<longrightarrow> wmem w x = wmem w1 x)))"
proof (cases "stack = MAP_FAILED")
  case True
  then show ?thesis
    using assms(1,4) heap_exact_cong [of "h\<lparr>hw := w1\<rparr>" h A] by (simp add: pthread_create_def)
next
  case False
  from pthread_create_refused [OF assms(1-4) False assms(5)] False show ?thesis by simp
qed

theorem failed_create_cleans_up_witness:
  "\<exists>h1. pthread_create (\<lambda>k m nr args. (if nr = 220 then - 11 else 0x40000, m, k)) 0x900 0x500 0x800 5 life_heap
     = Some (Created (- 1), h1) \<and> heap_exact {} h1 \<and> printed h1 = [''clone failed\<newline>'']"
proof -
  let ?K = "\<lambda>(k :: unit) m nr args. (if nr = 220 then - 11 else 0x40000, m, k) :: u64 \<times> mem \<times> unit"
  have K: "refuses_threads ?K" by (simp add: refuses_threads_def)
  have fr: "malloc ?K 40 (life_heap\<lparr>hw := hw life_heap\<rparr>) = Some (p, h0) \<Longrightarrow> free_within p h0" for p h0
    by (rule life_malloc)
  have m: "mmap ?K 0 STACK_SIZE 3 0x20022 (- 1) 0 (hw life_heap) = (0x40000, hw life_heap)"
    by (simp add: mmap_def raw_mmap_def svc_def mini_align_def STACK_SIZE_def)
  show ?thesis
    using failed_create_cleans_up [OF life_exact life_served K m fr, where f = "0x900" and thread = "0x500" and start_routine = "0x800" and arg = 5]
    by (auto simp: MAP_FAILED_def life_heap_def)
qed

end
