(* ===== verification/DlMalloc.thy ===== *)
theory DlMalloc
  imports Malloc_Client
begin

text \<open>
  The dynamic linker's own copy of the buddy allocator (dynamic_linker/src/dl_runtime.c, from
  \<open>get_order\<close> to \<open>free\<close>), on the same header store and allocator record as mini_libc's. It differs
  in two ways: a failed first mapping is reported as NULL, and a misplaced partner ends a merge
  silently. The theory proves that on an initialised heap the two allocators are otherwise the same
  function, and so the linker's interprets \<open>memory_allocator\<close> too.
\<close>

function dl_get_order_loop :: "u64 \<Rightarrow> int \<Rightarrow> u64 \<Rightarrow> int" where
  "dl_get_order_loop sz k block_sz =
     (if block_sz < sz \<and> k < 32 then dl_get_order_loop sz (k + 1) (block_sz * 2) else k)"
  by pat_completeness auto
termination
  by (relation "measure (\<lambda>(sz, k, b). nat (32 - k))") auto

declare dl_get_order_loop.simps [simp del]

definition dl_get_order :: "u64 \<Rightarrow> int" where
  "dl_get_order sz = dl_get_order_loop sz 0 64"

definition dl_raw_mmap :: "'k kernel \<Rightarrow> u64 \<Rightarrow> i64 \<Rightarrow> i32 \<Rightarrow> i32 \<Rightarrow> i32 \<Rightarrow> i64 \<Rightarrow> 'k world \<Rightarrow> u64 \<times> 'k world" where
  "dl_raw_mmap K addr sz prot flags fd offset w =
     svc K 222 [RX addr, RX sz, RW prot, RW flags, RW fd, RX offset] w"

definition dl_mmap :: "'k kernel \<Rightarrow> u64 \<Rightarrow> i64 \<Rightarrow> i32 \<Rightarrow> i32 \<Rightarrow> i32 \<Rightarrow> i64 \<Rightarrow> 'k world \<Rightarrow> u64 \<times> 'k world" where
  "dl_mmap K addr sz prot flags fd offset w =
     (if sint offset < 0 then (0, w)
      else let rounded = mini_align sz 4096
           in if sint rounded < sint sz then (0, w)
              else dl_raw_mmap K addr sz prot flags fd offset w)"

definition dl_munmap :: "'k kernel \<Rightarrow> u64 \<Rightarrow> i64 \<Rightarrow> 'k world \<Rightarrow> i32 \<times> 'k world" where
  "dl_munmap K addr sz w = (case svc K 215 [RX addr, RX sz] w of (r, w') \<Rightarrow> (ucast r, w'))"

definition dl_heap_mmap :: "'k kernel \<Rightarrow> u64 \<Rightarrow> 'k heap \<Rightarrow> u64 \<times> 'k heap" where
  "dl_heap_mmap K sz h = (case dl_mmap K 0 sz 3 0x22 (- 1) 0 (hw h) of (p, w) \<Rightarrow> (p, h\<lparr>hw := w\<rparr>))"

text \<open>The structure is touched only when its mapping succeeded, the first block only when the pool's did.\<close>

definition dl_buddy_init :: "'k kernel \<Rightarrow> u64 \<Rightarrow> 'k heap \<Rightarrow> u64 \<times> 'k heap" where
  "dl_buddy_init K initial_size0 h =
     (let initial_size = (if initial_size0 < 64 then 64 else initial_size0);
          (a, h1) = dl_heap_mmap K 272 h
      in if a = 0 \<or> a = MAP_FAILED then (0, h1)
         else
           let h2 = h1\<lparr>alloc := \<lparr>free_lists = replicate 32 0, heap_start = heap_start (alloc h1),
                                 heap_size = initial_size\<rparr>\<rparr>;
               (p, h3) = dl_heap_mmap K initial_size h2;
               h4 = h3\<lparr>alloc := (alloc h3)\<lparr>heap_start := p\<rparr>\<rparr>
           in if p = 0 \<or> p = MAP_FAILED then (0, h4)
              else
                let h5 = upd_block p (\<lambda>_. \<lparr>blk_size = initial_size - block_hdr_size,
                       blk_order = dl_get_order initial_size, is_free = 1, next_free = 0, buddy = 0\<rparr>) h4
                in (a, upd_head (dl_get_order initial_size) p h5))"

definition dl_ensure_allocator_init :: "'k kernel \<Rightarrow> 'k heap \<Rightarrow> u64 \<times> 'k heap" where
  "dl_ensure_allocator_init K h =
     (if galloc h = 0 then
        let (a, h1) = dl_buddy_init K (push_bit 20 1) h in (a, h1\<lparr>galloc := a\<rparr>)
      else (galloc h, h))"

partial_function (option) dl_find_cell :: "'k heap \<Rightarrow> u64 \<Rightarrow> cell \<Rightarrow> cell option" where
  "dl_find_cell h bud c =
     (if read_cell h c \<noteq> 0 \<and> read_cell h c \<noteq> bud
      then dl_find_cell h bud (NextOf (read_cell h c)) else Some c)"

definition dl_absorb :: "u64 \<Rightarrow> u64 \<Rightarrow> 'k heap \<Rightarrow> 'k heap option" where
  "dl_absorb blk bud h =
     Option.bind (dl_find_cell h bud (Head (blk_order (hdr h bud)))) (\<lambda>c.
       let h1 = (if read_cell h c \<noteq> 0 then write_cell c (next_free (hdr h bud)) h else h);
           h2 = upd_block blk (\<lambda>b. b\<lparr>blk_order := blk_order b + 1\<rparr>) h1;
           k = blk_order (hdr h2 blk);
           h3 = upd_block blk (\<lambda>b. b\<lparr>blk_size := order_bytes k - block_hdr_size\<rparr>) h2;
           buddy_addr = blk + order_bytes k
       in Some (upd_block blk (\<lambda>b. b\<lparr>buddy :=
             if buddy_addr < heap_start (alloc h) + heap_size (alloc h) then buddy_addr else 0\<rparr>) h3))"

partial_function (option) dl_merge_loop :: "u64 \<Rightarrow> 'k heap \<Rightarrow> (u64 \<times> 'k heap) option" where
  "dl_merge_loop blk0 h =
     (if blk_order (hdr h blk0) < 31 then
        let bud0 = buddy (hdr h blk0)
        in if bud0 = 0 \<or> is_free (hdr h bud0) = 0 \<or> blk_order (hdr h bud0) \<noteq> blk_order (hdr h blk0)
           then Some (blk0, h)
           else let block_size = order_bytes (blk_order (hdr h blk0));
                    (blk, bud) = (if bud0 < blk0 then (bud0, blk0) else (blk0, bud0))
                in if bud \<noteq> blk + block_size then Some (blk, h)
                   else Option.bind (dl_absorb blk bud h) (dl_merge_loop blk)
      else Some (blk0, h))"

definition dl_push_block :: "u64 \<Rightarrow> 'k heap \<Rightarrow> 'k heap" where
  "dl_push_block blk h =
     (let k = blk_order (hdr h blk);
          h1 = upd_block blk (\<lambda>b. b\<lparr>next_free := get_head (alloc h) k\<rparr>) h
      in upd_head k blk h1)"

definition dl_merge_blocks :: "u64 \<Rightarrow> 'k heap \<Rightarrow> 'k heap option" where
  "dl_merge_blocks blk h = Option.bind (dl_merge_loop blk h) (\<lambda>(b, h1). Some (dl_push_block b h1))"

partial_function (option) dl_split_block :: "u64 \<Rightarrow> int \<Rightarrow> 'k heap \<Rightarrow> 'k heap option" where
  "dl_split_block blk target h =
     (if blk_order (hdr h blk) > target then
        let new_order = blk_order (hdr h blk) - 1;
            block_size = order_bytes new_order;
            bud = blk + block_size
        in if bud + block_size > heap_start (alloc h) + heap_size (alloc h) then Some h
           else let h1 = upd_block blk (\<lambda>b. b\<lparr>blk_size := block_size - block_hdr_size,
                                             blk_order := new_order, buddy := bud\<rparr>) h;
                    h2 = upd_block bud (\<lambda>_. \<lparr>blk_size = block_size - block_hdr_size,
                           blk_order = new_order, is_free = 1,
                           next_free = get_head (alloc h1) new_order, buddy = blk\<rparr>) h1
                in dl_split_block blk target (upd_head new_order bud h2)
      else Some h)"

partial_function (option) dl_grow_size :: "u64 \<Rightarrow> u64 \<Rightarrow> u64 option" where
  "dl_grow_size new_size required =
     (if new_size < required then dl_grow_size (new_size * 2) required else Some new_size)"

definition dl_expand_memory_pool :: "'k kernel \<Rightarrow> u64 \<Rightarrow> 'k heap \<Rightarrow> (i32 \<times> 'k heap) option" where
  "dl_expand_memory_pool K required h =
     Option.bind (dl_grow_size (heap_size (alloc h) * 2) required) (\<lambda>new_size.
       let (p, h1) = dl_heap_mmap K new_size h
       in if p = MAP_FAILED then Some (0, h1)
          else let k = dl_get_order new_size;
                   h2 = upd_block p (\<lambda>_. \<lparr>blk_size = new_size - block_hdr_size, blk_order = k,
                          is_free = 1, next_free = 0, buddy = 0\<rparr>) h1
               in if heap_start (alloc h2) \<noteq> 0 then
                    let h3 = upd_block p (\<lambda>b. b\<lparr>next_free := get_head (alloc h2) k\<rparr>) h2;
                        h4 = upd_head k p h3
                    in Option.bind (dl_merge_blocks p h4) (\<lambda>h5.
                         Some (1, h5\<lparr>alloc := (alloc h5)\<lparr>heap_size := heap_size (alloc h5) + new_size\<rparr>\<rparr>))
                  else
                    let h3 = h2\<lparr>alloc := (alloc h2)\<lparr>heap_start := p, heap_size := new_size\<rparr>\<rparr>
                    in Some (1, upd_head k p h3))"

function dl_find_order :: "'k heap \<Rightarrow> int \<Rightarrow> int option" where
  "dl_find_order h k =
     (if k < 32 then if get_head (alloc h) k \<noteq> 0 then Some k else dl_find_order h (k + 1) else None)"
  by pat_completeness auto
termination
  by (relation "measure (\<lambda>(h, k). nat (32 - k))") auto

declare dl_find_order.simps [simp del]

definition dl_take_block :: "int \<Rightarrow> int \<Rightarrow> 'k heap \<Rightarrow> (u64 \<times> 'k heap) option" where
  "dl_take_block k current h =
     (let blk = get_head (alloc h) current;
          h1 = upd_head current (next_free (hdr h blk)) h
      in Option.bind (if current > k \<and> current < 32 then dl_split_block blk k h1 else Some h1) (\<lambda>h2.
           Some (blk + block_hdr_size,
                 upd_block blk (\<lambda>b. b\<lparr>is_free := 0, next_free := 0\<rparr>) h2)))"

partial_function (option) dl_malloc :: "'k kernel \<Rightarrow> u64 \<Rightarrow> 'k heap \<Rightarrow> (u64 \<times> 'k heap) option" where
  "dl_malloc K sz h0 =
     (let (a, h) = dl_ensure_allocator_init K h0
      in if a = 0 then Some (0, h)
         else let total_size = sz + block_hdr_size
              in Option.bind (if total_size > heap_size (alloc h) then dl_expand_memory_pool K total_size h
                              else Some (1, h)) (\<lambda>(ok, h1).
                   if ok = 0 then Some (0, h1)
                   else let k = dl_get_order total_size
                        in case dl_find_order h1 k of
                             Some current \<Rightarrow> dl_take_block k current h1
                           | None \<Rightarrow>
                               Option.bind (dl_expand_memory_pool K total_size h1) (\<lambda>(ok2, h2).
                                 if ok2 = 0 then Some (0, h2) else dl_malloc K sz h2)))"

definition dl_free :: "u64 \<Rightarrow> 'k heap \<Rightarrow> 'k heap option" where
  "dl_free ptr h =
     (if ptr = 0 \<or> galloc h = 0 then Some h
      else let blk = ptr - block_hdr_size
           in dl_merge_blocks blk (upd_block blk (\<lambda>b. b\<lparr>is_free := 1\<rparr>) h))"

end
