(* ===== verification/DlMalloc_Equiv.thy ===== *)
theory DlMalloc_Equiv
  imports DlMalloc Malloc_Claims
begin

text \<open>
  The linker's allocator is mini_libc's allocator without the message: on an initialised heap both
  compute the same result from the same heap, up to what was printed (\<open>say\<close>). The contract
  \<open>memory_allocator\<close> and its consequences carry over through an interpretation. The two differ at
  initialisation, where only the linker's checks the result of \<open>mmap\<close>.
\<close>

definition say :: "string list \<Rightarrow> 'k heap \<Rightarrow> 'k heap" where
  "say x h = h\<lparr>printed := x\<rparr>"

lemma say_fields [simp]:
  "hdr (say x h) = hdr h" "alloc (say x h) = alloc h" "galloc (say x h) = galloc h" "hw (say x h) = hw h"
  by (simp_all add: say_def)

lemma say_upd [simp]:
  "upd_block p f (say x h) = say x (upd_block p f h)" "upd_head i p (say x h) = say x (upd_head i p h)"
  "(say x h)\<lparr>hw := w\<rparr> = say x (h\<lparr>hw := w\<rparr>)" "(say x h)\<lparr>alloc := a\<rparr> = say x (h\<lparr>alloc := a\<rparr>)"
  "say x (h\<lparr>printed := y\<rparr>) = say x h" "say x (say y h) = say x h"
  by (simp_all add: say_def upd_block_def upd_head_def)

lemma say_cell [simp]: "read_cell (say x h) c = read_cell h c" "write_cell c v (say x h) = say x (write_cell c v h)"
  by (cases c; simp)+

lemma option_agree:
  assumes "\<And>y. f = Some y \<Longrightarrow> g = Some (k y)" and "\<And>z. g = Some z \<Longrightarrow> f \<noteq> None"
  shows "g = map_option k f"
  using assms by (cases f; cases g) auto

lemma option_agree':
  assumes "\<And>y. f = Some y \<Longrightarrow> g = Some y" and "\<And>y. g = Some y \<Longrightarrow> f = Some y"
  shows "g = f"
  using assms by (cases f; cases g) auto

lemma dl_get_order_eq [simp]: "dl_get_order sz = get_order sz"
proof -
  have "dl_get_order_loop sz k b = get_order_loop sz k b" for k b
    by (induction sz k b rule: get_order_loop.induct)
      (simp add: dl_get_order_loop.simps get_order_loop.simps)
  then show ?thesis by (simp add: dl_get_order_def get_order_def)
qed

lemma dl_find_order_eq [simp]: "dl_find_order (say x h) k = find_order h k"
  by (induction h k rule: find_order.induct) (simp add: dl_find_order.simps find_order.simps)

lemma dl_grow_size_eq [simp]: "dl_grow_size s req = grow_size s req"
proof -
  have "grow_size s req = Some y \<Longrightarrow> dl_grow_size s req = Some y" for y
  proof (induction rule: grow_size.raw_induct [rotated, consumes 1])
    case (1 f s req y)
    then show ?case by (subst dl_grow_size.simps) (simp split: if_splits)
  qed
  moreover have "dl_grow_size s req = Some y \<Longrightarrow> grow_size s req = Some y" for y
  proof (induction rule: dl_grow_size.raw_induct [rotated, consumes 1])
    case (1 f s req y)
    then show ?case by (subst grow_size.simps) (simp split: if_splits)
  qed
  ultimately show ?thesis by (rule option_agree')
qed

lemma dl_find_cell_eq [simp]: "dl_find_cell (say x h) bud c = find_cell h bud c"
proof -
  have "find_cell h bud c = Some y \<Longrightarrow> dl_find_cell (say x h) bud c = Some y" for y
  proof (induction rule: find_cell.raw_induct [rotated, consumes 1])
    case (1 f h bud c y)
    then show ?case by (subst dl_find_cell.simps) (auto split: if_splits)
  qed
  moreover have "dl_find_cell (say x h) bud c = Some y \<Longrightarrow> find_cell h bud c = Some y" for y
  proof (induction "say x h" bud c y arbitrary: h rule: dl_find_cell.raw_induct [rotated, consumes 1])
    case (1 f bud c y)
    then show ?case by (subst find_cell.simps) (auto split: if_splits)
  qed
  ultimately show ?thesis by (rule option_agree')
qed

lemma dl_absorb_eq [simp]: "dl_absorb b e (say x h) = map_option (say x) (absorb b e h)"
  by (cases "find_cell h e (Head (blk_order (hdr h e)))")
    (simp_all add: dl_absorb_def absorb_def unlink_block_def Let_def)

lemma dl_merge_loop_eq: "dl_merge_loop b (say x h) = map_option (map_prod id (say x)) (merge_loop b h)"
proof -
  have "merge_loop b h = Some r \<Longrightarrow> dl_merge_loop b (say x h) = Some (fst r, say x (snd r))" for r
  proof (induction rule: merge_loop.raw_induct [rotated, consumes 1])
    case (1 f b h r)
    then show ?case
      by (subst dl_merge_loop.simps) (auto simp: Let_def bind_eq_Some_conv split: if_splits)
  qed
  moreover have "dl_merge_loop b (say x h) = Some r \<Longrightarrow> merge_loop b h \<noteq> None" for r
  proof (induction b "say x h" r arbitrary: h rule: dl_merge_loop.raw_induct [rotated, consumes 1])
    case (1 f b r)
    then show ?case
      by (subst merge_loop.simps) (cases r; auto simp: Let_def bind_eq_Some_conv split: if_splits)
  qed
  ultimately show ?thesis by (cases "merge_loop b h"; cases "dl_merge_loop b (say x h)") auto
qed

lemma dl_push_block_eq [simp]: "dl_push_block b (say x h) = say x (push_block b h)"
  by (simp add: dl_push_block_def push_block_def Let_def)

lemma dl_merge_blocks_eq [simp]: "dl_merge_blocks b (say x h) = map_option (say x) (merge_blocks b h)"
  by (cases "merge_loop b h") (auto simp: dl_merge_blocks_def merge_blocks_def dl_merge_loop_eq)

lemma dl_split_block_eq [simp]: "dl_split_block b t (say x h) = map_option (say x) (split_block b t h)"
proof -
  have "split_block b t h = Some r \<Longrightarrow> dl_split_block b t (say x h) = Some (say x r)" for r
  proof (induction rule: split_block.raw_induct [rotated, consumes 1])
    case (1 f b t h r)
    then show ?case by (subst dl_split_block.simps) (auto simp: Let_def split: if_splits)
  qed
  moreover have "dl_split_block b t (say x h) = Some r \<Longrightarrow> split_block b t h \<noteq> None" for r
  proof (induction b t "say x h" r arbitrary: h rule: dl_split_block.raw_induct [rotated, consumes 1])
    case (1 f b t r)
    then show ?case by (subst split_block.simps) (auto simp: Let_def split: if_splits)
  qed
  ultimately show ?thesis by (rule option_agree)
qed

lemma dl_mmap_eq [simp]: "dl_mmap = mmap"
  by (intro ext) (simp add: dl_mmap_def mmap_def dl_raw_mmap_def raw_mmap_def)

lemma dl_heap_mmap_eq [simp]:
  "dl_heap_mmap K sz (say x h) = map_prod id (say x) (heap_mmap K sz h)"
  by (simp add: dl_heap_mmap_def heap_mmap_def split: prod.splits)

lemma dl_expand_eq [simp]: "dl_expand_memory_pool K req (say x h)
    = map_option (map_prod id (say x)) (expand_memory_pool K req h)"
proof (cases "grow_size (heap_size (alloc h) * 2) req")
  case None
  then show ?thesis by (simp add: dl_expand_memory_pool_def expand_memory_pool_def)
next
  case (Some n)
  obtain p h1 where m: "heap_mmap K n h = (p, h1)" by fastforce
  show ?thesis
    by (auto simp: dl_expand_memory_pool_def expand_memory_pool_def Some m Let_def
      map_option_bind bind_map_option comp_def)
qed

lemma dl_take_block_eq [simp]:
  "dl_take_block k c (say x h) = map_option (map_prod id (say x)) (take_block k c h)"
  by (simp add: dl_take_block_def take_block_def Let_def map_option_bind bind_map_option comp_def)


lemma absorb_galloc: "absorb b e h = Some h' \<Longrightarrow> galloc h' = galloc h"
proof -
  have "galloc (write_cell c v h) = galloc h" for c v by (cases c) simp_all
  then show "absorb b e h = Some h' \<Longrightarrow> galloc h' = galloc h"
    by (auto simp: absorb_def unlink_block_def Let_def bind_eq_Some_conv)
qed

lemma merge_loop_galloc: "merge_loop b h = Some r \<Longrightarrow> galloc (snd r) = galloc h"
proof (induction rule: merge_loop.raw_induct [rotated, consumes 1])
  case (1 f b h r)
  then show ?case
    by (cases r) (auto simp: Let_def bind_eq_Some_conv dest: absorb_galloc split: if_splits)
qed

lemma heap_mmap_galloc: "heap_mmap K sz h = (p, h') \<Longrightarrow> galloc h' = galloc h"
  by (auto simp: heap_mmap_def split: prod.splits)

lemma merge_blocks_galloc: "merge_blocks b h = Some h' \<Longrightarrow> galloc h' = galloc h"
  by (auto simp: merge_blocks_def push_block_def Let_def bind_eq_Some_conv dest: merge_loop_galloc)

lemma expand_galloc: "expand_memory_pool K req h = Some (ok, h') \<Longrightarrow> galloc h' = galloc h"
proof -
  assume e: "expand_memory_pool K req h = Some (ok, h')"
  then obtain n where n: "grow_size (heap_size (alloc h) * 2) req = Some n"
    by (auto simp: expand_memory_pool_def bind_eq_Some_conv)
  obtain p h1 where m: "heap_mmap K n h = (p, h1)" by fastforce
  show ?thesis
    using e heap_mmap_galloc [OF m]
    by (auto simp: expand_memory_pool_def n m Let_def bind_eq_Some_conv dest: merge_blocks_galloc split: if_splits)
qed

text \<open>Making room, the step both versions of \<open>malloc\<close> start with, and what they do after it.\<close>

definition room :: "'k kernel \<Rightarrow> u64 \<Rightarrow> 'k heap \<Rightarrow> (i32 \<times> 'k heap) option" where
  "room K req h = (if req > heap_size (alloc h) then expand_memory_pool K req h else Some (1, h))"

lemma room_galloc: "room K req h = Some (ok, h') \<Longrightarrow> galloc h' = galloc h"
  by (auto simp: room_def expand_galloc split: if_splits)

lemma dl_room: "(if req > heap_size (alloc h) then map_option (map_prod id (say x)) (expand_memory_pool K req h)
    else Some (1, say x h)) = map_option (map_prod id (say x)) (room K req h)"
  by (simp add: room_def)

lemma malloc_run:
  assumes "galloc h \<noteq> 0" and "room K (sz + block_hdr_size) h = Some (ok, h1)"
  shows "malloc K sz h = (if ok = 0 then Some (0, h1) else
      case find_order h1 (get_order (sz + block_hdr_size)) of
        Some current \<Rightarrow> take_block (get_order (sz + block_hdr_size)) current h1
      | None \<Rightarrow> Option.bind (expand_memory_pool K (sz + block_hdr_size) h1) (\<lambda>(ok2, h2).
          if ok2 = 0 then Some (0, h2) else malloc K sz h2))"
  using assms by (subst malloc.simps) (simp add: ensure_allocator_init_def Let_def room_def [symmetric])

lemma dl_malloc_run:
  assumes "galloc h \<noteq> 0" and "room K (sz + block_hdr_size) h = Some (ok, h1)"
  shows "dl_malloc K sz (say x h) = (if ok = 0 then Some (0, say x h1) else
      case find_order h1 (get_order (sz + block_hdr_size)) of
        Some current \<Rightarrow> map_option (map_prod id (say x)) (take_block (get_order (sz + block_hdr_size)) current h1)
      | None \<Rightarrow> Option.bind (expand_memory_pool K (sz + block_hdr_size) h1) (\<lambda>(ok2, h2).
          if ok2 = 0 then Some (0, say x h2) else dl_malloc K sz (say x h2)))"
  using assms by (subst dl_malloc.simps) (simp add: dl_ensure_allocator_init_def Let_def dl_room bind_map_option
    comp_def case_prod_unfold split del: if_split cong: if_cong option.case_cong)

lemma malloc_to_dl: "malloc K sz h = Some r \<Longrightarrow> galloc h \<noteq> 0 \<Longrightarrow> dl_malloc K sz (say x h) = Some (fst r, say x (snd r))"
proof (induction rule: malloc.raw_induct [rotated, consumes 1])
  case (1 f K sz h r)
  have g: "galloc h \<noteq> 0" by fact
  obtain ok h1 where d: "room K (sz + block_hdr_size) h = Some (ok, h1)"
    using 1 by (auto simp: Let_def ensure_allocator_init_def room_def bind_eq_Some_conv)
  then have g1: "galloc h1 \<noteq> 0" using g room_galloc [OF d] by simp
  have "(if ok = 0 then Some (0, h1) else case find_order h1 (get_order (sz + block_hdr_size)) of
      Some current \<Rightarrow> take_block (get_order (sz + block_hdr_size)) current h1
    | None \<Rightarrow> Option.bind (expand_memory_pool K (sz + block_hdr_size) h1) (\<lambda>(ok2, h2).
        if ok2 = 0 then Some (0, h2) else f K sz h2)) = Some r"
    using 1(2) g d by (simp add: ensure_allocator_init_def Let_def room_def [symmetric] split del: if_split cong: if_cong option.case_cong)
  note run = this and dl = dl_malloc_run [OF g d, where x = x]
  show ?case
  proof (cases "ok = 0 \<or> find_order h1 (get_order (sz + block_hdr_size)) \<noteq> None")
    case True
    with run show ?thesis by (cases r) (auto simp: dl)
  next
    case False
    with run obtain ok2 h2 where e: "expand_memory_pool K (sz + block_hdr_size) h1 = Some (ok2, h2)"
      by (cases "expand_memory_pool K (sz + block_hdr_size) h1") auto
    with False run 1(1) expand_galloc [OF e] g1 show ?thesis by (auto simp: dl split: if_splits)
  qed
qed

lemma dl_to_malloc: "dl_malloc K sz (say x h) = Some r \<Longrightarrow> galloc h \<noteq> 0 \<Longrightarrow> malloc K sz h \<noteq> None"
proof (induction K sz "say x h" r arbitrary: h rule: dl_malloc.raw_induct [rotated, consumes 1])
  case (1 f K sz r)
  have g: "galloc h \<noteq> 0" by fact
  show ?case
  proof (cases "room K (sz + block_hdr_size) h")
    case None
    then show ?thesis using 1(2) g
      by (simp add: Let_def dl_ensure_allocator_init_def dl_room split del: if_split cong: if_cong)
  next
    case (Some q)
    then obtain ok h1 where d: "room K (sz + block_hdr_size) h = Some (ok, h1)" by (cases q) simp
    then have g1: "galloc h1 \<noteq> 0" using g room_galloc [OF d] by simp
    have "(if ok = 0 then Some (0, say x h1) else case find_order h1 (get_order (sz + block_hdr_size)) of
        Some current \<Rightarrow> map_option (map_prod id (say x)) (take_block (get_order (sz + block_hdr_size)) current h1)
      | None \<Rightarrow> Option.bind (expand_memory_pool K (sz + block_hdr_size) h1) (\<lambda>(ok2, h2).
          if ok2 = 0 then Some (0, say x h2) else f K sz (say x h2))) = Some r"
      using 1(2) g d by (simp add: dl_ensure_allocator_init_def Let_def dl_room bind_map_option
        comp_def case_prod_unfold split del: if_split cong: if_cong option.case_cong)
    note dl = this and run = malloc_run [OF g d]
    show ?thesis
    proof (cases "ok = 0 \<or> find_order h1 (get_order (sz + block_hdr_size)) \<noteq> None")
      case True
      with dl show ?thesis by (auto simp: run)
    next
      case False
      with dl obtain ok2 h2 where e: "expand_memory_pool K (sz + block_hdr_size) h1 = Some (ok2, h2)"
        by (cases "expand_memory_pool K (sz + block_hdr_size) h1") auto
      with False dl 1(1) expand_galloc [OF e] g1 show ?thesis
        by (cases r) (auto simp: run split: if_splits)
    qed
  qed
qed

lemma dl_malloc_eq:
  assumes "galloc h \<noteq> 0"
  shows "dl_malloc K sz (say x h) = map_option (map_prod id (say x)) (malloc K sz h)"
  using malloc_to_dl [of K sz h] dl_to_malloc [of K sz x h] assms
  by (cases "malloc K sz h"; cases "dl_malloc K sz (say x h)") auto

lemma dl_free_eq: "dl_free p (say x h) = map_option (say x) (free p h)"
  by (simp add: dl_free_def free_def Let_def)

lemma say_self [simp]: "say (printed h) h = h"
  by (simp add: say_def)

subsection \<open>The contract\<close>

lemma heap_consistent_say [simp]: "heap_consistent A (say x h) = heap_consistent A h"
  by (simp add: heap_consistent_def heap_ok_def blocks_ok_def lists_ok_def live_def)

interpretation linker: memory_allocator "dl_malloc K" dl_free served free_within heap_consistent for K
proof unfold_locales
  fix A :: table and h :: "'a heap" and sz K
  assume "heap_consistent A h" "served sz h"
  then show "\<exists>p h'. dl_malloc K sz h = Some (p, h') \<and> heap_consistent (insert (p, sz) A) h' \<and> p \<notin> fst ` A"
    using malloc_consistent [of A h sz K] dl_malloc_eq [of h K sz "printed h"] by (force simp: heap_consistent_def [of A h])
next
  fix A :: table and h :: "'a heap" and p sz
  assume "heap_consistent A h" "(p, sz) \<in> A" "free_within p h"
  then show "\<exists>h'. dl_free p h = Some h' \<and> heap_consistent (A - {(p, sz)}) h'"
    using free_consistent [of A h p sz] dl_free_eq [of p "printed h" h] by force
qed (rule heap_consistent_apart)

subsection \<open>Properties\<close>

text \<open>C12. On an initialised heap the linker's \<open>malloc\<close> and \<open>free\<close> are mini_libc's: they return or
  diverge together, with the same address and the same heap, except that the linker prints nothing.\<close>

theorem linker_allocator_agrees:
  assumes "galloc h \<noteq> 0"
  shows "dl_malloc K sz h = map_option (map_prod id (say (printed h))) (malloc K sz h) \<and>
    dl_free p h = map_option (say (printed h)) (free p h)"
  using dl_malloc_eq [OF assms, of K sz "printed h"] dl_free_eq [of p "printed h" h] by simp

theorem linker_allocator_agrees_witness:
  "dl_malloc demo_kernel 100 demo_heap = map_option (map_prod id (say (printed demo_heap))) (malloc demo_kernel 100 demo_heap)"
  using linker_allocator_agrees [of demo_heap demo_kernel 100 0] by (simp add: demo_facts)

text \<open>C13. Whatever sequence of \<open>malloc\<close> and \<open>free\<close> calls the linker makes within the contract, from
  a consistent heap, its live allocations are pairwise disjoint, and a request the pool can serve
  always returns.\<close>

theorem linker_allocator_safe:
  assumes "heap_consistent A h" and "(client_step (dl_malloc K) dl_free served free_within)\<^sup>*\<^sup>* (A, h) (A', h')"
  shows "payloads_apart A' \<and> heap_consistent A' h' \<and>
    (served sz h' \<longrightarrow> (\<exists>p h''. dl_malloc K sz h' = Some (p, h'') \<and> p \<notin> fst ` A'))"
  using linker.run_consistent [OF assms(2)] linker.run_apart [OF assms(2)] assms(1)
    linker.alloc_returns [of A' h' sz K] by auto

theorem linker_allocator_safe_witness: "\<exists>p h''. dl_malloc demo_kernel 100 demo_heap = Some (p, h'')"
  using linker_allocator_safe [OF demo_consistent rtranclp.rtrancl_refl, where K = demo_kernel and sz = 100] demo_served [of 100]
  by auto

text \<open>C14. When the mapping for the allocator structure or for the first pool fails the way the code
  tests for (NULL or MAP_FAILED), \<open>malloc\<close> answers NULL, touches no header, and the allocator stays
  uninitialised, so that the next call tries again.\<close>

theorem linker_malloc_init_fails:
  assumes "galloc h = 0" and "dl_heap_mmap K 272 h = (a, h1)"
    and "dl_heap_mmap K (push_bit 20 1)
      (h1\<lparr>alloc := \<lparr>free_lists = replicate 32 0, heap_start = heap_start (alloc h1), heap_size = push_bit 20 1\<rparr>\<rparr>) = (p, h2)"
    and "a = 0 \<or> a = MAP_FAILED \<or> p = 0 \<or> p = MAP_FAILED"
  shows "\<exists>h'. dl_malloc K sz h = Some (0, h') \<and> hdr h' = hdr h \<and> galloc h' = 0"
proof -
  have [simp]: "hdr h1 = hdr h" "hdr h2 = hdr h1"
    using assms(2,3) by (auto simp: dl_heap_mmap_def split: prod.splits)
  have "\<not> push_bit 20 1 < (64 :: u64)" by (simp add: push_bit_eq_mult)
  then show ?thesis
    using assms by (auto simp: dl_malloc.simps [of K sz h] dl_ensure_allocator_init_def dl_buddy_init_def Let_def)
qed

text \<open>A kernel out of memory, answering MAP_FAILED or, as Linux does, the negated error number.\<close>

definition no_memory :: "u64 \<Rightarrow> unit kernel" where
  "no_memory r k m nr args = (r, m, k)"

definition fresh_heap :: "unit heap" where
  "fresh_heap = \<lparr>hdr = (\<lambda>_. \<lparr>blk_size = 0, blk_order = 0, is_free = 0, next_free = 0, buddy = 0\<rparr>),
     galloc = 0, alloc = \<lparr>free_lists = replicate 32 0, heap_start = 0, heap_size = 0\<rparr>, printed = [],
     hw = \<lparr>wmem = (\<lambda>_. 0), kst = ()\<rparr>\<rparr>"

lemma no_memory_mmap: "sz = 272 \<or> sz = push_bit 20 1 \<Longrightarrow> dl_heap_mmap (no_memory r) sz h = (r, h)"
  by (auto simp: dl_heap_mmap_def mmap_def raw_mmap_def svc_def no_memory_def mini_align_def push_bit_eq_mult)

theorem linker_malloc_init_fails_witness:
  "\<exists>h'. dl_malloc (no_memory MAP_FAILED) 64 fresh_heap = Some (0, h') \<and> galloc h' = 0"
  using linker_malloc_init_fails [OF _ no_memory_mmap no_memory_mmap, of fresh_heap _ 64]
  by (auto simp: fresh_heap_def)

text \<open>But a Linux kernel answers a failed \<open>mmap\<close> with a negated error number, which neither test
  catches: with every mapping refused by \<open>r\<close> other than NULL and MAP_FAILED (say -ENOMEM), the
  linker takes \<open>r\<close> for the address of the allocator and of its pool, and writes a block header there.\<close>

theorem linker_malloc_takes_errno_for_memory:
  assumes "r \<noteq> 0" and "r \<noteq> MAP_FAILED"
  shows "\<exists>h'. dl_ensure_allocator_init (no_memory r) fresh_heap = (r, h') \<and> galloc h' = r \<and>
    heap_start (alloc h') = r \<and> blk_size (hdr h' r) = push_bit 20 1 - block_hdr_size"
proof -
  have "\<not> push_bit 20 1 < (64 :: u64)" by (simp add: push_bit_eq_mult)
  moreover have "get_order (push_bit 20 1) = 14" by (rule get_order_bsz) (simp_all add: bsz_def push_bit_eq_mult)
  ultimately show ?thesis
    using assms by (simp add: dl_ensure_allocator_init_def dl_buddy_init_def Let_def no_memory_mmap
      fresh_heap_def set_head_def)
qed

theorem linker_malloc_takes_errno_for_memory_witness:
  "\<exists>h'. dl_ensure_allocator_init (no_memory (- 12)) fresh_heap = (- 12, h') \<and> galloc h' = - 12"
  using linker_malloc_takes_errno_for_memory [of "- 12"] by (auto simp: MAP_FAILED_def)

end
