(* ===== verification/Format.thy ===== *)
theory Format
  imports Syscalls
begin

text \<open>
  The formatting loop that mini_libc/src/printf.c and dynamic_linker/src/dl_runtime.c both have,
  statement by statement on the byte memory, and the byte list a format renders to. The two copies
  of the loop differ only in how they print numbers, so the loop takes the two number printers as
  arguments; the locale \<open>number_printers\<close> is what it needs of them, and inside it the loop is shown
  to write exactly the rendering.

  The variable arguments are a list of 64-bit slots; asking for one that is not there is
  undefined in C and \<open>None\<close> here, like a loop that does not end. The arrays on the stack
  (\<open>num_buf\<close>, \<open>temp\<close>, \<open>buf\<close>) are given by their addresses.
\<close>

type_synonym printer = "mem \<Rightarrow> u64 \<Rightarrow> u64 \<Rightarrow> i64 \<Rightarrow> (mem \<times> u64) option"

definition is_utf8_continuation :: "u8 \<Rightarrow> bool" where
  "is_utf8_continuation c \<longleftrightarrow> c AND 0xC0 = 0x80"

definition get_utf8_char_length :: "u8 \<Rightarrow> nat" where
  "get_utf8_char_length c =
     (if c AND 0x80 = 0 then 1
      else if c AND 0xE0 = 0xC0 then 2
      else if c AND 0xF0 = 0xE0 then 3
      else if c AND 0xF8 = 0xF0 then 4
      else 1)"

text \<open>\<open>for (i = 0; i < char_len && *s; i++) *str++ = *s++;\<close> with \<open>k\<close> rounds left.\<close>

primrec copy_char :: "mem \<Rightarrow> u64 \<Rightarrow> u64 \<Rightarrow> nat \<Rightarrow> mem \<times> u64 \<times> u64" where
  "copy_char m str s 0 = (m, str, s)"
| "copy_char m str s (Suc k) =
     (if m s \<noteq> 0 then copy_char (m(str := m s)) (str + 1) (s + 1) k else (m, str, s))"

partial_function (option) put_string :: "mem \<Rightarrow> u64 \<Rightarrow> u64 \<Rightarrow> (mem \<times> u64) option" where
  "put_string m str p =
     (if m p \<noteq> 0
      then case copy_char m str p (get_utf8_char_length (m p)) of (m1, str1, p1) \<Rightarrow> put_string m1 str1 p1
      else Some (m, str))"

text \<open>One conversion: \<open>s\<close> is the address after the percent sign.\<close>

definition put_spec :: "printer \<Rightarrow> printer \<Rightarrow> mem \<Rightarrow> u64 \<Rightarrow> u64 \<Rightarrow> u64 \<Rightarrow> u64 list \<Rightarrow> (mem \<times> u64 \<times> u64 \<times> u64 list) option" where
  "put_spec dec hex m str num_buf s args =
     (if m s = 100 then
        (case args of [] \<Rightarrow> None
         | a # as \<Rightarrow> map_option (\<lambda>(m1, str1). (m1, str1, s + 1, as))
                      (dec m str num_buf (scast (ucast a :: i32))))
      else if m s = 120 then
        (case args of [] \<Rightarrow> None
         | a # as \<Rightarrow> map_option (\<lambda>(m1, str1). (m1, str1, s + 1, as)) (hex m str num_buf a))
      else if m s = 108 then
        (if m (s + 1) = 100 then
           (case args of [] \<Rightarrow> None
            | a # as \<Rightarrow> map_option (\<lambda>(m1, str1). (m1, str1, s + 1 + 1, as)) (dec m str num_buf a))
         else Some (m, str, s + 1, args))
      else if m s = 115 then
        (case args of [] \<Rightarrow> None
         | a # as \<Rightarrow> map_option (\<lambda>(m1, str1). (m1, str1, s + 1, as)) (put_string m str a))
      else Some (m(str := m s), str + 1, s + 1, args))"

partial_function (option) fmt_loop :: "printer \<Rightarrow> printer \<Rightarrow> u64 \<Rightarrow> mem \<Rightarrow> u64 \<Rightarrow> u64 \<Rightarrow> u64 list \<Rightarrow> (mem \<times> u64) option" where
  "fmt_loop dec hex num_buf m str s args =
     (if m s \<noteq> 0 then
        if m s \<noteq> 37 then
          (case copy_char m str s (get_utf8_char_length (m s)) of
             (m1, str1, s1) \<Rightarrow> fmt_loop dec hex num_buf m1 str1 s1 args)
        else Option.bind (put_spec dec hex m str num_buf (s + 1) args) (\<lambda>(m1, str1, s1, args1).
               fmt_loop dec hex num_buf m1 str1 s1 args1)
      else Some (m, str))"

subsection \<open>What a format renders to\<close>

lemma utf8_length_range: "1 \<le> get_utf8_char_length c \<and> get_utf8_char_length c \<le> 4"
  by (simp add: get_utf8_char_length_def)

lemma utf8_length_pos [simp]: "0 < get_utf8_char_length c"
  using utf8_length_range [of c] by simp

text \<open>
  \<open>S\<close> is the string argument at an address, if there is one. Text is taken one multi-byte character at a time,
  as the code does: the bytes after a lead byte are copied whatever they are. \<open>None\<close>: too few
  arguments, a \<open>%s\<close> whose argument is no string, or a percent sign at the very end.
\<close>

function render :: "(i64 \<Rightarrow> u8 list) \<Rightarrow> (i64 \<Rightarrow> u8 list) \<Rightarrow> (u64 \<rightharpoonup> u8 list) \<Rightarrow> u8 list \<Rightarrow> u64 list \<Rightarrow> u8 list option" where
  "render D H S [] args = Some []"
| "render D H S (c # cs) args =
     (if c \<noteq> 37 then
        map_option (append (take (get_utf8_char_length c) (c # cs)))
          (render D H S (drop (get_utf8_char_length c) (c # cs)) args)
      else case cs of [] \<Rightarrow> None | d # ds \<Rightarrow>
        if d = 100 then
          (case args of [] \<Rightarrow> None
           | a # as \<Rightarrow> map_option (append (D (scast (ucast a :: i32)))) (render D H S ds as))
        else if d = 120 then
          (case args of [] \<Rightarrow> None | a # as \<Rightarrow> map_option (append (H a)) (render D H S ds as))
        else if d = 108 then
          (if ds \<noteq> [] \<and> hd ds = 100 then
             (case args of [] \<Rightarrow> None
              | a # as \<Rightarrow> map_option (append (D a)) (render D H S (tl ds) as))
           else render D H S ds args)
        else if d = 115 then
          (case args of [] \<Rightarrow> None
           | a # as \<Rightarrow> Option.bind (S a) (\<lambda>xs. map_option (append xs) (render D H S ds as)))
        else map_option (append [d]) (render D H S ds args))"
  by pat_completeness auto
termination
  by (relation "measure (\<lambda>(D, H, S, cs, args). length cs)") auto

declare render.simps(2) [simp del]

lemma cstr_next: "cstr m p xs \<Longrightarrow> \<not> (xs \<noteq> [] \<and> hd xs = 100) \<Longrightarrow> m p \<noteq> 100"
  by (cases xs) auto

lemma render_l: "\<not> (ds \<noteq> [] \<and> hd ds = 100) \<Longrightarrow> render D H S (37 # 108 # ds) args = render D H S ds args"
  unfolding render.simps(2) [of D H S 37 "108 # ds" args] by (cases ds) auto

text \<open>Successful rendering as a relation, one rule for each kind of piece.\<close>

inductive rendered :: "(i64 \<Rightarrow> u8 list) \<Rightarrow> (i64 \<Rightarrow> u8 list) \<Rightarrow> (u64 \<rightharpoonup> u8 list) \<Rightarrow> u8 list \<Rightarrow> u64 list \<Rightarrow> u8 list \<Rightarrow> bool"
  for D H S where
  rendered_end: "rendered D H S [] args []"
| rendered_text: "c \<noteq> 37 \<Longrightarrow> rendered D H S (drop (get_utf8_char_length c) (c # cs)) args out \<Longrightarrow>
    rendered D H S (c # cs) args (take (get_utf8_char_length c) (c # cs) @ out)"
| rendered_dec: "rendered D H S fs args out \<Longrightarrow>
    rendered D H S ([37, 100] @ fs) (a # args) (D (scast (ucast a :: i32)) @ out)"
| rendered_hex: "rendered D H S fs args out \<Longrightarrow> rendered D H S ([37, 120] @ fs) (a # args) (H a @ out)"
| rendered_long: "rendered D H S fs args out \<Longrightarrow> rendered D H S ([37, 108, 100] @ fs) (a # args) (D a @ out)"
| rendered_l: "\<not> (fs \<noteq> [] \<and> hd fs = 100) \<Longrightarrow> rendered D H S fs args out \<Longrightarrow> rendered D H S ([37, 108] @ fs) args ([] @ out)"
| rendered_string: "S a = Some xs \<Longrightarrow> rendered D H S fs args out \<Longrightarrow> rendered D H S ([37, 115] @ fs) (a # args) (xs @ out)"
| rendered_other: "d \<notin> {100, 120, 108, 115} \<Longrightarrow> rendered D H S fs args out \<Longrightarrow>
    rendered D H S ([37, d] @ fs) args ([d] @ out)"

lemmas rendered_specs = rendered_dec rendered_hex rendered_long rendered_l rendered_string rendered_other

lemma render_rendered: "render D H S fs args = Some out \<Longrightarrow> rendered D H S fs args out"
proof (induction D H S fs args arbitrary: out rule: render.induct)
  case (1 D H S args)
  then show ?case by (simp add: rendered_end)
next
  case (2 D H S c cs args)
  note eq = "2.prems" [unfolded render.simps(2) [of D H S c]]
  show ?case
  proof (cases "c = 37")
    case False
    then show ?thesis using eq "2.IH"(1) rendered_text [OF False] by auto
  next
    case True
    then obtain d ds where cs: "cs = d # ds" using eq by (cases cs) auto
    have np: "\<not> c \<noteq> 37" using True by simp
    note IH = "2.IH"(2-7) [OF np cs]
    show ?thesis
    proof (cases "d \<in> {100, 120, 108, 115}")
      case False
      then show ?thesis using eq cs True IH(6) rendered_other [OF False, of D H S ds args] by auto
    next
      case spec: True
      show ?thesis
      proof (cases "d = 108")
        case l: True
        show ?thesis
        proof (cases "ds \<noteq> [] \<and> hd ds = 100")
          case True
          then obtain fs where ds: "ds = 100 # fs" by (cases ds) auto
          then obtain a as o2 where "args = a # as" "render D H S fs as = Some o2" "out = D a @ o2"
            using eq cs \<open>c = 37\<close> l by (cases args) auto
          then show ?thesis using IH(3) [of a as o2] rendered_long [of D H S fs as o2 a] cs \<open>c = 37\<close> l ds by simp
        next
          case False
          have "render D H S ds args = Some out" using eq cs \<open>c = 37\<close> l False by (simp only: if_False) simp
          then show ?thesis using IH(4) rendered_l [OF False, of D H S args out] cs \<open>c = 37\<close> l False by simp
        qed
      next
        case False
        then show ?thesis
          using eq cs \<open>c = 37\<close> spec IH(1,2,5) rendered_dec [of D H S ds] rendered_hex [of D H S ds] rendered_string [of S _ _ D H ds]
          by (cases args) (auto simp: bind_eq_Some_conv)
      qed
    qed
  qed
qed

subsection \<open>Writing a piece of output\<close>

text \<open>
  From \<open>m\<close> to \<open>m'\<close> the bytes \<open>out\<close> were written at \<open>str\<close>; apart from them only the number buffer
  at \<open>nb\<close> may have changed.
\<close>

definition emitted :: "u64 \<Rightarrow> mem \<Rightarrow> u64 \<Rightarrow> u8 list \<Rightarrow> mem \<Rightarrow> bool" where
  "emitted nb m str out m' \<longleftrightarrow> bytes_at m' str (length out) = out \<and>
     (\<forall>a. \<not> in_region str (length out) a \<and> \<not> in_region nb 32 a \<longrightarrow> m' a = m a)"

lemma emitted_Nil [simp]: "emitted nb m str [] m"
  by (simp add: emitted_def)

lemma emitted_write: "length out \<le> 2 ^ 64 \<Longrightarrow> emitted nb m str out (write_bytes m str out)"
  by (simp add: emitted_def bytes_at_write_same write_bytes_other)

lemma in_region_prefix: "in_region p n a \<Longrightarrow> n \<le> k \<Longrightarrow> in_region p k a"
  by (simp add: in_region_def)

lemma in_region_later:
  assumes "i < k" "k + n \<le> 2 ^ 64"
  shows "\<not> in_region (p + of_nat k) n (p + of_nat i)"
proof (cases "n = 0")
  case False
  then have k: "k < 2 ^ 64" "i < 2 ^ 64" using assms by simp_all
  have "unat (p + of_nat i - (p + of_nat k)) = unat (of_nat i - of_nat k :: u64)" by simp
  also have "\<dots> = 2 ^ 64 + i - k"
    using assms(1) k by (simp add: unat_diff_circ unat_of_nat_small)
  finally show ?thesis using assms by (simp add: in_region_def)
qed (simp add: in_region_def)

lemma emitted_append:
  assumes e1: "emitted nb m str o1 m1" and e2: "emitted nb m1 (str + of_nat (length o1)) o2 m2"
    and len: "length o1 + length o2 \<le> 2 ^ 64" and nb: "apart str (length o1) nb 32"
  shows "emitted nb m str (o1 @ o2) m2"
proof -
  have "bytes_at m2 str (length o1) = bytes_at m1 str (length o1)"
  proof (rule bytes_at_cong)
    fix i assume i: "i < length o1"
    have "in_region str (length o1) (str + of_nat i)"
      using i len by (intro in_region_index) simp_all
    then have "\<not> in_region nb 32 (str + of_nat i)" using apartD [OF nb] by blast
    with in_region_later [OF i len] show "m2 (str + of_nat i) = m1 (str + of_nat i)"
      using e2 by (simp add: emitted_def)
  qed
  moreover have "m2 a = m a" if "\<not> in_region str (length (o1 @ o2)) a" "\<not> in_region nb 32 a" for a
  proof -
    have "\<not> in_region (str + of_nat (length o1)) (length o2) a"
      using that(1) in_region_shift [of str "length o1" "length o2" a] by auto
    moreover have "\<not> in_region str (length o1) a"
      using that(1) in_region_prefix [of str "length o1" a] by auto
    ultimately show ?thesis using e1 e2 that(2) by (simp add: emitted_def)
  qed
  ultimately show ?thesis
    using e1 e2 by (simp add: emitted_def bytes_at_add)
qed

text \<open>A string outside the pieces written is still there.\<close>

definition untouched :: "u64 \<Rightarrow> u64 \<Rightarrow> nat \<Rightarrow> u64 \<Rightarrow> nat \<Rightarrow> bool" where
  "untouched nb buf n p k \<longleftrightarrow> k \<le> 2 ^ 64 \<and> apart buf n p k \<and> apart nb 32 p k"

lemma emitted_cstr:
  assumes e: "emitted nb m str out m'" and u: "untouched nb str (length out) p (Suc (length xs))"
    and s: "cstr m p xs"
  shows "cstr m' p xs"
proof -
  have "m' (p + of_nat i) = m (p + of_nat i)" if "i \<le> length xs" for i
  proof -
    have "in_region p (Suc (length xs)) (p + of_nat i)"
      using that u by (intro in_region_index) (simp_all add: untouched_def)
    then have "\<not> in_region str (length out) (p + of_nat i)" "\<not> in_region nb 32 (p + of_nat i)"
      using u apartD apart_sym unfolding untouched_def by metis+
    then show ?thesis using e by (simp add: emitted_def)
  qed
  then show ?thesis using s cstr_cong [of xs m' p m] by blast
qed

subsection \<open>The pieces\<close>

lemma cstr_append: "cstr m p (xs @ ys) \<Longrightarrow> cstr m (p + of_nat (length xs)) ys"
proof (induction xs arbitrary: p)
  case (Cons x xs)
  then show ?case using Cons.IH [of "p + 1"] by (simp add: algebra_simps)
qed simp

lemma copy_char_eq:
  "cstr m s xs \<Longrightarrow> apart str (length (take k xs)) s (Suc (length xs)) \<Longrightarrow> length xs < 2 ^ 64 \<Longrightarrow>
   copy_char m str s k = (write_bytes m str (take k xs), str + of_nat (length (take k xs)),
     s + of_nat (length (take k xs)))"
proof (induction k arbitrary: m str s xs)
  case 0
  then show ?case by simp
next
  case (Suc k)
  show ?case
  proof (cases xs)
    case Nil
    with Suc.prems show ?thesis by simp
  next
    case (Cons c cs)
    let ?m = "m(str := c)"
    have ap: "apart str (Suc (length (take k cs))) s (Suc (Suc (length cs)))"
      using Suc.prems(2) by (simp add: Cons)
    then have "apart str 1 (s + 1) (Suc (length cs))"
      using apart_shift [of s "Suc (Suc (length cs))" str 1 1 "Suc (length cs)"]
        apart_mono [of str "Suc (length (take k cs))" s "Suc (Suc (length cs))" 1 "Suc (Suc (length cs))"]
      by (simp add: apart_sym)
    then have "cstr (write_bytes m str [c]) (s + 1) cs"
      using Suc.prems by (subst cstr_write_apart) (simp_all add: Cons)
    then have cs: "cstr ?m (s + 1) cs" by simp
    have ap': "apart (str + 1) (length (take k cs)) (s + 1) (Suc (length cs))"
      using apart_mono [OF ap, of "length (take k cs)" "Suc (length cs)"] by (simp only: apart_step)
    have "copy_char ?m (str + 1) (s + 1) k = (write_bytes ?m (str + 1) (take k cs),
        str + 1 + of_nat (length (take k cs)), s + 1 + of_nat (length (take k cs)))"
      by (rule Suc.IH [OF cs ap']) (use Suc.prems in \<open>simp add: Cons\<close>)
    with Suc.prems show ?thesis by (simp add: Cons algebra_simps)
  qed
qed

lemma put_string_eq:
  "cstr m p xs \<Longrightarrow> apart str (Suc (length xs)) p (Suc (length xs)) \<Longrightarrow> length xs < 2 ^ 64 \<Longrightarrow>
   put_string m str p = Some (write_bytes m str xs, str + of_nat (length xs))"
proof (induction "length xs" arbitrary: m p str xs rule: less_induct)
  case less
  show ?case
  proof (cases xs)
    case Nil
    with less.prems show ?thesis by (simp add: put_string.simps [of m str p])
  next
    case (Cons c cs)
    let ?k = "get_utf8_char_length c"
    define a where "a = take ?k xs"
    define b where "b = drop ?k xs"
    have ab: "xs = a @ b" by (simp add: a_def b_def)
    have la: "0 < length a" by (simp add: a_def Cons)
    have mp: "m p = c" "c \<noteq> 0" using less.prems(1) by (simp_all add: Cons)
    let ?m = "write_bytes m str a"
    have "copy_char m str p ?k = (?m, str + of_nat (length a), p + of_nat (length a))"
      unfolding a_def
      by (rule copy_char_eq [OF less.prems(1)])
        (use apart_mono [OF less.prems(2)] less.prems(3) in auto)
    then have step: "put_string m str p = put_string ?m (str + of_nat (length a)) (p + of_nat (length a))"
      using mp by (simp add: put_string.simps [of m str p])
    have "cstr ?m p xs"
      using less.prems apart_mono [OF less.prems(2), of "length a" "Suc (length xs)"]
      by (subst cstr_write_apart) (simp_all add: ab)
    then have "cstr ?m (p + of_nat (length a)) b" unfolding ab by (rule cstr_append)
    moreover have "apart (str + of_nat (length a)) (Suc (length b)) (p + of_nat (length a)) (Suc (length b))"
      unfolding apart_advance by (rule apart_mono [OF less.prems(2)]) (simp_all add: ab)
    ultimately have "put_string ?m (str + of_nat (length a)) (p + of_nat (length a))
        = Some (write_bytes ?m (str + of_nat (length a)) b, str + of_nat (length a) + of_nat (length b))"
      by (intro less.hyps) (use la less.prems(3) in \<open>simp_all add: ab\<close>)
    then show ?thesis unfolding step by (simp add: ab write_bytes_append add.assoc)
  qed
qed

text \<open>What a number printer owes: it writes the spelling \<open>N\<close> of its argument, by way of \<open>num_buf\<close>.\<close>

definition prints :: "printer \<Rightarrow> (i64 \<Rightarrow> u8 list) \<Rightarrow> bool" where
  "prints p N \<longleftrightarrow> (\<forall>m str nb v. apart str (length (N v)) nb 32 \<longrightarrow>
     (\<exists>m'. p m str nb v = Some (m', str + of_nat (length (N v))) \<and> emitted nb m str (N v) m'))"

lemma emitted_via_buffer:
  assumes "length xs < 32" and "m1 = write_bytes m nb (xs @ [0])"
  shows "emitted nb m str xs (write_bytes m1 str xs)"
proof -
  have "m1 a = m a" if "\<not> in_region nb 32 a" for a
    unfolding assms(2) using that assms(1) in_region_prefix [of nb "length (xs @ [0])" a 32]
    by (intro write_bytes_other) auto
  then show ?thesis
    using assms(1) by (simp add: emitted_def bytes_at_write_same write_bytes_other)
qed

lemma buffer_string:
  assumes "length xs < 32" and "0 \<notin> set xs"
  shows "cstr (write_bytes m nb (xs @ [0])) nb xs" "bytes_at (write_bytes m nb (xs @ [0])) nb (length xs) = xs"
proof -
  show c: "cstr (write_bytes m nb (xs @ [0])) nb xs"
    by (rule cstr_write_same) (use assms in simp_all)
  show "bytes_at (write_bytes m nb (xs @ [0])) nb (length xs) = xs"
    using c bytes_at_add [of "write_bytes m nb (xs @ [0])" nb "length xs" 1]
    by (simp add: cstr_bytes_at del: bytes_at.simps(2))
qed

subsection \<open>The loop over the format\<close>

text \<open>
  What the loop needs to write \<open>n\<close> more bytes and the NUL: the rest of the format and the string
  arguments are in memory, outside the space left for the output and outside \<open>num_buf\<close>.
\<close>

definition ready :: "(u64 \<rightharpoonup> u8 list) \<Rightarrow> u64 \<Rightarrow> mem \<Rightarrow> u64 \<Rightarrow> u64 \<Rightarrow> u8 list \<Rightarrow> nat \<Rightarrow> bool" where
  "ready S nb m str s fs n \<longleftrightarrow>
     cstr m s fs \<and> length fs < 2 ^ 64 \<and> n < 2 ^ 64 \<and>
     untouched nb str (Suc n) s (Suc (length fs)) \<and> apart nb 32 str (Suc n) \<and>
     (\<forall>a xs. S a = Some xs \<longrightarrow> length xs < 2 ^ 64 \<and> cstr m a xs \<and> untouched nb str (Suc n) a (Suc (length xs)))"

lemma untouched_mono:
  "untouched nb str N p k \<Longrightarrow> n \<le> N \<Longrightarrow> untouched nb str n p k"
  using apart_mono [of str N p k n k] by (simp add: untouched_def)

lemma untouched_advance:
  assumes "untouched nb str (Suc (i + n)) p k"
  shows "untouched nb (str + of_nat i) (Suc n) p k"
  using assms apart_shift [of str "Suc (i + n)" p k i "Suc n"] by (simp add: untouched_def)

lemma untouched_suffix:
  assumes "untouched nb str n p (i + k)" "0 < k"
  shows "untouched nb str n (p + of_nat i) k"
  using assms apart_shift [of p "i + k" str n i k] apart_shift [of p "i + k" nb 32 i k]
  by (simp add: untouched_def apart_sym [of _ _ p] apart_sym [of _ _ "p + of_nat i"])

lemma ready_step:
  assumes rd: "ready S nb m str s (pre @ fs) (length o1 + n)" and e: "emitted nb m str o1 m1"
  shows "ready S nb m1 (str + of_nat (length o1)) (s + of_nat (length pre)) fs n"
proof -
  have keep: "cstr m1 p xs" if "cstr m p xs" "untouched nb str (Suc (length o1 + n)) p (Suc (length xs))" for p xs
    by (rule emitted_cstr [OF e untouched_mono [OF that(2)] that(1)]) simp
  have f: "cstr m1 s (pre @ fs)" and u: "untouched nb str (Suc (length o1 + n)) s (length pre + Suc (length fs))"
    using rd keep by (simp_all add: ready_def)
  have "untouched nb (str + of_nat (length o1)) (Suc n) (s + of_nat (length pre)) (Suc (length fs))"
    by (rule untouched_advance) (rule untouched_suffix [OF u], simp)
  moreover have "apart nb 32 (str + of_nat (length o1)) (Suc n)"
    using rd apart_shift [of str "Suc (length o1 + n)" nb 32 "length o1" "Suc n"]
    by (simp add: ready_def apart_sym [of nb])
  moreover have "cstr m1 a xs \<and> untouched nb (str + of_nat (length o1)) (Suc n) a (Suc (length xs))"
    if "S a = Some xs" for a xs
    using rd that keep [of a xs] untouched_advance [of nb str "length o1" n a "Suc (length xs)"]
    by (simp add: ready_def)
  ultimately show ?thesis
    using rd cstr_append [OF f] unfolding ready_def by simp
qed

lemma ready_emit:
  assumes "ready S nb m str s fs (length o1 + n)" and "emitted nb m str o1 m1"
    and "emitted nb m1 (str + of_nat (length o1)) o2 m2" and "length o2 \<le> n"
  shows "emitted nb m str (o1 @ o2) m2"
proof (rule emitted_append [OF assms(2,3)])
  show "length o1 + length o2 \<le> 2 ^ 64" using assms(1,4) by (simp add: ready_def)
  have "apart nb 32 str (length o1)"
    using assms(1) apart_mono [of nb 32 str "Suc (length o1 + n)" 32 "length o1"] by (simp add: ready_def)
  then show "apart str (length o1) nb 32" by (simp only: apart_sym)
qed

text \<open>One round of the loop: a piece of output, then the rest.\<close>

lemma loop_round:
  assumes rd: "ready S nb m str s (pre @ fs) (length o1 + length o2)" and e: "emitted nb m str o1 m1"
    and step: "fmt_loop dec hex nb m str s args
      = fmt_loop dec hex nb m1 (str + of_nat (length o1)) (s + of_nat (length pre)) args1"
    and rest: "\<And>m str s. ready S nb m str s fs (length o2) \<Longrightarrow>
      \<exists>m'. fmt_loop dec hex nb m str s args1 = Some (m', str + of_nat (length o2)) \<and> emitted nb m str o2 m'"
  shows "\<exists>m'. fmt_loop dec hex nb m str s args = Some (m', str + of_nat (length (o1 @ o2)))
    \<and> emitted nb m str (o1 @ o2) m'"
proof -
  obtain m2 where "fmt_loop dec hex nb m1 (str + of_nat (length o1)) (s + of_nat (length pre)) args1
        = Some (m2, str + of_nat (length o1) + of_nat (length o2))"
      "emitted nb m1 (str + of_nat (length o1)) o2 m2"
    using rest [OF ready_step [OF rd e]] by blast
  moreover from this have "emitted nb m str (o1 @ o2) m2"
    by (intro ready_emit [OF rd e]) simp_all
  ultimately show ?thesis using step by (simp add: add.assoc)
qed

lemma round_text:
  assumes rd: "ready S nb m str s (c # cs) (length (take (get_utf8_char_length c) (c # cs)) + n)" and c: "c \<noteq> 37"
  shows "\<exists>m1. emitted nb m str (take (get_utf8_char_length c) (c # cs)) m1 \<and>
    fmt_loop dec hex nb m str s args = fmt_loop dec hex nb m1
      (str + of_nat (length (take (get_utf8_char_length c) (c # cs))))
      (s + of_nat (length (take (get_utf8_char_length c) (c # cs)))) args"
proof -
  let ?p = "take (get_utf8_char_length c) (c # cs)"
  have m: "cstr m s (c # cs)" "m s = c" "c \<noteq> 0" "length (c # cs) < 2 ^ 64" using rd by (auto simp: ready_def)
  have "apart str (Suc (length ?p + n)) s (Suc (length (c # cs)))"
    using rd by (simp add: ready_def untouched_def)
  then have ap: "apart str (length ?p) s (Suc (length (c # cs)))"
    by (rule apart_mono) simp_all
  have "copy_char m str s (get_utf8_char_length c) = (write_bytes m str ?p,
      str + of_nat (length ?p), s + of_nat (length ?p))"
    by (rule copy_char_eq [OF m(1) ap m(4)])
  moreover have "length ?p \<le> 2 ^ 64" using m(4) by simp
  ultimately show ?thesis
    using m c emitted_write [of ?p nb m str]
    by (intro exI [of _ "write_bytes m str ?p"]) (simp add: fmt_loop.simps [of dec hex nb m str s args])
qed

lemma round_spec:
  assumes "m s = 37" and "put_spec dec hex m str nb (s + 1) args = Some (m1, str1, s1, args1)"
  shows "fmt_loop dec hex nb m str s args = fmt_loop dec hex nb m1 str1 s1 args1"
  using assms by (simp add: fmt_loop.simps [of dec hex nb m str s args])

lemma ready_number:
  assumes rd: "ready S nb m str s fs (length (N v) + n)" and p: "prints p N"
  shows "\<exists>m'. p m str nb v = Some (m', str + of_nat (length (N v))) \<and> emitted nb m str (N v) m'"
proof -
  have "apart nb 32 str (Suc (length (N v) + n))" using rd by (simp add: ready_def)
  then have "apart str (Suc (length (N v) + n)) nb 32" by (simp only: apart_sym)
  then have "apart str (length (N v)) nb 32" by (rule apart_mono) simp_all
  with p show ?thesis by (simp add: prints_def)
qed

definition loop_writes :: "printer \<Rightarrow> printer \<Rightarrow> u64 \<Rightarrow> (u64 \<rightharpoonup> u8 list) \<Rightarrow> u8 list \<Rightarrow> u64 list \<Rightarrow> u8 list \<Rightarrow> bool" where
  "loop_writes dec hex nb S fs args out \<longleftrightarrow> (\<forall>m str s. ready S nb m str s fs (length out) \<longrightarrow>
     (\<exists>m'. fmt_loop dec hex nb m str s args = Some (m', str + of_nat (length out)) \<and> emitted nb m str out m'))"

lemma loop_writesI:
  assumes rest: "loop_writes dec hex nb S fs args1 o2"
    and piece: "\<And>m str s. ready S nb m str s (pre @ fs) (length o1 + length o2) \<Longrightarrow>
      \<exists>m1. emitted nb m str o1 m1 \<and> fmt_loop dec hex nb m str s args
        = fmt_loop dec hex nb m1 (str + of_nat (length o1)) (s + of_nat (length pre)) args1"
  shows "loop_writes dec hex nb S (pre @ fs) args (o1 @ o2)"
  unfolding loop_writes_def
proof (intro allI impI)
  fix m str s assume "ready S nb m str s (pre @ fs) (length (o1 @ o2))"
  then have rd: "ready S nb m str s (pre @ fs) (length o1 + length o2)" by simp
  obtain m1 where "emitted nb m str o1 m1" "fmt_loop dec hex nb m str s args
      = fmt_loop dec hex nb m1 (str + of_nat (length o1)) (s + of_nat (length pre)) args1"
    using piece [OF rd] by blast
  then show "\<exists>m'. fmt_loop dec hex nb m str s args = Some (m', str + of_nat (length (o1 @ o2))) \<and>
      emitted nb m str (o1 @ o2) m'"
    by (rule loop_round [OF rd]) (use rest in \<open>simp add: loop_writes_def\<close>)
qed

lemma writes_number:
  assumes rest: "loop_writes dec hex nb S fs as o2" and p: "prints p N"
    and spec: "\<And>m str s. cstr m s (pre @ fs) \<Longrightarrow> m s = 37 \<and> put_spec dec hex m str nb (s + 1) (a # as)
      = map_option (\<lambda>(m1, str1). (m1, str1, s + of_nat (length pre), as)) (p m str nb v)"
  shows "loop_writes dec hex nb S (pre @ fs) (a # as) (N v @ o2)"
proof (rule loop_writesI [OF rest])
  fix m str s assume rd: "ready S nb m str s (pre @ fs) (length (N v) + length o2)"
  obtain m' where r: "p m str nb v = Some (m', str + of_nat (length (N v)))" "emitted nb m str (N v) m'"
    using ready_number [OF rd p] by blast
  have "m s = 37 \<and> put_spec dec hex m str nb (s + 1) (a # as)
      = Some (m', str + of_nat (length (N v)), s + of_nat (length pre), as)"
    using spec [of m s str] rd r(1) by (simp add: ready_def)
  then show "\<exists>m1. emitted nb m str (N v) m1 \<and> fmt_loop dec hex nb m str s (a # as)
      = fmt_loop dec hex nb m1 (str + of_nat (length (N v))) (s + of_nat (length pre)) as"
    using r(2) round_spec by blast
qed

lemma writes_string:
  assumes rest: "loop_writes dec hex nb S fs as o2" and a: "S a = Some xs"
  shows "loop_writes dec hex nb S ([37, 115] @ fs) (a # as) (xs @ o2)"
proof (rule loop_writesI [OF rest])
  fix m str s assume rd: "ready S nb m str s ([37, 115] @ fs) (length xs + length o2)"
  have x: "length xs < 2 ^ 64" "cstr m a xs" "apart str (Suc (length xs + length o2)) a (Suc (length xs))"
    using rd a by (auto simp: ready_def untouched_def)
  have "put_string m str a = Some (write_bytes m str xs, str + of_nat (length xs))"
    by (rule put_string_eq [OF x(2) apart_mono [OF x(3)] x(1)]) simp_all
  then have "m s = 37 \<and> put_spec dec hex m str nb (s + 1) (a # as)
      = Some (write_bytes m str xs, str + of_nat (length xs), s + of_nat (length [37 :: u8, 115]), as)"
    using rd by (simp add: ready_def put_spec_def)
  then show "\<exists>m1. emitted nb m str xs m1 \<and> fmt_loop dec hex nb m str s (a # as)
      = fmt_loop dec hex nb m1 (str + of_nat (length xs)) (s + of_nat (length [37 :: u8, 115])) as"
    using emitted_write [of xs nb m str] x(1) round_spec by (meson less_imp_le)
qed

lemma writes_none:
  assumes rest: "loop_writes dec hex nb S fs args o2"
    and spec: "\<And>m str s. cstr m s (pre @ fs) \<Longrightarrow> m s = 37 \<and> put_spec dec hex m str nb (s + 1) args
      = Some (write_bytes m str o1, str + of_nat (length o1), s + of_nat (length pre), args)"
    and len: "length o1 \<le> 1"
  shows "loop_writes dec hex nb S (pre @ fs) args (o1 @ o2)"
proof (rule loop_writesI [OF rest])
  fix m str s assume rd: "ready S nb m str s (pre @ fs) (length o1 + length o2)"
  then have "m s = 37 \<and> put_spec dec hex m str nb (s + 1) args
      = Some (write_bytes m str o1, str + of_nat (length o1), s + of_nat (length pre), args)"
    by (intro spec) (simp add: ready_def)
  then show "\<exists>m1. emitted nb m str o1 m1 \<and> fmt_loop dec hex nb m str s args
      = fmt_loop dec hex nb m1 (str + of_nat (length o1)) (s + of_nat (length pre)) args"
    using emitted_write [of o1 nb m str] len round_spec by fastforce
qed

lemma loop_renders:
  assumes "render D H S fs args = Some out" and p: "prints dec D" "prints hex H"
  shows "loop_writes dec hex nb S fs args out"
  using render_rendered [OF assms(1)]
proof (induction rule: rendered.induct)
  case (rendered_text c cs args out)
  let ?k = "get_utf8_char_length c"
  have "loop_writes dec hex nb S (take ?k (c # cs) @ drop ?k (c # cs)) args (take ?k (c # cs) @ out)"
    by (rule loop_writesI [OF rendered_text.IH])
      (use round_text [OF _ rendered_text.hyps(1)] in \<open>simp only: append_take_drop_id\<close>)
  then show ?case by (simp only: append_take_drop_id)
next
  case (rendered_l fs args out)
  show ?case
    by (rule writes_none [OF rendered_l.IH]) (use rendered_l.hyps(1) cstr_next [of _ _ fs] in \<open>simp_all add: put_spec_def add.assoc\<close>)
next
  case (rendered_string a xs fs args out)
  then show ?case by (intro writes_string)
next
  case (rendered_other d fs args out)
  show ?case by (rule writes_none [OF rendered_other.IH]) (use rendered_other.hyps(1) in \<open>simp_all add: put_spec_def add.assoc\<close>)
qed (simp add: loop_writes_def ready_def fmt_loop.simps [of dec hex nb],
    (rule writes_number [OF _ p(1)] writes_number [OF _ p(2)], assumption, simp add: put_spec_def add.assoc)+)

lemma render_no_nul:
  assumes "render D H S fs args = Some out" and "\<And>v. 0 \<notin> set (D v)" "\<And>v. 0 \<notin> set (H v)"
    and "\<And>a xs. S a = Some xs \<Longrightarrow> 0 \<notin> set xs" and "0 \<notin> set fs"
  shows "0 \<notin> set out"
  using render_rendered [OF assms(1)] assms(5)
proof (induction rule: rendered.induct)
  case (rendered_text c cs args out)
  then show ?case using in_set_dropD in_set_takeD by (metis Un_iff set_append)
qed (use assms(2-4) in auto)

lemma strings_no_nul: "ready S nb m str s fs n \<Longrightarrow> S a = Some xs \<Longrightarrow> 0 \<notin> set xs"
  using cstr_nonzero unfolding ready_def by blast

lemma emitted_string:
  "emitted nb m buf (out @ [0]) m' \<Longrightarrow> 0 \<notin> set out \<Longrightarrow> cstr m' buf out"
  by (simp add: emitted_def cstr_bytes_at del: bytes_at.simps)

subsection \<open>The routines on top of the loop\<close>

definition vsprintf_with :: "printer \<Rightarrow> printer \<Rightarrow> u64 \<Rightarrow> mem \<Rightarrow> u64 \<Rightarrow> u64 \<Rightarrow> u64 list \<Rightarrow> (mem \<times> i32) option" where
  "vsprintf_with dec hex num_buf m buf format args =
     Option.bind (fmt_loop dec hex num_buf m buf format args) (\<lambda>(m1, str).
       Some (m1(str := 0), ucast (str - buf)))"

text \<open>
  The same into a local array of \<open>n\<close> bytes, with nothing that stops the loop at its end: an output
  that does not fit it with its NUL is written beyond the array, which is undefined in C and \<open>None\<close>
  here.
\<close>

definition vsprintf_array :: "nat \<Rightarrow> printer \<Rightarrow> printer \<Rightarrow> u64 \<Rightarrow> mem \<Rightarrow> u64 \<Rightarrow> u64 \<Rightarrow> u64 list \<Rightarrow> (mem \<times> i32) option" where
  "vsprintf_array n dec hex num_buf m arr format args =
     Option.bind (fmt_loop dec hex num_buf m arr format args) (\<lambda>(m1, str).
       if n \<le> unat (str - arr) then None else Some (m1(str := 0), ucast (str - arr)))"

definition vsnprintf_with :: "printer \<Rightarrow> printer \<Rightarrow> (mem \<Rightarrow> u64 \<Rightarrow> u64 \<Rightarrow> u64 \<Rightarrow> mem \<times> u64) \<Rightarrow> u64 \<Rightarrow> u64 \<Rightarrow>
    mem \<Rightarrow> u64 \<Rightarrow> u64 \<Rightarrow> u64 \<Rightarrow> u64 list \<Rightarrow> (mem \<times> i32) option" where
  "vsnprintf_with dec hex copy num_buf temp m buf sz format args =
     (if buf = 0 \<or> format = 0 \<or> sz = 0 then Some (m, - 1)
      else Option.bind (vsprintf_array 1024 dec hex num_buf m temp format args) (\<lambda>(m1, ret).
        if sint ret < 0 \<or> sz \<le> scast ret then Some (m1, - 1)
        else let m2 = fst (copy m1 buf temp (scast ret))
             in Some (m2(buf + scast ret := 0), ret)))"

subsection \<open>The contract of the number printers\<close>

locale number_printers =
  fixes dec :: printer and hex :: printer and D :: "i64 \<Rightarrow> u8 list" and H :: "i64 \<Rightarrow> u8 list"
  assumes dec_prints: "prints dec D" and hex_prints: "prints hex H"
    and dec_no_nul: "0 \<notin> set (D v)" and hex_no_nul: "0 \<notin> set (H v)"
begin

lemma render_text:
  assumes "render D H S fs args = Some out" and "ready S nb m buf s fs n"
  shows "0 \<notin> set out"
  by (rule render_no_nul [OF assms(1) dec_no_nul hex_no_nul])
    (use assms(2) strings_no_nul cstr_no_nul in \<open>auto simp: ready_def\<close>)

lemma vsprintf_eq:
  assumes r: "render D H S fs args = Some out" and rd: "ready S nb m buf s fs (length out)"
  shows "\<exists>m'. vsprintf_with dec hex nb m buf s args = Some (m', of_nat (length out)) \<and>
    emitted nb m buf (out @ [0]) m'"
proof -
  obtain m1 where m1: "fmt_loop dec hex nb m buf s args = Some (m1, buf + of_nat (length out))"
      "emitted nb m buf out m1"
    using loop_renders [OF r dec_prints hex_prints] rd unfolding loop_writes_def by blast
  let ?m = "m1(buf + of_nat (length out) := 0)"
  have len: "length out < 2 ^ 64" and nb: "apart nb 32 buf (Suc (length out))"
    using rd by (simp_all add: ready_def)
  have "emitted nb m1 (buf + of_nat (length out)) [0] ?m"
    using emitted_write [of "[0]" nb m1 "buf + of_nat (length out)"] by simp
  then have "emitted nb m buf (out @ [0]) ?m"
    by (rule emitted_append [OF m1(2)])
      (use len apart_mono [OF nb, of 32 "length out"] in \<open>simp_all add: apart_sym [of buf]\<close>)
  moreover have "ucast (of_nat (length out) :: u64) = (of_nat (length out) :: i32)"
    by (rule ucast_of_nat_small) (use len in simp)
  ultimately show ?thesis using m1(1) by (simp add: vsprintf_with_def)
qed

lemma vsprintf_string:
  assumes "render D H S fs args = Some out" and "ready S nb m buf s fs (length out)"
  shows "\<exists>m'. vsprintf_with dec hex nb m buf s args = Some (m', of_nat (length out)) \<and> cstr m' buf out \<and>
    (\<forall>a. \<not> in_region buf (length out + 1) a \<and> \<not> in_region nb 32 a \<longrightarrow> m' a = m a)"
  using vsprintf_eq [OF assms] emitted_string [OF _ render_text [OF assms]]
  by (fastforce simp: emitted_def)

lemma vsprintf_array_eq:
  assumes r: "render D H S fs args = Some out" and rd: "ready S nb m arr s fs (length out)"
  shows "vsprintf_array n dec hex nb m arr s args =
    (if length out < n then vsprintf_with dec hex nb m arr s args else None)"
proof -
  obtain m1 where "fmt_loop dec hex nb m arr s args = Some (m1, arr + of_nat (length out))"
    using loop_renders [OF r dec_prints hex_prints] rd unfolding loop_writes_def by blast
  moreover have "unat (of_nat (length out) :: u64) = length out"
    using rd by (intro unat_of_nat_small) (simp add: ready_def)
  ultimately show ?thesis by (simp add: vsprintf_array_def vsprintf_with_def)
qed

lemma vsnprintf_eq:
  assumes r: "render D H S fs args = Some out" and rd: "ready S nb m temp s fs (length out)"
    and args: "buf \<noteq> 0" "s \<noteq> 0" "sz \<noteq> 0" and len: "length out < 1024"
  shows "\<exists>m1. emitted nb m temp (out @ [0]) m1 \<and> vsnprintf_with dec hex copy nb temp m buf sz s args =
    (if unat sz \<le> length out then Some (m1, - 1)
     else Some ((fst (copy m1 buf temp (of_nat (length out))))(buf + of_nat (length out) := 0), of_nat (length out)))"
proof -
  obtain m1 where m1: "vsprintf_array 1024 dec hex nb m temp s args = Some (m1, of_nat (length out))"
      "emitted nb m temp (out @ [0]) m1"
    using vsprintf_eq [OF r rd] vsprintf_array_eq [OF r rd, of 1024] len by auto
  have sc: "scast (of_nat (length out) :: i32) = (of_nat (length out) :: u64)"
    by (rule scast_of_nat_small) (use len in simp)
  have sg: "\<not> sint (of_nat (length out) :: i32) < 0"
    using len by (simp add: sint_of_nat_small)
  have cmp: "sz \<le> (of_nat (length out) :: u64) \<longleftrightarrow> unat sz \<le> length out"
    using len by (simp add: word_le_nat_alt unat_of_nat_small)
  show ?thesis
    using m1 args by (intro exI [of _ m1]) (simp add: vsnprintf_with_def sc sg cmp Let_def)
qed

text \<open>The array overflows for every longer output, whatever the size the caller gave: the byte behind
  the array is overwritten before the length is looked at.\<close>

lemma vsnprintf_overflow:
  assumes r: "render D H S fs args = Some out" and rd: "ready S nb m temp s fs (length out)"
    and "buf \<noteq> 0" and "s \<noteq> 0" and "sz \<noteq> 0" and "1024 \<le> length out"
  shows "vsnprintf_with dec hex copy nb temp m buf sz s args = None \<and>
    (\<exists>m'. vsprintf_with dec hex nb m temp s args = Some (m', of_nat (length out)) \<and> m' (temp + 1024) = (out @ [0]) ! 1024)"
proof -
  obtain m1 where run: "vsprintf_with dec hex nb m temp s args = Some (m1, of_nat (length out))"
    and e: "emitted nb m temp (out @ [0]) m1"
    using vsprintf_eq [OF r rd] by blast
  have "bytes_at m1 temp (length (out @ [0])) ! 1024 = m1 (temp + of_nat 1024)"
    using assms(6) by (intro nth_bytes_at) simp
  moreover have "bytes_at m1 temp (length (out @ [0])) = out @ [0]" using e unfolding emitted_def by (rule conjunct1)
  ultimately have "m1 (temp + 1024) = (out @ [0]) ! 1024" by (simp only: of_nat_numeral)
  moreover have "vsnprintf_with dec hex copy nb temp m buf sz s args = None"
    using vsprintf_array_eq [OF r rd, of 1024] assms(3-6) by (simp add: vsnprintf_with_def)
  ultimately show ?thesis using run by blast
qed

end

text \<open>With a block copy that meets its contract the bounded routine keeps its promise.\<close>

locale formatter = number_printers dec hex D H + mem_copy copy
  for dec :: printer and hex :: printer and D :: "i64 \<Rightarrow> u8 list" and H :: "i64 \<Rightarrow> u8 list"
    and copy :: "mem \<Rightarrow> u64 \<Rightarrow> u64 \<Rightarrow> u64 \<Rightarrow> mem \<times> u64"
begin

lemma vsnprintf_with_bounded:
  assumes "render D H S fs args = Some out" and "ready S nb m temp s fs (length out)"
    and "buf \<noteq> 0" and "s \<noteq> 0" and "sz \<noteq> 0" and "length out < 1024"
    and "apart buf (unat sz) temp (length out + 1)" and "apart buf (unat sz) nb 32"
  shows "\<exists>m'. vsnprintf_with dec hex copy nb temp m buf sz s args
      = Some (m', if length out < unat sz then of_nat (length out) else - 1) \<and>
    (if length out < unat sz then cstr m' buf out
     else \<forall>a. in_region buf (unat sz) a \<longrightarrow> m' a = m a)"
proof -
  obtain m1 where e: "emitted nb m temp (out @ [0]) m1" and run: "vsnprintf_with dec hex copy nb temp m buf sz s args =
    (if unat sz \<le> length out then Some (m1, - 1)
     else Some ((fst (copy m1 buf temp (of_nat (length out))))(buf + of_nat (length out) := 0), of_nat (length out)))"
    using vsnprintf_eq [OF assms(1-6)] by blast
  show ?thesis
  proof (cases "length out < unat sz")
    case True
    have "cstr m1 temp out" using emitted_string [OF e render_text [OF assms(1,2)]] .
    moreover have "apart buf (length out) temp (length out)"
      by (rule apart_mono [OF assms(7)]) (use True in simp_all)
    ultimately have "cstr ((fst (copy m1 buf temp (of_nat (length out))))(buf + of_nat (length out) := 0)) buf out"
      by (intro copy_string) (use assms(6) in simp_all)
    with run True show ?thesis by simp
  next
    case False
    have "m1 a = m a" if a: "in_region buf (unat sz) a" for a
      using e apartD [OF assms(7) a] apartD [OF assms(8) a] by (simp add: emitted_def)
    with run False show ?thesis by simp
  qed
qed

end

end
