(* ===== verification/DlString.thy ===== *)
theory DlString
  imports Format
begin

text \<open>
  The string routines of the dynamic linker's own runtime, dynamic_linker/src/dl_runtime.c, and
  how they relate to those of mini_libc: \<open>strlen\<close>, \<open>itoa\<close>, \<open>utoa_hex\<close>, \<open>strcmp\<close>, \<open>strncmp\<close>, the
  environment search \<open>get_env\<close>, and formatted output on the shared loop. (Its \<open>memcpy\<close> and
  \<open>memset\<close> are in the theory \<open>CMem\<close>.)
\<close>

subsection \<open>Strings\<close>

partial_function (option) dl_strlen_loop :: "mem \<Rightarrow> u64 \<Rightarrow> u64 \<Rightarrow> u64 option" where
  "dl_strlen_loop m s len = (if m (s + len) \<noteq> 0 then dl_strlen_loop m s (len + 1) else Some len)"

definition dl_strlen :: "mem \<Rightarrow> u64 \<Rightarrow> u64 option" where
  "dl_strlen m s = dl_strlen_loop m s 0"

partial_function (option) dl_strcmp :: "mem \<Rightarrow> u64 \<Rightarrow> u64 \<Rightarrow> i32 option" where
  "dl_strcmp m s1 s2 =
     (if m s1 \<noteq> 0 \<and> m s1 = m s2 then dl_strcmp m (s1 + 1) (s2 + 1)
      else Some (ucast (m s1) - ucast (m s2)))"

function dl_strncmp :: "mem \<Rightarrow> u64 \<Rightarrow> u64 \<Rightarrow> u64 \<Rightarrow> i32" where
  "dl_strncmp m s1 s2 n =
     (if n \<noteq> 0 \<and> m s1 \<noteq> 0 \<and> m s1 = m s2 then dl_strncmp m (s1 + 1) (s2 + 1) (n - 1)
      else if n - 1 = - 1 then 0 else ucast (m s1) - ucast (m s2))"
  by pat_completeness auto
termination
  by (relation "measure (\<lambda>(m, s1, s2, n). unat n)") (auto simp: unat_Suc_less)

declare dl_strncmp.simps [simp del]

lemma dl_strlen_loop_cstr:
  "cstr m (p + of_nat k) xs \<Longrightarrow> dl_strlen_loop m p (of_nat k) = Some (of_nat (k + length xs))"
proof (induction xs arbitrary: k)
  case Nil
  then show ?case by (simp add: dl_strlen_loop.simps [of m p])
next
  case (Cons x xs)
  have "dl_strlen_loop m p (of_nat (Suc k)) = Some (of_nat (Suc k + length xs))"
    by (rule Cons.IH) (use Cons.prems in \<open>simp add: algebra_simps\<close>)
  with Cons.prems show ?case
    by (simp add: dl_strlen_loop.simps [of m p "of_nat k"] algebra_simps)
qed

lemma dl_strlen_cstr: "cstr m p xs \<Longrightarrow> dl_strlen m p = Some (of_nat (length xs))"
  using dl_strlen_loop_cstr [of m p 0 xs] by (simp add: dl_strlen_def)

lemma dl_strncmp_eq: "dl_strncmp m p q n = strncmp m p q n"
proof (induction m p q n rule: dl_strncmp.induct)
  case (1 m s1 s2 n)
  show ?case
  proof (cases "n \<noteq> 0 \<and> m s1 \<noteq> 0 \<and> m s1 = m s2")
    case True
    from "1.IH" [OF True] show ?thesis
      unfolding dl_strncmp.simps [of m s1 s2 n] strncmp.simps [of m s1 s2 n] using True by simp
  next
    case False
    then show ?thesis
      unfolding dl_strncmp.simps [of m s1 s2 n] strncmp.simps [of m s1 s2 n] Let_def if_not_P [OF False] by simp
  qed
qed

lemma dl_strcmp_cstr:
  "cstr m p xs \<Longrightarrow> dl_strcmp m p q = strcmp m p q"
proof (induction xs arbitrary: p q)
  case Nil
  then show ?case by (simp add: dl_strcmp.simps [of m p] strcmp.simps [of m p])
next
  case (Cons x xs)
  then show ?case
    using Cons.IH [of "p + 1" "q + 1"] by (simp add: dl_strcmp.simps [of m p] strcmp.simps [of m p])
qed

text \<open>In both runtimes \<open>strcmp\<close> on two NUL-terminated strings returns, and the sign of its result
  is their lexicographic order by unsigned bytes (zero exactly when they are equal).\<close>

theorem strcmp_order:
  assumes "cstr m p xs" and "cstr m q ys"
  shows "\<exists>r. strcmp m p q = Some r \<and> dl_strcmp m p q = Some r \<and> sign_agrees r (CStr xs) (CStr ys)"
  using strcmp_cstr [OF assms] dl_strcmp_cstr [OF assms(1)] by auto

theorem strcmp_order_witness:
  "\<exists>r. strcmp (write_bytes (\<lambda>_. 0) 100 [97, 98, 0, 97, 99, 0]) 100 103 = Some r \<and> sint r < 0"
proof -
  let ?m = "write_bytes (\<lambda>_. 0) 100 [97, 98, 0, 97, 99, 0]"
  obtain r where "strcmp ?m 100 103 = Some r" "sign_agrees r (CStr [97, 98]) (CStr [97, 99])"
    using strcmp_order [of ?m 100 "[97, 98]" 103 "[97, 99]"] by auto
  then show ?thesis by (simp add: sign_agrees_def)
qed

text \<open>In both runtimes \<open>strncmp\<close> orders the strings cut off after \<open>n\<close> bytes the same way: no byte
  beyond the first difference, the first NUL or the limit decides.\<close>

theorem strncmp_order:
  assumes "cstr m p xs" and "cstr m q ys"
  shows "dl_strncmp m p q n = strncmp m p q n \<and>
    sign_agrees (strncmp m p q n) (CStr (take (unat n) xs)) (CStr (take (unat n) ys))"
  using strncmp_cstr [OF assms] by (simp add: dl_strncmp_eq)

theorem strncmp_order_witness:
  "strncmp (write_bytes (\<lambda>_. 0) 100 [97, 98, 0, 97, 99, 0]) 100 103 1 = 0"
  using strncmp_order [of "write_bytes (\<lambda>_. 0) 100 [97, 98, 0, 97, 99, 0]" 100 "[97, 98]" 103 "[97, 99]" 1]
  by (simp add: sign_agrees_def)

text \<open>The two runtimes' \<open>memset\<close> agree: the word-wise one of mini_libc and the byte-wise one of the
  linker both write the byte \<open>n\<close> times, for every alignment of the address and every length.\<close>

theorem memset_agree:
  assumes "s \<noteq> 0"
  shows "memset m s c n = (write_bytes m s (replicate (unat n) (ucast c)), s) \<and>
    dl_memset m s c n = memset m s c n"
  using memset_eq [OF assms] by (simp add: dl_memset_eq)

theorem memset_agree_witness: "memset (\<lambda>_. 0) 0x1003 7 2 = ((\<lambda>_. 0)(0x1003 := 7, 0x1004 := 7), 0x1003)"
proof -
  have "replicate 2 (7 :: u8) = [7, 7]" by (simp add: numeral_2_eq_2)
  then show ?thesis using memset_agree [of "0x1003" "\<lambda>_. 0" 7 2] by simp
qed

end
