(* ===== verification/Printf.thy ===== *)
theory Printf
  imports Format
begin

text \<open>
  Formatted output of mini_libc: the number printing of \<open>vsprintf\<close>, and \<open>printf\<close>, \<open>sprintf\<close>,
  \<open>vsnprintf\<close> and \<open>snprintf\<close> of src/printf.c on top of the shared loop. \<open>itoa\<close> and \<open>memcpy\<close> of
  mini_libc meet the contract of the locale \<open>formatter\<close>, so what is proved there holds of these
  routines.
\<close>

text \<open>\<open>len = strlen(itoa(value, num_buf, radix, flag)); memcpy(str, num_buf, len); str += len;\<close>\<close>

definition put_number :: "i32 \<Rightarrow> u8 \<Rightarrow> printer" where
  "put_number radix flag m str num_buf value =
     Option.bind (itoa m value num_buf radix flag) (\<lambda>(m1, p).
     Option.bind (strlen m1 p) (\<lambda>len.
       Some (fst (memcpy m1 str num_buf (scast len)), str + scast len)))"

definition vsprintf :: "u64 \<Rightarrow> mem \<Rightarrow> u64 \<Rightarrow> u64 \<Rightarrow> u64 list \<Rightarrow> (mem \<times> i32) option" where
  "vsprintf = vsprintf_with (put_number 10 1) (put_number 16 0)"

definition printf :: "'k kernel \<Rightarrow> u64 \<Rightarrow> u64 \<Rightarrow> u64 \<Rightarrow> u64 list \<Rightarrow> 'k world \<Rightarrow> (i32 \<times> 'k world) option" where
  "printf K num_buf buf format args w =
     Option.bind (vsprintf_array 1024 (put_number 10 1) (put_number 16 0) num_buf (wmem w) buf format args) (\<lambda>(m1, ret).
       let w1 = w\<lparr>wmem := m1\<rparr>
       in Some (ret, if 0 < sint ret then snd (sys_write K 1 buf ret w1) else w1))"

definition sprintf :: "u64 \<Rightarrow> mem \<Rightarrow> u64 \<Rightarrow> u64 \<Rightarrow> u64 list \<Rightarrow> (mem \<times> i32) option" where
  "sprintf num_buf m buf format args = vsprintf num_buf m buf format args"

definition vsnprintf :: "u64 \<Rightarrow> u64 \<Rightarrow> mem \<Rightarrow> u64 \<Rightarrow> u64 \<Rightarrow> u64 \<Rightarrow> u64 list \<Rightarrow> (mem \<times> i32) option" where
  "vsnprintf = vsnprintf_with (put_number 10 1) (put_number 16 0) memcpy"

definition snprintf :: "u64 \<Rightarrow> u64 \<Rightarrow> mem \<Rightarrow> u64 \<Rightarrow> u64 \<Rightarrow> u64 \<Rightarrow> u64 list \<Rightarrow> (mem \<times> i32) option" where
  "snprintf num_buf temp m buf sz format args = vsnprintf num_buf temp m buf sz format args"

subsection \<open>The number printers\<close>

text \<open>Numbers fit in \<open>num_buf\<close>.\<close>

lemma digits_le_length_base:
  "2 \<le> r \<Longrightarrow> n < r ^ k \<Longrightarrow> length (digits_le r n) \<le> k"
proof (induction k arbitrary: n)
  case 0
  then show ?case by (simp add: digits_le.simps)
next
  case (Suc k)
  have "n div r < r ^ k" using Suc.prems by (simp add: less_mult_imp_div_less mult.commute)
  then show ?case
    using Suc.IH [of "n div r"] Suc.prems(1) by (simp add: digits_le.simps [of r n])
qed

lemma itoa_spec_fits:
  assumes "r = 10 \<or> r = 16"
  shows "length (itoa_spec num r f) \<le> 21"
proof -
  have "unat num < r ^ 20" using assms unat_less_2p [of num] by auto
  then have "length (digits_le r (unat num)) \<le> 20"
    using assms by (intro digits_le_length_base) auto
  then show ?thesis by (simp add: itoa_spec_def numeral_str_def)
qed

lemma itoa_spec_no_nul:
  assumes "2 \<le> r" "r \<le> 16"
  shows "0 \<notin> set (itoa_spec num r f)"
proof -
  have "c \<noteq> 0" if "c \<in> set (numeral_str r (unat num))" for c
    using numeral_str_range [OF assms that] by (auto simp: word_le_nat_alt)
  then show ?thesis by (auto simp: itoa_spec_def)
qed

lemma put_number_eq:
  assumes r: "r = 10 \<or> r = 16" and ap: "apart str (length (itoa_spec num r f)) nb 32"
  shows "\<exists>m'. put_number (of_nat r) f m str nb num = Some (m', str + of_nat (length (itoa_spec num r f)))
    \<and> emitted nb m str (itoa_spec num r f) m'"
proof -
  let ?s = "itoa_spec num r f"
  have r2: "2 \<le> r" "r \<le> 16" using r by auto
  have len: "length ?s \<le> 21" by (rule itoa_spec_fits [OF r])
  let ?m = "write_bytes m nb (?s @ [0])"
  have c: "cstr ?m nb ?s" and b: "bytes_at ?m nb (length ?s) = ?s"
    by (rule buffer_string; use len itoa_spec_no_nul [OF r2] in simp)+
  have sl: "scast (of_nat (length ?s) :: i32) = (of_nat (length ?s) :: u64)"
    using len by (intro scast_of_nat_small) simp
  have cp: "fst (memcpy ?m str nb (of_nat (length ?s))) = write_bytes ?m str ?s"
    by (rule libc_copy.copy_bytes) (use len b apart_mono [OF ap] in auto)
  have "put_number (of_nat r) f m str nb num
      = Some (write_bytes ?m str ?s, str + of_nat (length ?s))"
    using itoa_eq [OF r2] strlen_cstr [OF c] by (simp add: put_number_def sl cp)
  moreover have "emitted nb m str ?s (write_bytes ?m str ?s)"
    by (rule emitted_via_buffer [OF _ refl]) (use len in simp)
  ultimately show ?thesis by blast
qed

lemma put_number_prints:
  "r = 10 \<or> r = 16 \<Longrightarrow> prints (put_number (of_nat r) f) (\<lambda>v. itoa_spec v r f)"
  unfolding prints_def using put_number_eq [of r] by blast

interpretation libc_format: formatter "put_number 10 1" "put_number 16 0"
    "\<lambda>v. itoa_spec v 10 1" "\<lambda>v. itoa_spec v 16 0" memcpy
  using put_number_prints [of 10 1] put_number_prints [of 16 0]
    itoa_spec_no_nul [of 10] itoa_spec_no_nul [of 16]
  by unfold_locales simp_all

abbreviation libc_render :: "(u64 \<rightharpoonup> u8 list) \<Rightarrow> u8 list \<Rightarrow> u64 list \<Rightarrow> u8 list option" where
  "libc_render \<equiv> render (\<lambda>v. itoa_spec v 10 1) (\<lambda>v. itoa_spec v 16 0)"

subsection \<open>Properties\<close>

text \<open>C9. \<open>vsprintf\<close> renders: if the format (text with multi-byte characters, %d, %x, %ld, %s and any
  other conversion) renders to \<open>out\<close> and the format, the string arguments, the output and the number
  buffer do not overlap, the call returns the length of \<open>out\<close>, the buffer then holds \<open>out\<close> as a
  NUL-terminated string, and no other memory but the number buffer has changed.\<close>

theorem vsprintf_renders:
  assumes "libc_render S fs args = Some out" and "ready S nb m buf s fs (length out)"
  shows "\<exists>m'. vsprintf nb m buf s args = Some (m', of_nat (length out)) \<and> cstr m' buf out \<and>
    (\<forall>a. \<not> in_region buf (length out + 1) a \<and> \<not> in_region nb 32 a \<longrightarrow> m' a = m a)"
  unfolding vsprintf_def by (rule libc_format.vsprintf_string [OF assms])


text \<open>The bytes of a format, for examples: \<open>n=%d %s\<close>, with the name at 0x300.\<close>

definition demo_mem :: mem where
  "demo_mem = write_bytes (write_bytes (\<lambda>_. 0) 0x200 [110, 61, 37, 100, 32, 37, 115, 0]) 0x300 [97, 98, 0]"

lemma demo_ready: "n < 64 \<Longrightarrow> ready [0x300 \<mapsto> [97, 98]] 0x400 demo_mem 0x100 0x200 [110, 61, 37, 100, 32, 37, 115] n"
  by (auto simp: ready_def untouched_def apart_def demo_mem_def)

lemma demo_render:
  "libc_render [0x300 \<mapsto> [97, 98]] [110, 61, 37, 100, 32, 37, 115] [42, 0x300]
   = Some [110, 61, 52, 50, 32, 97, 98]"
proof -
  have "digits_le 10 42 = [2, 4]" by (simp add: digits_le.simps)
  then have "itoa_spec 42 10 1 = [52, 50]"
    by (simp add: itoa_spec_def numeral_str_def digit_byte_def)
  then show ?thesis by (simp add: render.simps(2) get_utf8_char_length_def)
qed

theorem vsprintf_renders_witness:
  "\<exists>m'. vsprintf 0x400 demo_mem 0x100 0x200 [42, 0x300] = Some (m', 7) \<and> cstr m' 0x100 [110, 61, 52, 50, 32, 97, 98]"
proof -
  have "ready [0x300 \<mapsto> [97, 98]] 0x400 demo_mem 0x100 0x200 [110, 61, 37, 100, 32, 37, 115]
      (length [110 :: u8, 61, 52, 50, 32, 97, 98])"
    by (rule demo_ready) simp
  from vsprintf_renders [OF demo_render this] show ?thesis by auto
qed

text \<open>C10. \<open>vsnprintf\<close>, for outputs of less than 1024 bytes (the size of its temporary array; a
  longer one overflows it, as \<open>vsnprintf_overflows_temp\<close> shows): an output that fits the given size
  with its NUL is put at the destination as a NUL-terminated string and its length is returned; with
  an output that does not fit it returns -1 and leaves the destination alone.\<close>

theorem vsnprintf_bounded:
  assumes "libc_render S fs args = Some out" and "ready S nb m temp s fs (length out)"
    and "buf \<noteq> 0" and "s \<noteq> 0" and "sz \<noteq> 0" and "length out < 1024"
    and "apart buf (unat sz) temp (length out + 1)" and "apart buf (unat sz) nb 32"
  shows "\<exists>m'. vsnprintf nb temp m buf sz s args
      = Some (m', if length out < unat sz then of_nat (length out) else - 1) \<and>
    (if length out < unat sz then cstr m' buf out
     else \<forall>a. in_region buf (unat sz) a \<longrightarrow> m' a = m a)"
  unfolding vsnprintf_def by (rule libc_format.vsnprintf_with_bounded [OF assms])


theorem vsnprintf_bounded_witness:
  "\<exists>m1 m2. vsnprintf 0x400 0x100 demo_mem 0x500 8 0x200 [42, 0x300] = Some (m1, 7) \<and>
    cstr m1 0x500 [110, 61, 52, 50, 32, 97, 98] \<and>
    vsnprintf 0x400 0x100 demo_mem 0x500 7 0x200 [42, 0x300] = Some (m2, - 1)"
proof -
  have rd: "ready [0x300 \<mapsto> [97, 98]] 0x400 demo_mem 0x100 0x200 [110, 61, 37, 100, 32, 37, 115]
      (length [110 :: u8, 61, 52, 50, 32, 97, 98])"
    by (rule demo_ready) simp
  show ?thesis
    using vsnprintf_bounded [OF demo_render rd, of "0x500" 8] vsnprintf_bounded [OF demo_render rd, of "0x500" 7]
    by (auto simp: apart_def)
qed

text \<open>The bound is tested only after the output was written without any bound to the temporary
  array of 1024 bytes: whatever the size given by the caller, an output of 1024 bytes or more is
  undefined, since the formatting it starts with writes the byte behind the array.\<close>

theorem vsnprintf_overflows_temp:
  assumes "libc_render S fs args = Some out" and "ready S nb m temp s fs (length out)"
    and "buf \<noteq> 0" and "s \<noteq> 0" and "sz \<noteq> 0" and "1024 \<le> length out"
  shows "vsnprintf nb temp m buf sz s args = None \<and>
    (\<exists>m'. vsprintf nb m temp s args = Some (m', of_nat (length out)) \<and> m' (temp + 1024) = (out @ [0]) ! 1024)"
  unfolding vsnprintf_def vsprintf_def by (rule libc_format.vsnprintf_overflow [OF assms])

lemma render_replicate: "libc_render S (replicate n 97) args = Some (replicate n 97)"
  by (induction n) (simp_all add: render.simps(2) get_utf8_char_length_def)

theorem vsnprintf_overflows_temp_witness:
  "\<exists>m m'. vsnprintf 0x400 0x1000 m 0x500 2000 0x3000 [] = None \<and>
    vsprintf 0x400 m 0x1000 0x3000 [] = Some (m', 1024) \<and> m 0x1400 = 7 \<and> m' 0x1400 = 0"
proof -
  let ?f = "replicate 1024 97 :: u8 list"
  let ?m = "write_bytes (\<lambda>_. 7) 0x3000 (?f @ [0])"
  have c: "cstr ?m 0x3000 ?f" by (rule cstr_write_same) simp_all
  have rd: "ready Map.empty 0x400 ?m 0x1000 0x3000 ?f (length ?f)"
    using c by (simp add: ready_def untouched_def apart_def)
  obtain m' where "vsnprintf 0x400 0x1000 ?m 0x500 2000 0x3000 [] = None"
      "vsprintf 0x400 ?m 0x1000 0x3000 [] = Some (m', of_nat (length ?f))" "m' (0x1000 + 1024) = (?f @ [0]) ! 1024"
    using vsnprintf_overflows_temp [OF render_replicate [of _ 1024] rd, of "0x500" 2000] by auto
  moreover have "?m 0x1400 = 7" by (simp add: write_bytes_apply)
  ultimately show ?thesis by (intro exI [of _ ?m] exI [of _ m']) (simp add: nth_append)
qed

text \<open>\<open>printf\<close> makes one write of the rendered bytes to descriptor 1 (none when the output is
  empty) and returns their number; its buffer too holds 1024 bytes.\<close>

theorem printf_writes_rendered:
  assumes "libc_render S fs args = Some out" and "ready S nb (wmem w) buf s fs (length out)"
    and "length out < 1024"
  shows "\<exists>w1 w'. printf K nb buf s args w = Some (of_nat (length out), w') \<and> cstr (wmem w1) buf out \<and>
    kst w1 = kst w \<and> w' = (if out = [] then w1 else snd (sys_write K 1 buf (of_nat (length out)) w1))"
proof -
  obtain m1 where m1: "vsprintf_array 1024 (put_number 10 1) (put_number 16 0) nb (wmem w) buf s args
        = Some (m1, of_nat (length out))"
      "emitted nb (wmem w) buf (out @ [0]) m1"
    using libc_format.vsprintf_eq [OF assms(1,2)] libc_format.vsprintf_array_eq [OF assms(1,2), of 1024] assms(3)
    by auto
  have "cstr m1 buf out" using emitted_string [OF m1(2) libc_format.render_text [OF assms(1,2)]] .
  moreover have "0 < sint (of_nat (length out) :: i32) \<longleftrightarrow> out \<noteq> []"
    using assms(3) by (simp add: sint_of_nat_small)
  ultimately show ?thesis
    using m1(1)
    by (intro exI [of _ "w\<lparr>wmem := m1\<rparr>"]
        exI [of _ "if out = [] then w\<lparr>wmem := m1\<rparr>
          else snd (sys_write K 1 buf (of_nat (length out)) (w\<lparr>wmem := m1\<rparr>))"])
      (simp add: printf_def Let_def)
qed

definition demo_console :: "u8 list kernel" where
  "demo_console k m nr args =
     (case args of [RW fd, RX p, RW n] \<Rightarrow> if nr = 64 then (ucast n, m, k @ bytes_at m p (unat n)) else (- 38, m, k)
      | _ \<Rightarrow> (- 38, m, k))"

theorem printf_writes_rendered_witness:
  "\<exists>w'. printf demo_console 0x400 0x100 0x200 [42, 0x300] \<lparr>wmem = demo_mem, kst = []\<rparr> = Some (7, w') \<and>
    kst w' = [110, 61, 52, 50, 32, 97, 98]"
proof -
  let ?o = "[110 :: u8, 61, 52, 50, 32, 97, 98]" and ?w = "\<lparr>wmem = demo_mem, kst = []\<rparr>"
  have rd: "ready [0x300 \<mapsto> [97, 98]] 0x400 (wmem ?w) 0x100 0x200 [110, 61, 37, 100, 32, 37, 115] (length ?o)"
    by (simp only: world.simps) (rule demo_ready, simp)
  obtain w1 w' where r: "printf demo_console 0x400 0x100 0x200 [42, 0x300] ?w = Some (of_nat (length ?o), w')"
      "cstr (wmem w1) 0x100 ?o" "kst w1 = []" "w' = snd (sys_write demo_console 1 0x100 (of_nat (length ?o)) w1)"
    using printf_writes_rendered [OF demo_render rd, of demo_console] by auto
  then have "kst w' = bytes_at (wmem w1) 0x100 7"
    by (simp add: sys_write_def svc_def demo_console_def)
  then show ?thesis using r by (simp add: bytes_at_numeral)
qed

end
