(* ===== verification/DlPrint.thy ===== *)
theory DlPrint
  imports DlString Printf
begin

text \<open>
  Numbers and formatted output in the dynamic linker's runtime (dynamic_linker/src/dl_runtime.c):
  \<open>itoa\<close>, \<open>utoa_hex\<close>, \<open>vsprintf\<close>, \<open>vsnprintf\<close> and \<open>snprintf\<close>. The number printers meet the
  contract of the locale \<open>formatter\<close>, so what it shows of mini_libc's routines holds of these.
  The digits are collected in the array \<open>temp[32]\<close>, here a list; a thirty-third digit would be
  written beyond it and is \<open>None\<close>.
\<close>

definition dl_digit_char :: "int \<Rightarrow> u8" where
  "dl_digit_char d = (if d < 10 then of_int (48 + d) else of_int (97 + d - 10))"

function dl_itoa_digits :: "int \<Rightarrow> int \<Rightarrow> u8 list \<Rightarrow> u8 list option" where
  "dl_itoa_digits v base temp =
     (if 0 < v then
        if 32 \<le> length temp then None
        else dl_itoa_digits (v sdiv base) base (temp @ [dl_digit_char (v smod base)])
      else Some temp)"
  by pat_completeness auto
termination
  by (relation "measure (\<lambda>(v, base, temp). 32 - length temp)") auto

declare dl_itoa_digits.simps [simp del]

definition dl_itoa :: "mem \<Rightarrow> i64 \<Rightarrow> u64 \<Rightarrow> i32 \<Rightarrow> mem option" where
  "dl_itoa m value buf base =
     (let negative = sint value < 0 \<and> sint base = 10;
          v = (if negative then - value else value)
      in if v = 0 then Some (m(buf := 48, buf + 1 := 0))
         else map_option (\<lambda>temp. write_bytes m buf ((if negative then [45] else []) @ rev temp @ [0]))
                (dl_itoa_digits (sint v) (sint base) []))"

function utoa_hex_digits :: "u64 \<Rightarrow> u8 list \<Rightarrow> u8 list" where
  "utoa_hex_digits v temp =
     (if 0 < v then utoa_hex_digits (v div 16) (temp @ [dl_digit_char (uint (v mod 16))]) else temp)"
  by pat_completeness auto
termination
  by (relation "measure (\<lambda>(v, temp). unat v)") (auto simp: unat_div word_less_nat_alt)

declare utoa_hex_digits.simps [simp del]

definition utoa_hex :: "mem \<Rightarrow> u64 \<Rightarrow> u64 \<Rightarrow> mem" where
  "utoa_hex m v buf =
     (if v = 0 then m(buf := 48, buf + 1 := 0) else write_bytes m buf (rev (utoa_hex_digits v []) @ [0]))"

text \<open>\<open>len = strlen(num_buf); memcpy(str, num_buf, len); str += len;\<close> after printing the number.\<close>

definition dl_put_buffer :: "mem \<Rightarrow> u64 \<Rightarrow> u64 \<Rightarrow> (mem \<times> u64) option" where
  "dl_put_buffer m str num_buf =
     map_option (\<lambda>len. (fst (dl_memcpy m str num_buf len), str + len)) (dl_strlen m num_buf)"

definition dl_put_dec :: printer where
  "dl_put_dec m str num_buf v = Option.bind (dl_itoa m v num_buf 10) (\<lambda>m1. dl_put_buffer m1 str num_buf)"

definition dl_put_hex :: printer where
  "dl_put_hex m str num_buf v = dl_put_buffer (utoa_hex m v num_buf) str num_buf"

definition dl_vsprintf :: "u64 \<Rightarrow> mem \<Rightarrow> u64 \<Rightarrow> u64 \<Rightarrow> u64 list \<Rightarrow> (mem \<times> i32) option" where
  "dl_vsprintf = vsprintf_with dl_put_dec dl_put_hex"

definition dl_vsnprintf :: "u64 \<Rightarrow> u64 \<Rightarrow> mem \<Rightarrow> u64 \<Rightarrow> u64 \<Rightarrow> u64 \<Rightarrow> u64 list \<Rightarrow> (mem \<times> i32) option" where
  "dl_vsnprintf = vsnprintf_with dl_put_dec dl_put_hex dl_memcpy"

definition dl_snprintf :: "u64 \<Rightarrow> u64 \<Rightarrow> mem \<Rightarrow> u64 \<Rightarrow> u64 \<Rightarrow> u64 \<Rightarrow> u64 list \<Rightarrow> (mem \<times> i32) option" where
  "dl_snprintf num_buf temp m buf sz format args = dl_vsnprintf num_buf temp m buf sz format args"

subsection \<open>What the number routines print\<close>

text \<open>\<open>itoa\<close> in base 10 spells every value but the least one, whose negation overflows.\<close>

definition dl_dec :: "i64 \<Rightarrow> u8 list" where
  "dl_dec v = (if sint v < 0 then [45] else []) @
     (if sint v = - (2 ^ 63) then [] else numeral_str 10 (nat \<bar>sint v\<bar>))"

definition dl_hex :: "u64 \<Rightarrow> u8 list" where
  "dl_hex v = numeral_str 16 (unat v)"

lemma dl_digit_char_eq: "0 \<le> d \<Longrightarrow> dl_digit_char d = digit_byte (nat d)"
  by (cases d rule: int_cases) (auto simp: dl_digit_char_def digit_byte_def)

lemma itoa_digits_le:
  "2 \<le> base \<Longrightarrow> n < base ^ k \<Longrightarrow> k + length temp \<le> 32 \<Longrightarrow>
   dl_itoa_digits (int n) (int base) temp = Some (temp @ map digit_byte (digits_le base n))"
proof (induction k arbitrary: n temp)
  case 0
  then show ?case by (simp add: dl_itoa_digits.simps digits_le.simps)
next
  case (Suc k)
  show ?case
  proof (cases "n = 0")
    case True
    then show ?thesis by (simp add: dl_itoa_digits.simps digits_le.simps)
  next
    case False
    have q: "int n sdiv int base = int (n div base)" "int n smod int base = int (n mod base)"
      using False Suc.prems(1) by (simp_all add: signed_divide_int_def signed_modulo_int_def sgn_if zdiv_int zmod_int)
    have "dl_itoa_digits (int (n div base)) (int base) (temp @ [digit_byte (n mod base)])
        = Some ((temp @ [digit_byte (n mod base)]) @ map digit_byte (digits_le base (n div base)))"
      by (rule Suc.IH) (use Suc.prems in \<open>simp_all add: less_mult_imp_div_less mult.commute\<close>)
    with False Suc.prems show ?thesis
      by (simp add: dl_itoa_digits.simps [of "int n"] digits_le.simps [of base n] q dl_digit_char_eq)
  qed
qed

lemma utoa_hex_digits_eq: "utoa_hex_digits v temp = temp @ map digit_byte (digits_le 16 (unat v))"
proof (induction v temp rule: utoa_hex_digits.induct)
  case (1 v temp)
  show ?case
  proof (cases "v = 0")
    case True
    then show ?thesis by (simp add: utoa_hex_digits.simps digits_le.simps)
  next
    case False
    have "dl_digit_char (uint (v mod 16)) = digit_byte (unat v mod 16)"
      by (simp add: dl_digit_char_eq uint_mod unat_eq_nat_uint [symmetric] nat_mod_distrib)
    with False 1 show ?thesis
      by (simp add: utoa_hex_digits.simps [of v] digits_le.simps [of 16 "unat v"] unat_div word_neq_0_conv unat_eq_0)
  qed
qed

lemma zero_buffer: "m(buf := 48, buf + 1 := 0) = write_bytes m buf [48, 0 :: u8]"
  by simp

lemma utoa_hex_eq: "utoa_hex m v buf = write_bytes m buf (dl_hex v @ [0])"
  by (simp add: utoa_hex_def dl_hex_def numeral_str_def utoa_hex_digits_eq rev_map unat_eq_0)

lemma dl_itoa_eq: "dl_itoa m v buf 10 = Some (write_bytes m buf (dl_dec v @ [0]))"
proof -
  let ?v = "if sint v < 0 then - v else v"
  have rng: "- (2 ^ 63) \<le> sint v" "sint v < 2 ^ 63"
    using sint_ge [of v] sint_lt [of v] by simp_all
  show ?thesis
  proof (cases "sint v = - (2 ^ 63)")
    case True
    then have "word_of_int (sint v) = (word_of_int (- (2 ^ 63)) :: u64)" by (rule arg_cong)
    then have v: "v = 0x8000000000000000" by simp
    show ?thesis by (simp add: v dl_itoa_def dl_itoa_digits.simps dl_dec_def)
  next
    case False
    then have s: "sint ?v = \<bar>sint v\<bar>"
      using rng sint_of_int_small [where 'a = 64, of "- sint v"] by (auto simp: of_int_minus)
    have "nat \<bar>sint v\<bar> < 10 ^ 20" using rng by auto
    then have d: "dl_itoa_digits (sint ?v) (sint (10 :: i32)) [] = Some (map digit_byte (digits_le 10 (nat \<bar>sint v\<bar>)))"
      using itoa_digits_le [of 10 "nat \<bar>sint v\<bar>" 20 "[]"] by (simp add: s)
    show ?thesis
    proof (cases "sint v = 0")
      case True
      then have "word_of_int (sint v) = (word_of_int 0 :: u64)" by (rule arg_cong)
      then have "v = 0" by simp
      then show ?thesis by (simp add: dl_itoa_def dl_dec_def numeral_str_def)
    next
      case nz: False
      then show ?thesis using d False
        by (auto simp: dl_itoa_def dl_dec_def numeral_str_def Let_def rev_map)
    qed
  qed
qed

lemma numeral_str_fits: "r = 10 \<or> r = 16 \<Longrightarrow> n < 2 ^ 64 \<Longrightarrow> length (numeral_str r n) \<le> 20"
proof -
  assume "r = 10 \<or> r = 16" "n < 2 ^ 64"
  then have "n < r ^ 20" "2 \<le> r" by auto
  then show ?thesis using digits_le_length_base [of r n 20] by (simp add: numeral_str_def)
qed

lemma numeral_str_no_nul: "2 \<le> r \<Longrightarrow> r \<le> 16 \<Longrightarrow> 0 \<notin> set (numeral_str r n)"
  using numeral_str_range [of r 0 n] by (auto simp: word_le_nat_alt)

lemma dl_dec_range: "length (dl_dec v) < 32" "0 \<notin> set (dl_dec v)"
proof -
  have "nat \<bar>sint v\<bar> < 2 ^ 64" using sint_ge [of v] sint_lt [of v] by auto
  then show "length (dl_dec v) < 32" using numeral_str_fits [of 10 "nat \<bar>sint v\<bar>"] by (auto simp: dl_dec_def)
  show "0 \<notin> set (dl_dec v)" by (simp add: dl_dec_def numeral_str_no_nul)
qed

lemma dl_hex_range: "length (dl_hex v) < 32" "0 \<notin> set (dl_hex v)"
  using numeral_str_fits [of 16 "unat v"] unat_less_2p [of v] by (simp_all add: dl_hex_def numeral_str_no_nul)

lemma dl_put_buffer_eq:
  assumes "length xs < 32" and "0 \<notin> set xs" and "apart str (length xs) nb 32"
  shows "\<exists>m'. dl_put_buffer (write_bytes m nb (xs @ [0])) str nb = Some (m', str + of_nat (length xs))
    \<and> emitted nb m str xs m'"
proof -
  let ?m = "write_bytes m nb (xs @ [0])"
  have c: "cstr ?m nb xs" and b: "bytes_at ?m nb (length xs) = xs"
    using buffer_string [OF assms(1,2)] by blast+
  have l: "unat (of_nat (length xs) :: u64) = length xs" using assms(1) by (intro unat_of_nat_small) simp
  have "fst (dl_memcpy ?m str nb (of_nat (length xs))) = write_bytes ?m str xs"
    using dl_memcpy_apart [of str "of_nat (length xs)" nb ?m] apart_mono [OF assms(3), of "length xs" "length xs"]
      assms(1) by (simp add: l b)
  then show ?thesis
    using dl_strlen_cstr [OF c] emitted_via_buffer [OF assms(1) refl, of nb m str] by (simp add: dl_put_buffer_def)
qed

interpretation dl_format: formatter dl_put_dec dl_put_hex dl_dec dl_hex dl_memcpy
proof unfold_locales
  show "prints dl_put_dec dl_dec"
    using dl_put_buffer_eq [OF dl_dec_range] by (auto simp: prints_def dl_put_dec_def dl_itoa_eq)
  show "prints dl_put_hex dl_hex"
    using dl_put_buffer_eq [OF dl_hex_range] by (auto simp: prints_def dl_put_hex_def utoa_hex_eq)
qed (simp_all add: dl_dec_range dl_hex_range dl_memcpy_apart)

subsection \<open>Properties\<close>

text \<open>C25. The linker's \<open>itoa\<close> in base 10, the only base its callers use, writes the decimal numeral of
  its argument, sign included, as a NUL-terminated string; the one exception is the least 64-bit value,
  for which it writes a lone minus sign. \<open>utoa_hex\<close> writes the hexadecimal numeral of its argument. (Nothing
  is said of \<open>itoa\<close> in other bases.)\<close>

theorem dl_numbers_roundtrip:
  "\<exists>m'. dl_itoa m v buf 10 = Some m' \<and> cstr m' buf (dl_dec v) \<and>
    (if sint v = - (2 ^ 63) then dl_dec v = [45]
     else if sint v < 0 then parse_nat 10 (tl (dl_dec v)) = nat (- sint v) \<and> hd (dl_dec v) = 45
     else parse_nat 10 (dl_dec v) = nat (sint v)) \<and>
    cstr (utoa_hex m v buf) buf (dl_hex v) \<and> parse_nat 16 (dl_hex v) = unat v"
proof -
  have "cstr (write_bytes m buf (xs @ [0])) buf xs" if "length xs < 32" "0 \<notin> set xs" for xs
    using buffer_string(1) [OF that] .
  then have "cstr (write_bytes m buf (dl_dec v @ [0])) buf (dl_dec v)"
      "cstr (write_bytes m buf (dl_hex v @ [0])) buf (dl_hex v)"
    using dl_dec_range [of v] dl_hex_range [of v] by blast+
  then show ?thesis
    by (simp add: dl_itoa_eq utoa_hex_eq dl_dec_def dl_hex_def parse_numeral_str)
qed

text \<open>C24. The linker's \<open>snprintf\<close>, for renderings of less than 1024 bytes (the size of its temporary
  array; a longer one overflows it, as \<open>dl_snprintf_overflows_temp\<close> shows), writes the rendering of its
  format (the same as mini_libc's, but for negative numbers) when it fits the size with its NUL, and
  otherwise returns -1 without touching the destination.\<close>

theorem dl_snprintf_bounded:
  assumes "render dl_dec dl_hex S fs args = Some out" and "ready S nb m temp s fs (length out)"
    and "buf \<noteq> 0" and "s \<noteq> 0" and "sz \<noteq> 0" and "length out < 1024"
    and "apart buf (unat sz) temp (length out + 1)" and "apart buf (unat sz) nb 32"
  shows "\<exists>m'. dl_snprintf nb temp m buf sz s args
      = Some (m', if length out < unat sz then of_nat (length out) else - 1) \<and>
    (if length out < unat sz then cstr m' buf out
     else \<forall>a. in_region buf (unat sz) a \<longrightarrow> m' a = m a)"
  unfolding dl_snprintf_def dl_vsnprintf_def by (rule dl_format.vsnprintf_with_bounded [OF assms])

text \<open>A rendering of 1024 bytes or more is undefined: it overflows the temporary array.\<close>

theorem dl_snprintf_overflows_temp:
  assumes "render dl_dec dl_hex S fs args = Some out" and "ready S nb m temp s fs (length out)"
    and "buf \<noteq> 0" and "s \<noteq> 0" and "sz \<noteq> 0" and "1024 \<le> length out"
  shows "dl_snprintf nb temp m buf sz s args = None \<and>
    (\<exists>m'. dl_vsprintf nb m temp s args = Some (m', of_nat (length out)) \<and> m' (temp + 1024) = (out @ [0]) ! 1024)"
  unfolding dl_snprintf_def dl_vsnprintf_def dl_vsprintf_def by (rule dl_format.vsnprintf_overflow [OF assms])

lemma dl_render_replicate: "render dl_dec dl_hex S (replicate n 97) args = Some (replicate n 97)"
  by (induction n) (simp_all add: render.simps(2) get_utf8_char_length_def)

theorem dl_snprintf_overflows_temp_witness:
  "\<exists>m. dl_snprintf 0x400 0x1000 m 0x500 2000 0x3000 [] = None"
proof -
  let ?f = "replicate 1024 97 :: u8 list"
  let ?m = "write_bytes (\<lambda>_. 7) 0x3000 (?f @ [0])"
  have "cstr ?m 0x3000 ?f" by (rule cstr_write_same) simp_all
  then have rd: "ready Map.empty 0x400 ?m 0x1000 0x3000 ?f (length ?f)"
    by (simp add: ready_def untouched_def apart_def)
  show ?thesis
    using dl_snprintf_overflows_temp [OF dl_render_replicate [of _ 1024] rd, of "0x500" 2000] by auto
qed

lemma dl_demo_render:
  "render dl_dec dl_hex [0x300 \<mapsto> [97, 98]] [110, 61, 37, 100, 32, 37, 115] [- 42, 0x300]
   = Some [110, 61, 45, 52, 50, 32, 97, 98]"
proof -
  have "digits_le 10 42 = [2, 4]" by (simp add: digits_le.simps)
  then have "dl_dec (- 42) = [45, 52, 50]"
    by (simp add: dl_dec_def numeral_str_def digit_byte_def)
  then show ?thesis by (simp add: render.simps(2) get_utf8_char_length_def)
qed

theorem dl_snprintf_bounded_witness:
  "\<exists>m'. dl_snprintf 0x400 0x100 demo_mem 0x500 16 0x200 [- 42, 0x300] = Some (m', 8) \<and>
    cstr m' 0x500 [110, 61, 45, 52, 50, 32, 97, 98]"
proof -
  have rd: "ready [0x300 \<mapsto> [97, 98]] 0x400 demo_mem 0x100 0x200 [110, 61, 37, 100, 32, 37, 115]
      (length [110 :: u8, 61, 45, 52, 50, 32, 97, 98])"
    by (rule demo_ready) simp
  show ?thesis using dl_snprintf_bounded [OF dl_demo_render rd, of "0x500" 16] by (auto simp: apart_def)
qed

end
