(* ===== verification/DlSys.thy ===== *)
theory DlSys
  imports DlPrint
begin

text \<open>
  The remaining routines of dynamic_linker/src/dl_runtime.c: the system-call wrappers, \<open>printf\<close>
  with its buffer of 1024 bytes, the search of the environment and its printing. Arrays on the
  stack and string literals are given by their addresses.
\<close>

subsection \<open>System calls\<close>

definition dl_write :: "'k kernel \<Rightarrow> i32 \<Rightarrow> u64 \<Rightarrow> u64 \<Rightarrow> 'k world \<Rightarrow> i32 \<times> 'k world" where
  "dl_write K fd buf count w = (case svc K 64 [RW fd, RX buf, RX count] w of (r, w') \<Rightarrow> (ucast r, w'))"

definition dl_open :: "'k kernel \<Rightarrow> u64 \<Rightarrow> i32 \<Rightarrow> i32 \<Rightarrow> 'k world \<Rightarrow> i32 \<times> 'k world" where
  "dl_open K pathname flags mode w =
     (case svc K 56 [RW (- 100), RX pathname, RW flags, RW mode] w of (r, w') \<Rightarrow> (ucast r, w'))"

definition dl_close :: "'k kernel \<Rightarrow> i32 \<Rightarrow> 'k world \<Rightarrow> i32 \<times> 'k world" where
  "dl_close K fd w = (case svc K 57 [RW fd] w of (r, w') \<Rightarrow> (ucast r, w'))"

definition dl_read :: "'k kernel \<Rightarrow> i32 \<Rightarrow> u64 \<Rightarrow> u64 \<Rightarrow> 'k world \<Rightarrow> i64 \<times> 'k world" where
  "dl_read K fd buf count w =
     (case svc K 63 [RX (scast fd), RX buf, RX count] w of
        (x0, w') \<Rightarrow> if sint x0 < 0 then (- 1, w') else (x0, w'))"

definition dl_lseek :: "'k kernel \<Rightarrow> i32 \<Rightarrow> i32 \<Rightarrow> i32 \<Rightarrow> 'k world \<Rightarrow> i32 \<times> 'k world" where
  "dl_lseek K fd offset whence w =
     (case svc K 62 [RW fd, RW offset, RW whence] w of (r, w') \<Rightarrow> (ucast r, w'))"

subsection \<open>printf\<close>

text \<open>\<open>buffer[buf_pos++] = c;\<close>\<close>

definition put_char :: "mem \<Rightarrow> u64 \<Rightarrow> i32 \<Rightarrow> u8 \<Rightarrow> mem \<times> i32" where
  "put_char m buffer buf_pos c = (m(buffer + scast buf_pos := c), buf_pos + 1)"

function put_bytes :: "mem \<Rightarrow> u64 \<Rightarrow> i32 \<Rightarrow> u64 \<Rightarrow> u64 \<Rightarrow> u64 \<Rightarrow> mem \<times> i32" where
  "put_bytes m buffer buf_pos str len i =
     (if i < len then case put_char m buffer buf_pos (m (str + i)) of
        (m1, pos1) \<Rightarrow> put_bytes m1 buffer pos1 str len (i + 1)
      else (m, buf_pos))"
  by pat_completeness auto
termination
  by (relation "measure (\<lambda>(m, b, pos, str, len, i). unat len - unat i)") (simp_all add: unat_inc_less)

declare put_bytes.simps [simp del]

text \<open>\<open>len = strlen(str); if (buf_pos + (int)len < 1023) for (...) ...\<close>\<close>

definition put_if_room :: "mem \<Rightarrow> u64 \<Rightarrow> i32 \<Rightarrow> u64 \<Rightarrow> (mem \<times> i32) option" where
  "put_if_room m buffer buf_pos str =
     map_option (\<lambda>len. if sint (buf_pos + ucast len) < 1023 then put_bytes m buffer buf_pos str len 0
                       else (m, buf_pos))
       (dl_strlen m str)"

definition char_if_room :: "mem \<Rightarrow> u64 \<Rightarrow> i32 \<Rightarrow> u8 \<Rightarrow> mem \<times> i32" where
  "char_if_room m buffer buf_pos c = (if sint buf_pos < 1023 then put_char m buffer buf_pos c else (m, buf_pos))"

text \<open>The conversions with an argument, and those without; \<open>p\<close> is the address after the percent sign.\<close>

definition printf_arg :: "mem \<Rightarrow> u64 \<Rightarrow> u64 \<Rightarrow> i32 \<Rightarrow> u8 \<Rightarrow> u64 \<Rightarrow> (mem \<times> i32) option" where
  "printf_arg m buffer num_buf pos c a =
     (if c = 115 then (if a \<noteq> 0 then put_if_room m buffer pos a else Some (m, pos))
      else if c = 100 then Option.bind (dl_itoa m (scast (ucast a :: i32)) num_buf 10) (\<lambda>m1.
        put_if_room m1 buffer pos num_buf)
      else if c = 120 then put_if_room (utoa_hex m (ucast (ucast a :: u32)) num_buf) buffer pos num_buf
      else if c = 112 then
        (case put_char m buffer pos 48 of (m1, pos1) \<Rightarrow> case put_char m1 buffer pos1 120 of (m2, pos2) \<Rightarrow>
           put_if_room (utoa_hex m2 a num_buf) buffer pos2 num_buf)
      else Some (char_if_room m buffer pos (ucast a)))"

definition printf_plain :: "mem \<Rightarrow> u64 \<Rightarrow> i32 \<Rightarrow> u64 \<Rightarrow> mem \<times> i32" where
  "printf_plain m buffer pos p =
     (if m p = 37 then char_if_room m buffer pos 37
      else if m p = 10 then char_if_room m buffer pos 10
      else if sint pos < 1023 then
        (case put_char m buffer pos 37 of (m1, pos1) \<Rightarrow>
           if m1 p \<noteq> 0 then put_char m1 buffer pos1 (m1 p) else (m1, pos1))
      else (m, pos))"

definition printf_conv :: "mem \<Rightarrow> u64 \<Rightarrow> u64 \<Rightarrow> i32 \<Rightarrow> u64 \<Rightarrow> u64 list \<Rightarrow> (mem \<times> i32 \<times> u64 list) option" where
  "printf_conv m buffer num_buf pos p args =
     (if m p \<in> {115, 100, 120, 112, 99} then
        (case args of [] \<Rightarrow> None
         | a # as \<Rightarrow> map_option (\<lambda>(m1, pos1). (m1, pos1, as)) (printf_arg m buffer num_buf pos (m p) a))
      else case printf_plain m buffer pos p of (m1, pos1) \<Rightarrow> Some (m1, pos1, args))"

partial_function (option) printf_loop :: "u64 \<Rightarrow> u64 \<Rightarrow> mem \<Rightarrow> i32 \<Rightarrow> u64 \<Rightarrow> u64 list \<Rightarrow> (mem \<times> i32) option" where
  "printf_loop buffer num_buf m pos p args =
     (if m p \<noteq> 0 \<and> sint pos < 1023 then
        if m p = 37 then
          Option.bind (printf_conv m buffer num_buf pos (p + 1) args) (\<lambda>(m1, pos1, args1).
            printf_loop buffer num_buf m1 pos1 (if m1 (p + 1) \<noteq> 0 then p + 1 + 1 else p + 1) args1)
        else case put_char m buffer pos (m p) of
               (m1, pos1) \<Rightarrow> printf_loop buffer num_buf m1 pos1 (p + 1) args
      else Some (m, pos))"

definition dl_printf :: "'k kernel \<Rightarrow> u64 \<Rightarrow> u64 \<Rightarrow> u64 \<Rightarrow> u64 list \<Rightarrow> 'k world \<Rightarrow> (i32 \<times> 'k world) option" where
  "dl_printf K buffer num_buf format args w =
     map_option (\<lambda>(m1, pos).
         let w1 = w\<lparr>wmem := m1(buffer + scast pos := 0)\<rparr>
         in if 0 < sint pos then dl_write K 1 buffer (scast pos) w1 else (0, w1))
       (printf_loop buffer num_buf (wmem w) 0 format args)"

subsection \<open>The environment\<close>

partial_function (option) get_env_loop :: "mem \<Rightarrow> u64 \<Rightarrow> u64 \<Rightarrow> u64 \<Rightarrow> u64 option" where
  "get_env_loop m env name name_len =
     (if ld64 m env \<noteq> 0 then
        if dl_strncmp m (ld64 m env) name name_len = 0 \<and> m (ld64 m env + name_len) = 61
        then Some (ld64 m env + name_len + 1)
        else get_env_loop m (env + 8) name name_len
      else Some 0)"

definition get_env :: "mem \<Rightarrow> u64 \<Rightarrow> u64 \<Rightarrow> u64 option" where
  "get_env m environ name =
     (if environ = 0 \<or> name = 0 then Some 0
      else Option.bind (dl_strlen m name) (get_env_loop m environ name))"

text \<open>\<open>env_fmt\<close>, \<open>env_head\<close> and \<open>env_tail\<close> are the three format strings.\<close>

partial_function (option) print_env_loop :: "'k kernel \<Rightarrow> u64 \<Rightarrow> u64 \<Rightarrow> u64 \<Rightarrow> u64 \<Rightarrow> 'k world \<Rightarrow> 'k world option" where
  "print_env_loop K buffer num_buf env_fmt env w =
     (if ld64 (wmem w) env \<noteq> 0 then
        Option.bind (dl_printf K buffer num_buf env_fmt [ld64 (wmem w) env] w) (\<lambda>(_, w1).
          print_env_loop K buffer num_buf env_fmt (env + 8) w1)
      else Some w)"

definition print_all_env :: "'k kernel \<Rightarrow> u64 \<Rightarrow> u64 \<Rightarrow> u64 \<Rightarrow> u64 \<Rightarrow> u64 \<Rightarrow> u64 \<Rightarrow> 'k world \<Rightarrow> 'k world option" where
  "print_all_env K buffer num_buf env_head env_fmt env_tail environ w =
     (if environ = 0 then Some w
      else Option.bind (dl_printf K buffer num_buf env_head [] w) (\<lambda>(_, w1).
           Option.bind (print_env_loop K buffer num_buf env_fmt environ w1) (\<lambda>w2.
           map_option snd (dl_printf K buffer num_buf env_tail [] w2))))"

subsection \<open>The search of the environment\<close>

text \<open>The environment: an array of string pointers ended by a null pointer.\<close>

primrec env_block :: "mem \<Rightarrow> u64 \<Rightarrow> (u64 \<times> u8 list) list \<Rightarrow> bool" where
  "env_block m p [] \<longleftrightarrow> ld64 m p = 0"
| "env_block m p (e # es) \<longleftrightarrow> ld64 m p = fst e \<and> fst e \<noteq> 0 \<and> cstr m (fst e) (snd e) \<and> env_block m (p + 8) es"

text \<open>The value of the first entry \<open>name=value\<close>, as the address behind the equals sign.\<close>

definition env_lookup :: "u8 list \<Rightarrow> (u64 \<times> u8 list) list \<Rightarrow> u64" where
  "env_lookup name es =
     (case find (\<lambda>(p, e). take (length name) e = name \<and> length name < length e \<and> e ! length name = 61) es of
        None \<Rightarrow> 0 | Some (p, e) \<Rightarrow> p + of_nat (length name) + 1)"

lemma cstr_nth: "cstr m p xs \<Longrightarrow> i < length xs \<Longrightarrow> m (p + of_nat i) = xs ! i"
proof (induction xs arbitrary: p i)
  case (Cons x xs)
  then show ?case
    using Cons.IH [of "p + 1" "i - 1"] by (cases i) (simp_all add: algebra_simps)
qed simp

lemma strncmp_prefix:
  assumes "cstr m p e" and "cstr m q name" and "length name < 2 ^ 64"
  shows "dl_strncmp m p q (of_nat (length name)) = 0 \<longleftrightarrow> take (length name) e = name"
proof -
  have "sign_agrees (strncmp m p q (of_nat (length name))) (CStr (take (length name) e)) (CStr name)"
    using strncmp_cstr [OF assms(1,2), of "of_nat (length name)"] assms(3) by (simp add: unat_of_nat_small)
  then show ?thesis by (auto simp: dl_strncmp_eq sign_agrees_def)
qed

lemma env_entry:
  assumes c: "cstr m p e" and n: "cstr m q name" and l: "length name < 2 ^ 64"
  shows "(dl_strncmp m p q (of_nat (length name)) = 0 \<and> m (p + of_nat (length name)) = 61) \<longleftrightarrow>
    (take (length name) e = name \<and> length name < length e \<and> e ! length name = 61)"
proof (cases "take (length name) e = name")
  case True
  have s: "dl_strncmp m p q (of_nat (length name)) = 0" using True strncmp_prefix [OF assms] by blast
  have le: "length name \<le> length e" using arg_cong [OF True, of length] by simp
  show ?thesis
  proof (cases "length name < length e")
    case lt: True
    show ?thesis by (simp only: s True lt cstr_nth [OF c lt] refl simp_thms)
  next
    case False
    with le have "m (p + of_nat (length name)) = 0" using cstr_append [of m p e "[]"] c by simp
    then show ?thesis using False by simp
  qed
qed (simp add: strncmp_prefix [OF assms])

lemma get_env_loop_eq:
  "env_block m p es \<Longrightarrow> cstr m q name \<Longrightarrow> length name < 2 ^ 64 \<Longrightarrow>
   get_env_loop m p q (of_nat (length name)) = Some (env_lookup name es)"
proof (induction es arbitrary: p)
  case Nil
  then show ?case by (simp add: get_env_loop.simps [of m p] env_lookup_def)
next
  case (Cons a es)
  have "get_env_loop m (p + 8) q (of_nat (length name)) = Some (env_lookup name es)"
    by (rule Cons.IH) (use Cons.prems in simp_all)
  with Cons.prems show ?case
    using env_entry [of m "fst a" "snd a" q name]
    by (cases a) (simp add: get_env_loop.simps [of m p] env_lookup_def)
qed

text \<open>C26. \<open>get_env\<close> finds the variable: on an environment block of NUL-terminated strings it always
  returns, with the address behind the equals sign of the first entry \<open>name=...\<close>, or NULL when there
  is none (an entry that merely starts with the name does not count).\<close>

theorem get_env_finds:
  assumes "env_block m environ es" and "cstr m name xs" and "length xs < 2 ^ 64"
    and "environ \<noteq> 0" and "name \<noteq> 0"
  shows "get_env m environ name = Some (env_lookup xs es)"
  using assms dl_strlen_cstr [OF assms(2)] get_env_loop_eq [OF assms(1-3)] by (simp add: get_env_def)

theorem get_env_finds_witness:
  "\<exists>m. get_env m 0x100 0x200 = Some 0x30A"
proof -
  let ?e = "[65 :: u8, 66, 67, 61, 49]" and ?f = "[65 :: u8, 66, 61, 50]"
  let ?m = "st64 (st64 (st64 (write_bytes (write_bytes (write_bytes (\<lambda>_. 0) 0x200 [65, 66, 0]) 0x300 (?e @ [0]))
      0x307 (?f @ [0])) 0x100 0x300) 0x108 0x307) 0x110 0"
  have "env_block ?m 0x100 [(0x300, ?e), (0x307, ?f)]" "cstr ?m 0x200 [65, 66]"
    by (simp_all add: ld_st_apart apart_def st64_other in_region_def write_bytes_apply)
  moreover have "env_lookup [65, 66] [(0x300, ?e), (0x307, ?f)] = 0x30A" by (simp add: env_lookup_def)
  ultimately show ?thesis
    using get_env_finds [of ?m "0x100" "[(0x300, ?e), (0x307, ?f)]" "0x200" "[65, 66]"] by auto
qed

end
