(* ===== verification/ElfTypes.thy ===== *)
theory ElfTypes
  imports Prelude
begin

text \<open>
  The ELF structures of dynamic_linker/inc/dl_runtime.h as records, read from the byte memory at
  the offsets of the AArch64 layout, and the macros that take \<open>r_info\<close> and \<open>st_info\<close> apart. The
  writing direction (\<open>ehdr_bytes\<close> and so on) is only there to state that reading is its inverse and
  to build examples. elf/elf64.h declares the same header and program header, and in addition the
  section header.
\<close>

abbreviation PT_LOAD :: u32 where "PT_LOAD \<equiv> 1"
abbreviation PT_DYNAMIC :: u32 where "PT_DYNAMIC \<equiv> 2"

text \<open>Tags of the dynamic section and of the auxiliary vector, and relocation types, by the header's names.\<close>

abbreviation (input) DT_NULL :: i64 where "DT_NULL \<equiv> 0"
abbreviation (input) DT_NEEDED :: i64 where "DT_NEEDED \<equiv> 1"
abbreviation (input) DT_PLTRELSZ :: i64 where "DT_PLTRELSZ \<equiv> 2"
abbreviation (input) DT_PLTGOT :: i64 where "DT_PLTGOT \<equiv> 3"
abbreviation (input) DT_STRTAB :: i64 where "DT_STRTAB \<equiv> 5"
abbreviation (input) DT_SYMTAB :: i64 where "DT_SYMTAB \<equiv> 6"
abbreviation (input) DT_RELA :: i64 where "DT_RELA \<equiv> 7"
abbreviation (input) DT_RELASZ :: i64 where "DT_RELASZ \<equiv> 8"
abbreviation (input) DT_RELAENT :: i64 where "DT_RELAENT \<equiv> 9"
abbreviation (input) DT_INIT :: i64 where "DT_INIT \<equiv> 12"
abbreviation (input) DT_JMPREL :: i64 where "DT_JMPREL \<equiv> 23"
abbreviation (input) DT_INIT_ARRAY :: i64 where "DT_INIT_ARRAY \<equiv> 25"
abbreviation (input) DT_INIT_ARRAYSZ :: i64 where "DT_INIT_ARRAYSZ \<equiv> 27"

abbreviation (input) AT_NULL :: u64 where "AT_NULL \<equiv> 0"
abbreviation (input) AT_PHDR :: u64 where "AT_PHDR \<equiv> 3"
abbreviation (input) AT_PHENT :: u64 where "AT_PHENT \<equiv> 4"
abbreviation (input) AT_PHNUM :: u64 where "AT_PHNUM \<equiv> 5"
abbreviation (input) AT_PAGESZ :: u64 where "AT_PAGESZ \<equiv> 6"
abbreviation (input) AT_BASE :: u64 where "AT_BASE \<equiv> 7"
abbreviation (input) AT_ENTRY :: u64 where "AT_ENTRY \<equiv> 9"
abbreviation (input) AT_PLATFORM :: u64 where "AT_PLATFORM \<equiv> 15"
abbreviation (input) AT_EXECFN :: u64 where "AT_EXECFN \<equiv> 31"

abbreviation (input) R_AARCH64_NONE :: u32 where "R_AARCH64_NONE \<equiv> 0"
abbreviation (input) R_AARCH64_ABS64 :: u32 where "R_AARCH64_ABS64 \<equiv> 257"
abbreviation (input) R_AARCH64_GLOB_DAT :: u32 where "R_AARCH64_GLOB_DAT \<equiv> 1025"
abbreviation (input) R_AARCH64_JUMP_SLOT :: u32 where "R_AARCH64_JUMP_SLOT \<equiv> 1026"
abbreviation (input) R_AARCH64_RELATIVE :: u32 where "R_AARCH64_RELATIVE \<equiv> 1027"

record Elf64_Ehdr =
  e_ident :: "u8 list"
  e_type :: u16
  e_machine :: u16
  e_version :: u32
  e_entry :: u64
  e_phoff :: u64
  e_shoff :: u64
  e_flags :: u32
  e_ehsize :: u16
  e_phentsize :: u16
  e_phnum :: u16
  e_shentsize :: u16
  e_shnum :: u16
  e_shstrndx :: u16

record Elf64_Phdr =
  p_type :: u32
  p_flags :: u32
  p_offset :: u64
  p_vaddr :: u64
  p_paddr :: u64
  p_filesz :: u64
  p_memsz :: u64
  p_align :: u64

record Elf64_Dyn =
  d_tag :: i64
  d_val :: u64

record Elf64_Rela =
  r_offset :: u64
  r_info :: u64
  r_addend :: i64

record Elf64_Sym =
  st_name :: u32
  st_info :: u8
  st_other :: u8
  st_shndx :: u16
  st_value :: u64
  st_size :: u64

record Elf64_Shdr =
  sh_name :: u32
  sh_type :: u32
  sh_flags :: u64
  sh_addr :: u64
  sh_offset :: u64
  sh_size :: u64
  sh_link :: u32
  sh_info :: u32
  sh_addralign :: u64
  sh_entsize :: u64

subsection \<open>Reading\<close>

definition ld_ehdr :: "mem \<Rightarrow> u64 \<Rightarrow> Elf64_Ehdr" where
  "ld_ehdr m p = \<lparr>e_ident = bytes_at m p 16, e_type = ld16 m (p + 16), e_machine = ld16 m (p + 18),
     e_version = ld32 m (p + 20), e_entry = ld64 m (p + 24), e_phoff = ld64 m (p + 32),
     e_shoff = ld64 m (p + 40), e_flags = ld32 m (p + 48), e_ehsize = ld16 m (p + 52),
     e_phentsize = ld16 m (p + 54), e_phnum = ld16 m (p + 56), e_shentsize = ld16 m (p + 58),
     e_shnum = ld16 m (p + 60), e_shstrndx = ld16 m (p + 62)\<rparr>"

definition ld_phdr :: "mem \<Rightarrow> u64 \<Rightarrow> Elf64_Phdr" where
  "ld_phdr m p = \<lparr>p_type = ld32 m p, p_flags = ld32 m (p + 4), p_offset = ld64 m (p + 8),
     p_vaddr = ld64 m (p + 16), p_paddr = ld64 m (p + 24), p_filesz = ld64 m (p + 32),
     p_memsz = ld64 m (p + 40), p_align = ld64 m (p + 48)\<rparr>"

definition ld_dyn :: "mem \<Rightarrow> u64 \<Rightarrow> Elf64_Dyn" where
  "ld_dyn m p = \<lparr>d_tag = ld64 m p, d_val = ld64 m (p + 8)\<rparr>"

definition ld_rela :: "mem \<Rightarrow> u64 \<Rightarrow> Elf64_Rela" where
  "ld_rela m p = \<lparr>r_offset = ld64 m p, r_info = ld64 m (p + 8), r_addend = ld64 m (p + 16)\<rparr>"

definition ld_sym :: "mem \<Rightarrow> u64 \<Rightarrow> Elf64_Sym" where
  "ld_sym m p = \<lparr>st_name = ld32 m p, st_info = ld8 m (p + 4), st_other = ld8 m (p + 5),
     st_shndx = ld16 m (p + 6), st_value = ld64 m (p + 8), st_size = ld64 m (p + 16)\<rparr>"

definition ld_shdr :: "mem \<Rightarrow> u64 \<Rightarrow> Elf64_Shdr" where
  "ld_shdr m p = \<lparr>sh_name = ld32 m p, sh_type = ld32 m (p + 4), sh_flags = ld64 m (p + 8),
     sh_addr = ld64 m (p + 16), sh_offset = ld64 m (p + 24), sh_size = ld64 m (p + 32),
     sh_link = ld32 m (p + 40), sh_info = ld32 m (p + 44), sh_addralign = ld64 m (p + 48),
     sh_entsize = ld64 m (p + 56)\<rparr>"

subsection \<open>Taking words apart\<close>

definition ELF64_R_SYM :: "u64 \<Rightarrow> u32" where
  "ELF64_R_SYM i = ucast (drop_bit 32 i AND 0xffffffff)"

definition ELF64_R_TYPE :: "u64 \<Rightarrow> u32" where
  "ELF64_R_TYPE i = ucast (i AND 0xffffffff)"

definition ELF64_R_INFO :: "u64 \<Rightarrow> u64 \<Rightarrow> u64" where
  "ELF64_R_INFO s t = push_bit 32 s OR (t AND 0xffffffff)"

definition ELF64_ST_BIND :: "u8 \<Rightarrow> i32" where
  "ELF64_ST_BIND i = drop_bit 4 (ucast i)"

definition ELF64_ST_TYPE :: "u8 \<Rightarrow> i32" where
  "ELF64_ST_TYPE i = ucast i AND 0xf"

definition ELF64_ST_INFO :: "i32 \<Rightarrow> i32 \<Rightarrow> i32" where
  "ELF64_ST_INFO b t = push_bit 4 b + (t AND 0xf)"

lemma mask32: "(0xffffffff :: u64) = mask 32"
  by (simp add: mask_eq_exp_minus_1)

lemma mask4: "(0xf :: i32) = mask 4"
  by (simp add: mask_eq_exp_minus_1)

lemma r_info_sym: "ELF64_R_SYM (ELF64_R_INFO s t) = ucast s"
  unfolding ELF64_R_SYM_def ELF64_R_INFO_def mask32
  by (rule bit_word_eqI) (auto simp: bit_simps)

lemma r_info_type: "ELF64_R_TYPE (ELF64_R_INFO s t) = ucast t"
  unfolding ELF64_R_TYPE_def ELF64_R_INFO_def mask32
  by (rule bit_word_eqI) (auto simp: bit_simps)

lemma r_info_pack: "ELF64_R_INFO (ucast (ELF64_R_SYM i)) (ucast (ELF64_R_TYPE i)) = i"
  unfolding ELF64_R_SYM_def ELF64_R_TYPE_def ELF64_R_INFO_def mask32
  by (rule bit_word_eqI) (auto simp: bit_simps)

lemma st_info_pack: "ELF64_ST_INFO (ELF64_ST_BIND i) (ELF64_ST_TYPE i) = ucast i"
proof -
  have "push_bit 4 (drop_bit 4 (ucast i :: i32)) AND (ucast i AND mask 4) = 0"
    by (rule bit_word_eqI) (auto simp: bit_simps)
  then have "push_bit 4 (drop_bit 4 (ucast i :: i32)) + (ucast i AND mask 4)
      = push_bit 4 (drop_bit 4 (ucast i)) OR (ucast i AND mask 4)"
    by (rule disjunctive_add_eq_or)
  also have "\<dots> = ucast i" by (rule bit_word_eqI) (auto simp: bit_simps)
  finally show ?thesis by (simp add: ELF64_ST_INFO_def ELF64_ST_BIND_def ELF64_ST_TYPE_def mask4)
qed

subsection \<open>Writing, and the round trip\<close>

definition ehdr_bytes :: "Elf64_Ehdr \<Rightarrow> u8 list" where
  "ehdr_bytes h = e_ident h @ to_le 2 (e_type h) @ to_le 2 (e_machine h) @ to_le 4 (e_version h) @
     to_le 8 (e_entry h) @ to_le 8 (e_phoff h) @ to_le 8 (e_shoff h) @ to_le 4 (e_flags h) @
     to_le 2 (e_ehsize h) @ to_le 2 (e_phentsize h) @ to_le 2 (e_phnum h) @ to_le 2 (e_shentsize h) @
     to_le 2 (e_shnum h) @ to_le 2 (e_shstrndx h)"

definition phdr_bytes :: "Elf64_Phdr \<Rightarrow> u8 list" where
  "phdr_bytes p = to_le 4 (p_type p) @ to_le 4 (p_flags p) @ to_le 8 (p_offset p) @ to_le 8 (p_vaddr p) @
     to_le 8 (p_paddr p) @ to_le 8 (p_filesz p) @ to_le 8 (p_memsz p) @ to_le 8 (p_align p)"

definition dyn_bytes :: "Elf64_Dyn \<Rightarrow> u8 list" where
  "dyn_bytes d = to_le 8 (d_tag d) @ to_le 8 (d_val d)"

definition rela_bytes :: "Elf64_Rela \<Rightarrow> u8 list" where
  "rela_bytes r = to_le 8 (r_offset r) @ to_le 8 (r_info r) @ to_le 8 (r_addend r)"

definition sym_bytes :: "Elf64_Sym \<Rightarrow> u8 list" where
  "sym_bytes s = to_le 4 (st_name s) @ [st_info s, st_other s] @ to_le 2 (st_shndx s) @
     to_le 8 (st_value s) @ to_le 8 (st_size s)"

definition shdr_bytes :: "Elf64_Shdr \<Rightarrow> u8 list" where
  "shdr_bytes s = to_le 4 (sh_name s) @ to_le 4 (sh_type s) @ to_le 8 (sh_flags s) @ to_le 8 (sh_addr s) @
     to_le 8 (sh_offset s) @ to_le 8 (sh_size s) @ to_le 4 (sh_link s) @ to_le 4 (sh_info s) @
     to_le 8 (sh_addralign s) @ to_le 8 (sh_entsize s)"

text \<open>A field of a block of bytes that lies in memory.\<close>

lemma bytes_at_block:
  assumes "bytes_at m p (length bs) = bs" and "i + n \<le> length bs"
  shows "bytes_at m (p + of_nat i) n = take n (drop i bs)"
proof (rule nth_equalityI)
  fix j assume "j < length (bytes_at m (p + of_nat i) n)"
  then have j: "j < n" by simp
  then have "bs ! (i + j) = m (p + of_nat (i + j))"
    using assms nth_bytes_at [of "i + j" "length bs" m p] by simp
  with j show "bytes_at m (p + of_nat i) n ! j = take n (drop i bs) ! j"
    using assms(2) by (simp add: algebra_simps)
qed (use assms in simp)

lemma ld_block:
  assumes "bytes_at m p (length bs) = bs"
  shows "i + 8 \<le> length bs \<Longrightarrow> ld64 m (p + of_nat i) = from_le (take 8 (drop i bs))"
    "i + 4 \<le> length bs \<Longrightarrow> ld32 m (p + of_nat i) = from_le (take 4 (drop i bs))"
    "i + 2 \<le> length bs \<Longrightarrow> ld16 m (p + of_nat i) = from_le (take 2 (drop i bs))"
    "i + 1 \<le> length bs \<Longrightarrow> ld8 m (p + of_nat i) = bs ! i"
  using bytes_at_block [OF assms, of i] arg_cong [OF assms, of "\<lambda>xs. xs ! i"]
  by (simp_all add: ld64_def ld32_def ld16_def ld8_def del: bytes_at.simps)

lemma from_to [simp]:
  "from_le (to_le 8 w) = (w :: u64)" "from_le (to_le 4 v) = (v :: u32)" "from_le (to_le 2 u) = (u :: u16)"
  by (simp_all add: from_le_to_le take_bit_word_eq_self del: to_le.simps)

text \<open>A structure written out field by field is read back.\<close>

lemma ld_phdr_bytes:
  assumes "bytes_at m p 56 = phdr_bytes h"
  shows "ld_phdr m p = h"
proof -
  have l: "length (phdr_bytes h) = 56" by (simp add: phdr_bytes_def)
  note b = ld_block [of m p "phdr_bytes h", unfolded l, OF assms]
  show ?thesis
    using b(2) [of 0] b(2) [of 4] b(1) [of 8] b(1) [of 16] b(1) [of 24] b(1) [of 32] b(1) [of 40] b(1) [of 48]
    by (simp add: ld_phdr_def phdr_bytes_def del: to_le.simps)
qed

lemma ld_dyn_bytes:
  assumes "bytes_at m p 16 = dyn_bytes d"
  shows "ld_dyn m p = d"
proof -
  have l: "length (dyn_bytes d) = 16" by (simp add: dyn_bytes_def)
  note b = ld_block [of m p "dyn_bytes d", unfolded l, OF assms]
  show ?thesis using b(1) [of 0] b(1) [of 8] by (simp add: ld_dyn_def dyn_bytes_def del: to_le.simps)
qed

lemma ld_rela_bytes:
  assumes "bytes_at m p 24 = rela_bytes r"
  shows "ld_rela m p = r"
proof -
  have l: "length (rela_bytes r) = 24" by (simp add: rela_bytes_def)
  note b = ld_block [of m p "rela_bytes r", unfolded l, OF assms]
  show ?thesis
    using b(1) [of 0] b(1) [of 8] b(1) [of 16] by (simp add: ld_rela_def rela_bytes_def del: to_le.simps)
qed

lemma ld_sym_bytes:
  assumes "bytes_at m p 24 = sym_bytes s"
  shows "ld_sym m p = s"
proof -
  have l: "length (sym_bytes s) = 24" by (simp add: sym_bytes_def)
  note b = ld_block [of m p "sym_bytes s", unfolded l, OF assms]
  show ?thesis
    using b(2) [of 0] b(4) [of 4] b(4) [of 5] b(3) [of 6] b(1) [of 8] b(1) [of 16]
    by (simp add: ld_sym_def sym_bytes_def nth_append del: to_le.simps)
qed

lemma ld_shdr_bytes:
  assumes "bytes_at m p 64 = shdr_bytes s"
  shows "ld_shdr m p = s"
proof -
  have l: "length (shdr_bytes s) = 64" by (simp add: shdr_bytes_def)
  note b = ld_block [of m p "shdr_bytes s", unfolded l, OF assms]
  show ?thesis
    using b(2) [of 0] b(2) [of 4] b(1) [of 8] b(1) [of 16] b(1) [of 24] b(1) [of 32] b(2) [of 40] b(2) [of 44]
      b(1) [of 48] b(1) [of 56]
    by (simp add: ld_shdr_def shdr_bytes_def del: to_le.simps)
qed

lemma ld_ehdr_bytes:
  assumes "bytes_at m p 64 = ehdr_bytes h" and i: "length (e_ident h) = 16"
  shows "ld_ehdr m p = h"
proof -
  have l: "length (ehdr_bytes h) = 64" by (simp add: ehdr_bytes_def i)
  note b = ld_block [of m p "ehdr_bytes h", unfolded l, OF assms(1)]
  have e: "bytes_at m p 16 = e_ident h"
    using bytes_at_block [of m p "ehdr_bytes h" 0 16, unfolded l, OF assms(1)] i by (simp add: ehdr_bytes_def)
  show ?thesis
    using b(3) [of 16] b(3) [of 18] b(2) [of 20] b(1) [of 24] b(1) [of 32] b(1) [of 40] b(2) [of 48] b(3) [of 52]
      b(3) [of 54] b(3) [of 56] b(3) [of 58] b(3) [of 60] b(3) [of 62]
    by (simp add: ld_ehdr_def e, simp add: ehdr_bytes_def i del: to_le.simps)
qed

subsection \<open>Properties\<close>

text \<open>The packing macros are inverse: a relocation's symbol index and type, and a symbol's binding
  and type, put together again give the word they were taken from, and what was packed is taken out.\<close>

theorem elf_info_roundtrip:
  "ELF64_R_INFO (ucast (ELF64_R_SYM i)) (ucast (ELF64_R_TYPE i)) = i \<and>
   ELF64_R_SYM (ELF64_R_INFO s t) = ucast s \<and> ELF64_R_TYPE (ELF64_R_INFO s t) = ucast t \<and>
   ELF64_ST_INFO (ELF64_ST_BIND b) (ELF64_ST_TYPE b) = ucast b"
  by (simp add: r_info_pack r_info_sym r_info_type st_info_pack)

end
