(* ===== verification/Linker_State.thy ===== *)
theory Linker_State
  imports DlMalloc DlSys ElfTypes
begin

text \<open>
  The state of the dynamic linker (dynamic_linker/src/dynamic_linker.c) and what it does first: its
  globals, the parsing of the initial stack and of the auxiliary vector.

  The globals are a record around the heap of the runtime, which holds the memory of the process
  and the kernel's state. The list of loaded libraries is the list of its nodes, newest first: the
  code only adds a node in front and takes the front node off again. What \<open>printf\<close> is asked to
  print is kept in \<open>messages\<close>, as format and arguments.
\<close>

record LoadedLibrary =
  lib_path :: u64
  lib_base_addr :: u64
  lib_ehdr :: u64
  lib_phdr :: u64
  lib_dynamic :: u64
  lib_strtab :: u64
  lib_symtab :: u64
  lib_symnum :: u32
  lib_init :: u64
  lib_init_array :: u64
  lib_init_array_size :: u64

record 'k linker =
  lheap :: "'k heap"
  g_environ :: u64
  g_auxv_entry :: u64
  g_auxv_phdr :: u64
  g_auxv_phent :: u64
  g_auxv_phnum :: u64
  g_auxv_pagesz :: u64
  g_auxv_base :: u64
  g_auxv_platform :: u64
  g_auxv_execfn :: u64
  g_bootstrap_done :: bool
  g_loaded_libraries :: "LoadedLibrary list"
  messages :: "(string \<times> u64 list) list"

definition lmem :: "'k linker \<Rightarrow> mem" where
  "lmem s = wmem (hw (lheap s))"

definition set_lmem :: "mem \<Rightarrow> 'k linker \<Rightarrow> 'k linker" where
  "set_lmem m s = s\<lparr>lheap := (lheap s)\<lparr>hw := (hw (lheap s))\<lparr>wmem := m\<rparr>\<rparr>\<rparr>"

definition message :: "string \<Rightarrow> u64 list \<Rightarrow> 'k linker \<Rightarrow> 'k linker" where
  "message fmt args s = s\<lparr>messages := messages s @ [(fmt, args)]\<rparr>"

lemma lmem_simps [simp]:
  "lmem (set_lmem m s) = m" "lmem (message f a s) = lmem s" "set_lmem m (set_lmem m' s) = set_lmem m s"
  "set_lmem (lmem s) s = s"
  by (simp_all add: lmem_def set_lmem_def message_def)

lemma linker_fields [simp]:
  "g_auxv_base (set_lmem m s) = g_auxv_base s" "g_auxv_base (message f a s) = g_auxv_base s"
  "g_loaded_libraries (set_lmem m s) = g_loaded_libraries s"
  "g_loaded_libraries (message f a s) = g_loaded_libraries s"
  "g_bootstrap_done (set_lmem m s) = g_bootstrap_done s" "g_bootstrap_done (message f a s) = g_bootstrap_done s"
  "messages (set_lmem m s) = messages s" "messages (message f a s) = messages s @ [(f, a)]"
  by (simp_all add: set_lmem_def message_def)

subsection \<open>The auxiliary vector\<close>

partial_function (option) get_auxv_loop :: "mem \<Rightarrow> u64 \<Rightarrow> u64 \<Rightarrow> u64 option" where
  "get_auxv_loop m p tag =
     (if ld64 m p \<noteq> AT_NULL then
        if ld64 m p = tag then Some (ld64 m (p + 8)) else get_auxv_loop m (p + 16) tag
      else Some 0)"

definition get_auxv :: "mem \<Rightarrow> u64 \<Rightarrow> u64 \<Rightarrow> u64 option" where
  "get_auxv m auxv tag = (if auxv = 0 then Some 0 else get_auxv_loop m auxv tag)"

definition parse_auxv :: "u64 \<Rightarrow> 'k linker \<Rightarrow> 'k linker option" where
  "parse_auxv auxv s =
     (if auxv = 0 then Some s
      else let get = get_auxv (lmem s) auxv in
        Option.bind (get AT_ENTRY) (\<lambda>entry. Option.bind (get AT_PHDR) (\<lambda>phdr. Option.bind (get AT_PHENT) (\<lambda>phent.
        Option.bind (get AT_PHNUM) (\<lambda>phnum. Option.bind (get AT_PAGESZ) (\<lambda>pagesz. Option.bind (get AT_BASE) (\<lambda>base.
        Option.bind (get AT_PLATFORM) (\<lambda>platform. Option.bind (get AT_EXECFN) (\<lambda>execfn.
          Some (s\<lparr>g_auxv_entry := entry, g_auxv_phdr := phdr, g_auxv_phent := phent,
            g_auxv_phnum := phnum, g_auxv_pagesz := pagesz, g_auxv_base := base,
            g_auxv_platform := (if platform \<noteq> 0 then platform else g_auxv_platform s),
            g_auxv_execfn := (if execfn \<noteq> 0 then execfn else g_auxv_execfn s)\<rparr>))))))))))"

subsection \<open>The initial stack\<close>

partial_function (option) env_end :: "mem \<Rightarrow> u64 \<Rightarrow> u64 option" where
  "env_end m env = (if ld64 m env \<noteq> 0 then env_end m (env + 8) else Some env)"

text \<open>The results: \<open>argc\<close>, \<open>argv\<close>, \<open>envp\<close> and \<open>auxv\<close>.\<close>

definition parse_stack :: "mem \<Rightarrow> u64 \<Rightarrow> (i32 \<times> u64 \<times> u64 \<times> u64) option" where
  "parse_stack m sp =
     (let argc = ucast (ld64 m sp) :: i32;
          argv = sp + 8;
          envp = sp + 8 * (1 + scast argc + 1)
      in map_option (\<lambda>env. (argc, argv, envp, env + 8)) (env_end m envp))"

subsection \<open>What they find\<close>

text \<open>Consecutive 64-bit words in memory.\<close>

primrec words_at :: "mem \<Rightarrow> u64 \<Rightarrow> u64 list \<Rightarrow> bool" where
  "words_at m p [] \<longleftrightarrow> True"
| "words_at m p (w # ws) \<longleftrightarrow> ld64 m p = w \<and> words_at m (p + 8) ws"

lemma words_at_append:
  "words_at m p (xs @ ys) \<longleftrightarrow> words_at m p xs \<and> words_at m (p + 8 * of_nat (length xs)) ys"
  by (induction xs arbitrary: p) (simp_all add: algebra_simps)

text \<open>The auxiliary vector as a list of pairs, ended by AT_NULL.\<close>

definition auxv_words :: "(u64 \<times> u64) list \<Rightarrow> u64 list" where
  "auxv_words av = concat (map (\<lambda>(t, v). [t, v]) av) @ [0, 0]"

definition auxv_lookup :: "(u64 \<times> u64) list \<Rightarrow> u64 \<Rightarrow> u64" where
  "auxv_lookup av tag = (case map_of av tag of None \<Rightarrow> 0 | Some v \<Rightarrow> v)"

lemma get_auxv_loop_eq:
  "words_at m p (auxv_words av) \<Longrightarrow> 0 \<notin> fst ` set av \<Longrightarrow> get_auxv_loop m p tag = Some (auxv_lookup av tag)"
proof (induction av arbitrary: p)
  case Nil
  then show ?case by (simp add: auxv_words_def auxv_lookup_def get_auxv_loop.simps [of m p])
next
  case (Cons a av)
  have "get_auxv_loop m (p + 16) tag = Some (auxv_lookup av tag)"
    by (rule Cons.IH) (use Cons.prems in \<open>auto simp: auxv_words_def case_prod_unfold add.assoc\<close>)
  with Cons.prems show ?case
    by (cases a) (auto simp: auxv_words_def auxv_lookup_def get_auxv_loop.simps [of m p])
qed

lemma env_end_eq:
  "words_at m p (es @ [0]) \<Longrightarrow> 0 \<notin> set es \<Longrightarrow> env_end m p = Some (p + 8 * of_nat (length es))"
proof (induction es arbitrary: p)
  case Nil
  then show ?case by (simp add: env_end.simps [of m p])
next
  case (Cons e es)
  have "env_end m (p + 8) = Some (p + 8 + 8 * of_nat (length es))"
    by (rule Cons.IH) (use Cons.prems in simp_all)
  with Cons.prems show ?case by (simp add: env_end.simps [of m p] algebra_simps)
qed

text \<open>The stack the kernel builds: the argument count, the arguments, the environment, the vector.\<close>

definition initial_stack :: "mem \<Rightarrow> u64 \<Rightarrow> u64 list \<Rightarrow> u64 list \<Rightarrow> (u64 \<times> u64) list \<Rightarrow> bool" where
  "initial_stack m sp argv env av \<longleftrightarrow>
     words_at m sp (of_nat (length argv) # argv @ [0] @ env @ [0] @ auxv_words av) \<and>
     length argv < 2 ^ 31 \<and> 0 \<notin> set env \<and> 0 \<notin> fst ` set av"

lemma parse_stack_eq:
  assumes "initial_stack m sp argv env av"
  defines "aux \<equiv> sp + 8 * (of_nat (length argv) + 2 + of_nat (length env) + 1)"
  shows "parse_stack m sp = Some (of_nat (length argv), sp + 8, sp + 8 * (of_nat (length argv) + 2), aux)"
    "words_at m aux (auxv_words av)"
proof -
  have w: "words_at m sp ((of_nat (length argv) # argv @ [0]) @ (env @ [0]) @ auxv_words av)"
    using assms(1) by (simp add: initial_stack_def)
  have n: "length argv < 2 ^ 31" "0 \<notin> set env" using assms(1) by (simp_all add: initial_stack_def)
  have argc: "ucast (of_nat (length argv) :: u64) = (of_nat (length argv) :: i32)"
    by (rule ucast_of_nat_small) (use n in simp)
  have sc: "scast (of_nat (length argv) :: i32) = (of_nat (length argv) :: u64)"
    by (rule scast_of_nat_small) (use n in simp)
  have e: "words_at m (sp + 8 * (of_nat (length argv) + 2)) (env @ [0])"
    using w unfolding words_at_append by (simp add: algebra_simps)
  show "words_at m aux (auxv_words av)"
    using w unfolding words_at_append aux_def by (simp add: algebra_simps)
  have "env_end m (sp + 8 * (of_nat (length argv) + 2))
      = Some (sp + 8 * (of_nat (length argv) + 2) + 8 * of_nat (length env))"
    by (rule env_end_eq [OF e n(2)])
  moreover have "ld64 m sp = of_nat (length argv)" using w by simp
  ultimately show "parse_stack m sp = Some (of_nat (length argv), sp + 8, sp + 8 * (of_nat (length argv) + 2), aux)"
    by (simp add: parse_stack_def argc sc aux_def algebra_simps)
qed

text \<open>The state after the vector has been read.\<close>

definition with_auxv :: "(u64 \<times> u64) list \<Rightarrow> 'k linker \<Rightarrow> 'k linker" where
  "with_auxv av s = s\<lparr>g_auxv_entry := auxv_lookup av AT_ENTRY, g_auxv_phdr := auxv_lookup av AT_PHDR,
      g_auxv_phent := auxv_lookup av AT_PHENT, g_auxv_phnum := auxv_lookup av AT_PHNUM, g_auxv_pagesz := auxv_lookup av AT_PAGESZ,
      g_auxv_base := auxv_lookup av AT_BASE,
      g_auxv_platform := (if auxv_lookup av AT_PLATFORM \<noteq> 0 then auxv_lookup av AT_PLATFORM else g_auxv_platform s),
      g_auxv_execfn := (if auxv_lookup av AT_EXECFN \<noteq> 0 then auxv_lookup av AT_EXECFN else g_auxv_execfn s)\<rparr>"

lemma parse_auxv_eq:
  assumes "words_at (lmem s) aux (auxv_words av)" and "0 \<notin> fst ` set av" and "aux \<noteq> 0"
  shows "parse_auxv aux s = Some (with_auxv av s)"
proof -
  have "get_auxv (lmem s) aux tag = Some (auxv_lookup av tag)" for tag
    using get_auxv_loop_eq [OF assms(1,2)] assms(3) by (simp only: get_auxv_def if_False)
  then show ?thesis
    unfolding with_auxv_def using assms(3) by (simp only: parse_auxv_def Let_def Option.bind.bind_lunit if_False)
qed

subsection \<open>Properties\<close>

text \<open>C21. On the stack a kernel builds (the argument count, the arguments with their NULL, the
  environment with its NULL, the auxiliary vector, a word each), \<open>parse_stack\<close> returns the argument count
  and the addresses of the arguments, at \<open>sp + 8\<close>, of the environment, at \<open>sp + 8 * (argc + 2)\<close>, and of the
  auxiliary vector, at \<open>sp + 8 * (argc + envc + 3)\<close> (each of the last two one word behind the place the comment
  above the function gives); and \<open>parse_auxv\<close> run on that vector sets the globals to the first entry of
  each tag, 0 when there is none (the platform and the program's name keep their value then); nothing
  else of the state changes.\<close>

theorem start_parses_stack:
  assumes "initial_stack (lmem s) sp argv env av"
    and "sp + 8 * (of_nat (length argv) + of_nat (length env) + 3) \<noteq> 0"
  shows "parse_stack (lmem s) sp
      = Some (of_nat (length argv), sp + 8, sp + 8 * (of_nat (length argv) + 2),
          sp + 8 * (of_nat (length argv) + of_nat (length env) + 3)) \<and>
    parse_auxv (sp + 8 * (of_nat (length argv) + of_nat (length env) + 3)) s
      = Some (s\<lparr>g_auxv_entry := auxv_lookup av AT_ENTRY, g_auxv_phdr := auxv_lookup av AT_PHDR,
      g_auxv_phent := auxv_lookup av AT_PHENT, g_auxv_phnum := auxv_lookup av AT_PHNUM, g_auxv_pagesz := auxv_lookup av AT_PAGESZ,
      g_auxv_base := auxv_lookup av AT_BASE,
      g_auxv_platform := (if auxv_lookup av AT_PLATFORM \<noteq> 0 then auxv_lookup av AT_PLATFORM else g_auxv_platform s),
      g_auxv_execfn := (if auxv_lookup av AT_EXECFN \<noteq> 0 then auxv_lookup av AT_EXECFN else g_auxv_execfn s)\<rparr>)"
proof -
  have aux: "sp + 8 * (of_nat (length argv) + 2 + of_nat (length env) + 1)
      = sp + 8 * (of_nat (length argv) + of_nat (length env) + 3)" by (simp add: algebra_simps)
  have av: "0 \<notin> fst ` set av" using assms(1) by (simp add: initial_stack_def)
  show ?thesis
    using parse_stack_eq [OF assms(1)] parse_auxv_eq [OF _ av assms(2)] unfolding aux with_auxv_def by blast
qed

text \<open>A small stack: one argument, one environment string, AT_BASE and AT_ENTRY.\<close>

primrec store_words :: "mem \<Rightarrow> u64 \<Rightarrow> u64 list \<Rightarrow> mem" where
  "store_words m p [] = m"
| "store_words m p (w # ws) = store_words (st64 m p w) (p + 8) ws"

definition demo_linker :: "mem \<Rightarrow> unit linker" where
  "demo_linker m = \<lparr>lheap = \<lparr>hdr = (\<lambda>_. \<lparr>blk_size = 0, blk_order = 0, is_free = 0, next_free = 0, buddy = 0\<rparr>),
     galloc = 0, alloc = \<lparr>free_lists = replicate 32 0, heap_start = 0, heap_size = 0\<rparr>, printed = [],
     hw = \<lparr>wmem = m, kst = ()\<rparr>\<rparr>, g_environ = 0, g_auxv_entry = 0, g_auxv_phdr = 0, g_auxv_phent = 0,
     g_auxv_phnum = 0, g_auxv_pagesz = 0, g_auxv_base = 0, g_auxv_platform = 0, g_auxv_execfn = 0,
     g_bootstrap_done = False, g_loaded_libraries = [], messages = []\<rparr>"

theorem start_parses_stack_witness:
  "\<exists>(s :: unit linker) auxv s'. parse_stack (lmem s) 0x1000 = Some (1, 0x1008, 0x1018, auxv) \<and> parse_auxv auxv s = Some s' \<and>
    g_auxv_base s' = 0x7000 \<and> g_auxv_entry s' = 0x400"
proof -
  let ?m = "store_words (\<lambda>_. 0) 0x1000 [1, 0x9000, 0, 0x9100, 0, 7, 0x7000, 9, 0x400, 0, 0]"
  define s where "s = demo_linker ?m"
  have i: "initial_stack (lmem s) 0x1000 [0x9000] [0x9100] [(7, 0x7000), (9, 0x400)]"
    by (simp add: s_def initial_stack_def demo_linker_def lmem_def auxv_words_def ld_st_apart apart_def)
  let ?s = "s\<lparr>g_auxv_entry := 0x400, g_auxv_phdr := 0, g_auxv_phent := 0, g_auxv_phnum := 0,
    g_auxv_pagesz := 0, g_auxv_base := 0x7000\<rparr>"
  have "parse_stack (lmem s) 0x1000 = Some (1, 0x1008, 0x1018, 0x1028)" "parse_auxv 0x1028 s = Some ?s"
    using start_parses_stack [OF i] by (simp_all add: auxv_lookup_def)
  moreover have "g_auxv_base ?s = 0x7000" "g_auxv_entry ?s = 0x400" by simp_all
  ultimately show ?thesis by blast
qed

end
