(* ===== verification/Linker_Symbols.thy ===== *)
theory Linker_Symbols
  imports Linker_State
begin

text \<open>
  Addresses and symbols in the dynamic linker: the translation of link-time addresses through the
  program header table, the search of the dynamic section, and the search for a symbol in one
  library and in all of them.

  A loop over an array that writes nothing is a \<open>find\<close> over the list of its elements, in order.
\<close>

subsection \<open>Address translation\<close>

definition phdr_table :: "mem \<Rightarrow> u64 \<Rightarrow> u16 \<Rightarrow> Elf64_Phdr list" where
  "phdr_table m phdr phnum = map (\<lambda>i. ld_phdr m (phdr + 56 * of_nat i)) [0..<unat phnum]"

definition first_load :: "mem \<Rightarrow> u64 \<Rightarrow> u16 \<Rightarrow> Elf64_Phdr option" where
  "first_load m phdr phnum = find (\<lambda>p. p_type p = PT_LOAD) (phdr_table m phdr phnum)"

definition first_load_vaddr :: "mem \<Rightarrow> u64 \<Rightarrow> u16 \<Rightarrow> u64" where
  "first_load_vaddr m phdr phnum = (case first_load m phdr phnum of None \<Rightarrow> 0 | Some p \<Rightarrow> p_vaddr p)"

definition load_contains :: "u64 \<Rightarrow> Elf64_Phdr \<Rightarrow> bool" where
  "load_contains vaddr p \<longleftrightarrow> p_type p = PT_LOAD \<and> p_vaddr p \<le> vaddr \<and> vaddr < p_vaddr p + p_memsz p"

definition calculate_symbol_address :: "mem \<Rightarrow> u64 \<Rightarrow> u64 \<Rightarrow> u64 \<Rightarrow> u16 \<Rightarrow> u64" where
  "calculate_symbol_address m sym_entry base_addr phdr phnum =
     (if sym_entry = 0 \<or> phdr = 0 then 0
      else let flv = first_load_vaddr m phdr phnum;
               st_val = st_value (ld_sym m sym_entry)
           in case find (load_contains st_val) (phdr_table m phdr phnum) of
                None \<Rightarrow> 0
              | Some _ \<Rightarrow> base_addr + (st_val - flv))"

definition calculate_address_from_vaddr :: "mem \<Rightarrow> u64 \<Rightarrow> u64 \<Rightarrow> u64 \<Rightarrow> u16 \<Rightarrow> u64" where
  "calculate_address_from_vaddr m vaddr base_addr phdr phnum =
     (if phdr = 0 then 0
      else case find (load_contains vaddr) (phdr_table m phdr phnum) of
             None \<Rightarrow> 0
           | Some _ \<Rightarrow> base_addr + (vaddr - first_load_vaddr m phdr phnum))"

text \<open>The version of dynamic_linker_new.c, which is given the first segment's address.\<close>

definition calculate_address_from_vaddr_ex :: "mem \<Rightarrow> u64 \<Rightarrow> u64 \<Rightarrow> u64 \<Rightarrow> u64 \<Rightarrow> u16 \<Rightarrow> u64" where
  "calculate_address_from_vaddr_ex m vaddr base_addr flv phdr phnum =
     (if phdr = 0 then 0
      else case find (load_contains vaddr) (phdr_table m phdr phnum) of
             None \<Rightarrow> 0
           | Some _ \<Rightarrow> base_addr + (vaddr - flv))"

subsection \<open>The dynamic section\<close>

text \<open>\<open>k\<close> of the 1000 rounds are left; \<open>d\<close> is the address of the entry.\<close>

primrec get_dynamic_tag_loop :: "mem \<Rightarrow> u64 \<Rightarrow> u64 \<Rightarrow> i64 \<Rightarrow> nat \<Rightarrow> u64" where
  "get_dynamic_tag_loop m base d tag 0 = 0"
| "get_dynamic_tag_loop m base d tag (Suc k) =
     (if d < base \<or> d > base + 0x200000 then 0
      else if d_tag (ld_dyn m d) = DT_NULL then 0
      else if d_tag (ld_dyn m d) = tag then d_val (ld_dyn m d)
      else get_dynamic_tag_loop m base (d + 16) tag k)"

definition get_dynamic_tag :: "u64 \<Rightarrow> i64 \<Rightarrow> 'k linker \<Rightarrow> u64 \<times> 'k linker" where
  "get_dynamic_tag dynamic tag s =
     (if dynamic = 0 then (0, s)
      else if dynamic < g_auxv_base s \<or> dynamic > g_auxv_base s + 0x200000 then
        (0, message ''Warning: dynamic pointer out of range: 0x%x\<newline>'' [ucast (ucast dynamic :: u32)] s)
      else (get_dynamic_tag_loop (lmem s) (g_auxv_base s) dynamic tag 1000, s))"

primrec get_dynamic_tag_unsafe_loop :: "mem \<Rightarrow> u64 \<Rightarrow> i64 \<Rightarrow> nat \<Rightarrow> u64" where
  "get_dynamic_tag_unsafe_loop m d tag 0 = 0"
| "get_dynamic_tag_unsafe_loop m d tag (Suc k) =
     (if d_tag (ld_dyn m d) = DT_NULL then 0
      else if d_tag (ld_dyn m d) = tag then d_val (ld_dyn m d)
      else get_dynamic_tag_unsafe_loop m (d + 16) tag k)"

definition get_dynamic_tag_unsafe :: "mem \<Rightarrow> u64 \<Rightarrow> i64 \<Rightarrow> u64" where
  "get_dynamic_tag_unsafe m dynamic tag = (if dynamic = 0 then 0 else get_dynamic_tag_unsafe_loop m dynamic tag 1000)"

subsection \<open>Symbols\<close>

definition get_symbol_name :: "u64 \<Rightarrow> u32 \<Rightarrow> u64" where
  "get_symbol_name strtab name_off = (if strtab = 0 \<or> name_off = 0 then 0 else strtab + ucast name_off)"

definition sym_at :: "u64 \<Rightarrow> nat \<Rightarrow> u64" where
  "sym_at symtab i = symtab + 24 * of_nat i"

definition symbol_matches :: "mem \<Rightarrow> u64 \<Rightarrow> u64 \<Rightarrow> u64 \<Rightarrow> bool" where
  "symbol_matches m name strtab entry \<longleftrightarrow>
     (let symname = get_symbol_name strtab (st_name (ld_sym m entry))
      in symname \<noteq> 0 \<and> dl_strncmp m symname name 256 = 0)"

text \<open>The address of the entry found, or 0.\<close>

definition find_symbol :: "mem \<Rightarrow> u64 \<Rightarrow> u64 \<Rightarrow> u64 \<Rightarrow> u32 \<Rightarrow> u64" where
  "find_symbol m name symtab strtab symnum =
     (if name = 0 \<or> symtab = 0 \<or> strtab = 0 then 0
      else case find (symbol_matches m name strtab) (map (sym_at symtab) [0..<unat symnum]) of
             None \<Rightarrow> 0 | Some entry \<Rightarrow> entry)"

fun resolve_in :: "mem \<Rightarrow> u64 \<Rightarrow> LoadedLibrary list \<Rightarrow> u64" where
  "resolve_in m name [] = 0"
| "resolve_in m name (lib # libs) =
     (if lib_symtab lib \<noteq> 0 \<and> lib_strtab lib \<noteq> 0 \<and> 0 < lib_symnum lib then
        let sym_entry = find_symbol m name (lib_symtab lib) (lib_strtab lib) (lib_symnum lib)
        in if sym_entry \<noteq> 0 then
             let sym_addr = calculate_symbol_address m sym_entry (lib_base_addr lib) (lib_phdr lib)
                              (ld16 m (lib_ehdr lib + 56))
             in if sym_addr = 0 then lib_base_addr lib + st_value (ld_sym m sym_entry) else sym_addr
           else resolve_in m name libs
      else resolve_in m name libs)"

definition resolve_symbol_global :: "u64 \<Rightarrow> 'k linker \<Rightarrow> u64" where
  "resolve_symbol_global name s = (if name = 0 then 0 else resolve_in (lmem s) name (g_loaded_libraries s))"

fun find_loaded :: "mem \<Rightarrow> u64 \<Rightarrow> LoadedLibrary list \<Rightarrow> LoadedLibrary option option" where
  "find_loaded m path [] = Some None"
| "find_loaded m path (lib # libs) =
     (if lib_path lib = 0 then find_loaded m path libs
      else Option.bind (dl_strcmp m (lib_path lib) path) (\<lambda>r.
        if r = 0 then Some (Some lib) else find_loaded m path libs))"

definition find_loaded_library :: "u64 \<Rightarrow> 'k linker \<Rightarrow> LoadedLibrary option option" where
  "find_loaded_library path s = find_loaded (lmem s) path (g_loaded_libraries s)"


subsection \<open>What the translation gives\<close>

text \<open>A link-time address belongs to the image when some loadable segment contains it.\<close>

definition in_image :: "mem \<Rightarrow> u64 \<Rightarrow> u16 \<Rightarrow> u64 \<Rightarrow> bool" where
  "in_image m phdr phnum vaddr \<longleftrightarrow> phdr \<noteq> 0 \<and> (\<exists>p \<in> set (phdr_table m phdr phnum). load_contains vaddr p)"

lemma translate_eq:
  "calculate_address_from_vaddr m v base phdr phnum =
     (if in_image m phdr phnum v then base + (v - first_load_vaddr m phdr phnum) else 0)"
  by (auto simp: calculate_address_from_vaddr_def in_image_def find_None_iff find_Some_iff split: option.splits)

lemma translate_ex_eq:
  "calculate_address_from_vaddr_ex m v base flv phdr phnum = (if in_image m phdr phnum v then base + (v - flv) else 0)"
  by (auto simp: calculate_address_from_vaddr_ex_def in_image_def find_None_iff find_Some_iff split: option.splits)

lemma translate_symbol_eq:
  "sym_entry \<noteq> 0 \<Longrightarrow> calculate_symbol_address m sym_entry base phdr phnum =
     calculate_address_from_vaddr m (st_value (ld_sym m sym_entry)) base phdr phnum"
  by (auto simp: calculate_symbol_address_def calculate_address_from_vaddr_def Let_def split: option.splits)

lemma in_image_first: "in_image m phdr phnum v \<Longrightarrow> \<exists>p. first_load m phdr phnum = Some p"
  by (cases "first_load m phdr phnum") (auto simp: in_image_def first_load_def find_None_iff load_contains_def)

subsection \<open>What the search of the dynamic section gives\<close>

text \<open>The section as a list of entries with nonzero tags, ended by DT_NULL.\<close>

primrec dyn_at :: "mem \<Rightarrow> u64 \<Rightarrow> (i64 \<times> u64) list \<Rightarrow> bool" where
  "dyn_at m d [] \<longleftrightarrow> d_tag (ld_dyn m d) = DT_NULL"
| "dyn_at m d (e # es) \<longleftrightarrow> ld_dyn m d = \<lparr>d_tag = fst e, d_val = snd e\<rparr> \<and> fst e \<noteq> 0 \<and> dyn_at m (d + 16) es"

definition dyn_lookup :: "(i64 \<times> u64) list \<Rightarrow> i64 \<Rightarrow> u64" where
  "dyn_lookup es tag = (case map_of es tag of None \<Rightarrow> 0 | Some v \<Rightarrow> v)"

lemma dyn_unsafe_eq:
  "dyn_at m d es \<Longrightarrow> get_dynamic_tag_unsafe_loop m d tag k = dyn_lookup (take k es) tag"
proof (induction es arbitrary: d k)
  case Nil
  then show ?case by (cases k) (simp_all add: dyn_lookup_def)
next
  case (Cons e es)
  show ?case
  proof (cases k)
    case (Suc j)
    have "get_dynamic_tag_unsafe_loop m (d + 16) tag j = dyn_lookup (take j es) tag"
      by (rule Cons.IH) (use Cons.prems in simp)
    with Cons.prems Suc show ?thesis by (cases e) (simp add: dyn_lookup_def)
  qed (simp add: dyn_lookup_def)
qed

lemma dyn_range_step:
  fixes base d :: u64
  assumes "unat base + 0x200000 < 2 ^ 64" and "unat base \<le> unat d" and "unat d + 16 * Suc n \<le> unat base + 0x200000"
  shows "\<not> d < base" "\<not> base + 0x200000 < d" "unat (d + 16) = unat d + 16"
proof -
  have "unat (base + 0x200000) = unat base + 0x200000" using assms(1) by (simp add: unat_word_ariths)
  then show "\<not> base + 0x200000 < d" using assms by (simp add: word_less_nat_alt)
  show "\<not> d < base" using assms(2) by (simp add: word_less_nat_alt)
  show "unat (d + 16) = unat d + 16" using assms by (simp add: unat_word_ariths)
qed

lemma dyn_checked_eq:
  "dyn_at m d es \<Longrightarrow> unat base + 0x200000 < 2 ^ 64 \<Longrightarrow> unat base \<le> unat d \<Longrightarrow>
   unat d + 16 * Suc (length es) \<le> unat base + 0x200000 \<Longrightarrow>
   get_dynamic_tag_loop m base d tag k = get_dynamic_tag_unsafe_loop m d tag k"
proof (induction es arbitrary: d k)
  case Nil
  then show ?case using dyn_range_step [of base d 0] by (cases k) simp_all
next
  case (Cons e es)
  note r = dyn_range_step [OF Cons.prems(2,3), of "length es"]
  have r': "\<not> d < base" "\<not> base + 0x200000 < d" "unat (d + 16) = unat d + 16"
    by (rule r; use Cons.prems(4) in simp)+
  show ?case
  proof (cases k)
    case (Suc j)
    have "get_dynamic_tag_loop m base (d + 16) tag j = get_dynamic_tag_unsafe_loop m (d + 16) tag j"
      by (rule Cons.IH) (use Cons.prems r'(3) in simp_all)
    with Suc r'(1,2) show ?thesis by simp
  qed simp
qed

subsection \<open>What the symbol search gives\<close>

text \<open>The names of a library's symbols, in table order; an entry without a name is \<open>None\<close>.\<close>

definition sym_names :: "mem \<Rightarrow> LoadedLibrary \<Rightarrow> u8 list option list \<Rightarrow> bool" where
  "sym_names m lib ns \<longleftrightarrow> length ns = unat (lib_symnum lib) \<and> lib_symtab lib \<noteq> 0 \<and> lib_strtab lib \<noteq> 0 \<and>
     (\<forall>i < length ns. sym_at (lib_symtab lib) i \<noteq> 0 \<and>
        (let off = st_name (ld_sym m (sym_at (lib_symtab lib) i))
         in case ns ! i of None \<Rightarrow> off = 0
            | Some xs \<Rightarrow> off \<noteq> 0 \<and> lib_strtab lib + ucast off \<noteq> 0 \<and> cstr m (lib_strtab lib + ucast off) xs))"

text \<open>The first symbol of a name; names are compared on their first 256 bytes.\<close>

definition lookup_name :: "u8 list option list \<Rightarrow> u8 list \<Rightarrow> nat option" where
  "lookup_name ns xs = find (\<lambda>i. map_option (take 256) (ns ! i) = Some (take 256 xs)) [0..<length ns]"

text \<open>The run-time address of the \<open>i\<close>-th symbol of a library, and the search of a list of libraries.\<close>

definition symbol_address :: "mem \<Rightarrow> LoadedLibrary \<Rightarrow> nat \<Rightarrow> u64" where
  "symbol_address m lib i =
     (let v = st_value (ld_sym m (sym_at (lib_symtab lib) i));
          phnum = ld16 m (lib_ehdr lib + 56);
          a = lib_base_addr lib + (v - first_load_vaddr m (lib_phdr lib) phnum)
      in if in_image m (lib_phdr lib) phnum v \<and> a \<noteq> 0 then a else lib_base_addr lib + v)"

fun lookup_libs :: "mem \<Rightarrow> u8 list \<Rightarrow> (LoadedLibrary \<times> u8 list option list) list \<Rightarrow> u64" where
  "lookup_libs m xs [] = 0"
| "lookup_libs m xs ((lib, ns) # ls) =
     (case lookup_name ns xs of None \<Rightarrow> lookup_libs m xs ls | Some i \<Rightarrow> symbol_address m lib i)"

lemma find_cong_map: "(\<And>i. i \<in> set is \<Longrightarrow> P (f i) = Q i) \<Longrightarrow> find P (map f is) = map_option f (find Q is)"
  by (induction "is") auto

lemma symbol_matches_name:
  assumes "sym_names m lib ns" and "i < length ns" and "cstr m name xs"
  shows "symbol_matches m name (lib_strtab lib) (sym_at (lib_symtab lib) i)
    \<longleftrightarrow> map_option (take 256) (ns ! i) = Some (take 256 xs)"
proof -
  have s: "lib_strtab lib \<noteq> 0" using assms(1) by (simp add: sym_names_def)
  let ?off = "st_name (ld_sym m (sym_at (lib_symtab lib) i))"
  show ?thesis
  proof (cases "ns ! i")
    case None
    then have "?off = 0" using assms(1,2) by (auto simp: sym_names_def Let_def split: option.splits)
    with None show ?thesis by (simp add: symbol_matches_def get_symbol_name_def)
  next
    case (Some ys)
    then have y: "?off \<noteq> 0" "lib_strtab lib + ucast ?off \<noteq> 0" "cstr m (lib_strtab lib + ucast ?off) ys"
      using assms(1,2) by (auto simp: sym_names_def Let_def split: option.splits)
    have "sign_agrees (strncmp m (lib_strtab lib + ucast ?off) name 256) (CStr (take (unat (256 :: u64)) ys))
        (CStr (take (unat (256 :: u64)) xs))"
      by (rule strncmp_cstr [OF y(3) assms(3)])
    then show ?thesis
      using Some y(1,2) s by (auto simp: symbol_matches_def get_symbol_name_def dl_strncmp_eq sign_agrees_def)
  qed
qed

lemma find_symbol_eq:
  assumes "sym_names m lib ns" and "cstr m name xs" and "name \<noteq> 0"
  shows "find_symbol m name (lib_symtab lib) (lib_strtab lib) (lib_symnum lib) =
    (case lookup_name ns xs of None \<Rightarrow> 0 | Some i \<Rightarrow> sym_at (lib_symtab lib) i)"
proof -
  have l: "length ns = unat (lib_symnum lib)" "lib_symtab lib \<noteq> 0" "lib_strtab lib \<noteq> 0"
    using assms(1) by (simp_all add: sym_names_def)
  have "find (symbol_matches m name (lib_strtab lib)) (map (sym_at (lib_symtab lib)) [0..<length ns])
      = map_option (sym_at (lib_symtab lib)) (lookup_name ns xs)"
    unfolding lookup_name_def
    by (rule find_cong_map) (use symbol_matches_name [OF assms(1) _ assms(2)] in simp)
  with l assms(3) show ?thesis by (cases "lookup_name ns xs") (simp_all add: find_symbol_def)
qed

lemma lookup_name_less: "lookup_name ns xs = Some i \<Longrightarrow> i < length ns"
  by (auto simp: lookup_name_def find_Some_iff)

lemma resolve_in_eq:
  assumes n: "cstr m name xs" "name \<noteq> 0"
  shows "list_all2 (sym_names m) libs nss \<Longrightarrow> resolve_in m name libs = lookup_libs m xs (zip libs nss)"
proof (induction libs nss rule: list_all2_induct)
  case (Cons lib libs ns nss)
  note f = find_symbol_eq [OF Cons(1) n]
  show ?case
  proof (cases "lookup_name ns xs")
    case None
    with f Cons show ?thesis by simp
  next
    case (Some i)
    have i: "i < length ns" by (rule lookup_name_less [OF Some])
    have nz: "sym_at (lib_symtab lib) i \<noteq> 0" "0 < lib_symnum lib" "lib_symtab lib \<noteq> 0" "lib_strtab lib \<noteq> 0"
      using Cons(1) i by (auto simp: sym_names_def word_less_nat_alt)
    then show ?thesis
      using f Some by (simp add: translate_symbol_eq translate_eq symbol_address_def Let_def)
  qed
qed simp

end
