(* ===== verification/Linker_Reloc.thy ===== *)
theory Linker_Reloc
  imports Linker_Symbols
begin

text \<open>
  Relocation in the dynamic linker: one entry (\<open>process_relocation\<close>), a table of them, and the
  relocation of the linker itself (\<open>bootstrap_self\<close>). The header of an image is given by its
  address and read again at every use, as in the code: a relocation may write anywhere in the
  image. The linker's own globals are not part of the byte memory, so a relocation of the linker
  that overwrites them is outside the model.
\<close>

definition phnum_of :: "mem \<Rightarrow> u64 \<Rightarrow> u16" where
  "phnum_of m ehdr = e_phnum (ld_ehdr m ehdr)"

subsection \<open>One relocation\<close>

text \<open>Where to write: translated, or by the simplified formula when no segment contains the offset.\<close>

definition reloc_target :: "mem \<Rightarrow> u64 \<Rightarrow> u64 \<Rightarrow> u64 \<Rightarrow> u64 \<Rightarrow> u64" where
  "reloc_target m offset base_addr ehdr phdr =
     (if ehdr = 0 \<or> phdr = 0 then base_addr + offset
      else let target_addr = calculate_address_from_vaddr m offset base_addr phdr (phnum_of m ehdr)
           in if target_addr \<noteq> 0 then target_addr
              else base_addr + offset - first_load_vaddr m phdr (phnum_of m ehdr))"

definition own_symbol_address :: "mem \<Rightarrow> u64 \<Rightarrow> u64 \<Rightarrow> u64 \<Rightarrow> u64 \<Rightarrow> u64" where
  "own_symbol_address m sym_entry base_addr ehdr phdr =
     (let sym_addr = (if ehdr \<noteq> 0 \<and> phdr \<noteq> 0
                      then calculate_symbol_address m sym_entry base_addr phdr (phnum_of m ehdr) else 0)
      in if sym_addr = 0 then base_addr + st_value (ld_sym m sym_entry) else sym_addr)"

text \<open>The symbol of a jump slot: the image's own definition, else a definition in some library; 0 if none.\<close>

definition jump_slot_symbol :: "'k linker \<Rightarrow> u64 \<Rightarrow> u64 \<Rightarrow> u64 \<Rightarrow> u32 \<Rightarrow> u64 \<Rightarrow> u64 \<Rightarrow> u64 \<Rightarrow> u64" where
  "jump_slot_symbol s base_addr symtab strtab symnum ehdr phdr idx =
     (let m = lmem s;
          sym_entry = symtab + 24 * idx;
          symname = get_symbol_name strtab (st_name (ld_sym m sym_entry));
          indexed = (idx < ucast symnum \<and> symtab \<noteq> 0 \<and> strtab \<noteq> 0);
          own = (if indexed \<and> symname \<noteq> 0 \<and> st_value (ld_sym m sym_entry) \<noteq> 0
                 then own_symbol_address m sym_entry base_addr ehdr phdr else 0)
      in if own = 0 \<and> indexed \<and> symname \<noteq> 0 then resolve_symbol_global symname s else own)"

definition put64 :: "u64 \<Rightarrow> u64 \<Rightarrow> 'k linker \<Rightarrow> 'k linker" where
  "put64 addr v s = set_lmem (st64 (lmem s) addr v) s"

definition low32 :: "u64 \<Rightarrow> u64" where
  "low32 x = ucast (ucast x :: u32)"

definition process_relocation :: "u64 \<Rightarrow> u64 \<Rightarrow> u64 \<Rightarrow> u64 \<Rightarrow> u32 \<Rightarrow> u64 \<Rightarrow> u64 \<Rightarrow> u64 \<Rightarrow> 'k linker \<Rightarrow> 'k linker" where
  "process_relocation rela base_addr symtab strtab symnum got ehdr phdr s =
     (if rela = 0 then s
      else if rela < base_addr \<or> rela > base_addr + 0x200000 then
        message ''Error: rela pointer out of range: 0x%x\<newline>'' [low32 rela] s
      else
        let m = lmem s;
            r = ld_rela m rela;
            type = ELF64_R_TYPE (r_info r);
            idx = ucast (ELF64_R_SYM (r_info r)) :: u64;
            addr = reloc_target m (r_offset r) base_addr ehdr phdr
        in if addr = 0 then message ''Error: addr is NULL\<newline>'' [] s
           else if addr < base_addr \<or> addr > base_addr + 0x200000 then
             message ''Warning: relocation target address out of range: 0x%x\<newline>'' [low32 addr] s
           else if type = R_AARCH64_RELATIVE then put64 addr (base_addr + r_addend r) s
           else if type = R_AARCH64_ABS64 \<or> type = R_AARCH64_GLOB_DAT then
             (if idx < ucast symnum \<and> symtab \<noteq> 0
              then put64 addr (own_symbol_address m (symtab + 24 * idx) base_addr ehdr phdr + r_addend r) s
              else message ''Warning: invalid symbol index %d for relocation\<newline>'' [low32 idx] s)
           else if type = R_AARCH64_JUMP_SLOT then
             (let sym_addr = jump_slot_symbol s base_addr symtab strtab symnum ehdr phdr idx
              in if sym_addr \<noteq> 0 then put64 addr (sym_addr + r_addend r) s
                 else put64 addr (base_addr + r_addend r)
                   (message ''Warning: Cannot resolve symbol for JUMP_SLOT relocation at 0x%x\<newline>'' [low32 addr] s))
           else if type = R_AARCH64_NONE then s
           else put64 addr (base_addr + r_addend r)
                  (message ''Warning: unknown relocation type %d, treating as relative\<newline>'' [ucast type] s))"

text \<open>
  A table: \<open>k\<close> entries from the \<open>i\<close>-th on. \<open>check\<close> is the test before each entry, with the message
  of a failed one; a failed test ends the loop.
\<close>

primrec reloc_loop :: "(nat \<Rightarrow> u64 \<Rightarrow> (string \<times> u64 list) option) \<Rightarrow> (u64 \<Rightarrow> 'k linker \<Rightarrow> 'k linker) \<Rightarrow>
    u64 \<Rightarrow> nat \<Rightarrow> nat \<Rightarrow> 'k linker \<Rightarrow> 'k linker" where
  "reloc_loop check apply_one rela i 0 s = s"
| "reloc_loop check apply_one rela i (Suc k) s =
     (case check i (rela + 24 * of_nat i) of
        Some (fmt, args) \<Rightarrow> message fmt args s
      | None \<Rightarrow> reloc_loop check apply_one rela (Suc i) k (apply_one (rela + 24 * of_nat i) s))"

definition in_range_check :: "string \<Rightarrow> bool \<Rightarrow> u64 \<Rightarrow> u64 \<Rightarrow> nat \<Rightarrow> u64 \<Rightarrow> (string \<times> u64 list) option" where
  "in_range_check fmt with_addr lo hi i p =
     (if p < lo \<or> p > hi then Some (fmt, of_nat i # (if with_addr then [low32 p] else [])) else None)"

subsection \<open>The linker relocates itself\<close>

definition has_elf_magic :: "mem \<Rightarrow> u64 \<Rightarrow> bool" where
  "has_elf_magic m p \<longleftrightarrow> m p = 0x7f \<and> m (p + 1) = 0x45 \<and> m (p + 2) = 0x4c \<and> m (p + 3) = 0x46"

definition boot_dynamic :: "u64 \<Rightarrow> 'k linker \<Rightarrow> u64 \<times> 'k linker" where
  "boot_dynamic phdr s =
     (let m = lmem s;
          base = g_auxv_base s;
          table = phdr_table m phdr (phnum_of m base);
          flv = first_load_vaddr m phdr (phnum_of m base)
      in case find (\<lambda>p. p_type p = PT_DYNAMIC) table of
           None \<Rightarrow> (0, s)
         | Some p \<Rightarrow>
             if flv = 0 then (base + p_vaddr p, s)
             else case find (load_contains (p_vaddr p)) table of
                    Some load \<Rightarrow> (base + (p_vaddr load - flv) + (p_vaddr p - p_vaddr load), s)
                  | None \<Rightarrow> (base + (p_vaddr p - flv),
                      message ''Warning: Cannot find LOAD segment containing dynamic segment, using fallback\<newline>'' [] s))"

definition boot_table :: "mem \<Rightarrow> u64 \<Rightarrow> u64 \<Rightarrow> u64 \<Rightarrow> u64 \<Rightarrow> u64 \<Rightarrow> u64" where
  "boot_table m vaddr base phdr flv flo =
     (let a = calculate_address_from_vaddr m vaddr base phdr (phnum_of m base)
      in if a = 0 then (if flo = 0 then base + vaddr - flv else base + vaddr) else a)"

text \<open>The two tables, once the dynamic section is read. \<open>rela_count\<close> and \<open>pltrel_count\<close> are 32 bits wide.\<close>

definition boot_relocate :: "u64 \<Rightarrow> u64 \<Rightarrow> u64 \<Rightarrow> u64 \<Rightarrow> u64 \<Rightarrow> u64 \<Rightarrow> u64 \<Rightarrow> u64 \<Rightarrow> u64 \<Rightarrow> u64 \<Rightarrow> u64 \<Rightarrow> 'k linker \<Rightarrow> 'k linker" where
  "boot_relocate phdr flv flo strtab symtab rela_addr rela_size rela_ent pltrel_addr pltrel_size got_addr s =
     (let base = g_auxv_base s;
          apply_one = (\<lambda>r. process_relocation r base symtab strtab 2000 got_addr base phdr);
          s1 = (if rela_addr \<noteq> 0 \<and> rela_size \<noteq> 0 \<and> rela_ent \<noteq> 0 then
                  let rela_count = ucast (rela_size div rela_ent) :: u32
                  in reloc_loop (in_range_check ''Warning: rela[%d] address out of range: 0x%x\<newline>'' True base (base + 0x200000))
                       apply_one (boot_table (lmem s) rela_addr base phdr flv flo) 0 (unat rela_count) s
                else s)
      in if pltrel_addr \<noteq> 0 \<and> pltrel_size \<noteq> 0 \<and> rela_ent \<noteq> 0 then
           let pltrel_count = ucast (pltrel_size div rela_ent) :: u32
           in reloc_loop (\<lambda>i p. None) apply_one (boot_table (lmem s1) pltrel_addr base phdr flv flo) 0 (unat pltrel_count) s1
         else s1)"

definition bootstrap_self :: "'k linker \<Rightarrow> i32 \<times> 'k linker" where
  "bootstrap_self s =
     (if g_bootstrap_done s then (0, s)
      else if g_auxv_base s = 0 then (1, message ''Error: AT_BASE not found in auxv\<newline>'' [] s)
      else let base = g_auxv_base s; m = lmem s
      in if \<not> has_elf_magic m base then (1, message ''Error: Invalid ELF magic\<newline>'' [] s)
      else let phdr = base + e_phoff (ld_ehdr m base);
               flv = first_load_vaddr m phdr (phnum_of m base);
               flo = (case first_load m phdr (phnum_of m base) of None \<Rightarrow> 0 | Some p \<Rightarrow> p_offset p);
               (dynamic, s1) = boot_dynamic phdr s
      in if dynamic = 0 then (1, message ''Error: Dynamic segment not found\<newline>'' [] s1)
      else if dynamic < base \<or> dynamic > base + 0x1000000 then
        (1, message ''Error: Dynamic segment address out of range: 0x%x\<newline>'' [low32 dynamic] s1)
      else let (strtab_addr, s2) = get_dynamic_tag dynamic DT_STRTAB s1;
               (symtab_addr, s3) = get_dynamic_tag dynamic DT_SYMTAB s2;
               (rela_addr, s4) = get_dynamic_tag dynamic DT_RELA s3;
               (rela_size, s5) = get_dynamic_tag dynamic DT_RELASZ s4;
               (rela_ent, s6) = get_dynamic_tag dynamic DT_RELAENT s5;
               (pltrel_addr, s7) = get_dynamic_tag dynamic DT_JMPREL s6;
               (pltrel_size, s8) = get_dynamic_tag dynamic DT_PLTRELSZ s7;
               (got_addr, s9) = get_dynamic_tag dynamic DT_PLTGOT s8
      in if strtab_addr = 0 \<or> symtab_addr = 0 then
           (1, message ''Error: Missing required dynamic tags (strtab=0x%x, symtab=0x%x)\<newline>''
                 [low32 strtab_addr, low32 symtab_addr] s9)
      else let strtab = base + (strtab_addr - flv);
               symtab = base + (symtab_addr - flv);
               s10 = (if strtab < base \<or> symtab < base
                      then message ''Warning: strtab or symtab address seems invalid\<newline>'' [] s9 else s9);
               s11 = boot_relocate phdr flv flo strtab symtab rela_addr rela_size rela_ent
                       pltrel_addr pltrel_size got_addr s10
           in (0, s11\<lparr>g_bootstrap_done := True\<rparr>))"

end
