(* ===== verification/Linker_Load.thy ===== *)
theory Linker_Load
  imports Linker_Reloc "HOL-Library.Monad_Syntax"
begin

text \<open>
  Loading a shared library: \<open>load_shared_library\<close> of dynamic_linker/src/dynamic_linker.c, in the
  order of its steps: search, headers, mapping, dynamic section, registration, relocation. Files
  and mappings go through the kernel parameter, buffers come from the runtime's allocator; \<open>None\<close>
  is a call that does not return. The result is the library, or \<open>None\<close> inside for NULL.

  \<open>load_frame\<close> holds the addresses the compiler gives the local arrays (\<open>libpath\<close>, \<open>ehdr\<close>, the
  buffers of \<open>snprintf\<close>) and the literals (the format and the search path). The header read from
  the file is used as it was read; only \<open>process_relocation\<close>, which is given its address, reads it
  again. A \<open>LoadedLibrary\<close> node is 96 bytes of the heap, its fields are kept in the list.
\<close>

record load_frame =
  f_libpath :: u64
  f_ehdr :: u64
  f_format :: u64
  f_paths :: "u64 list"
  f_num_buf :: u64
  f_temp :: u64

subsection \<open>The runtime's calls on the linker's state\<close>

definition on_world :: "('k world \<Rightarrow> 'a \<times> 'k world) \<Rightarrow> 'k linker \<Rightarrow> 'a \<times> 'k linker" where
  "on_world f s = (case f (hw (lheap s)) of (r, w) \<Rightarrow> (r, s\<lparr>lheap := (lheap s)\<lparr>hw := w\<rparr>\<rparr>))"

definition alloc_in :: "'k kernel \<Rightarrow> u64 \<Rightarrow> 'k linker \<Rightarrow> (u64 \<times> 'k linker) option" where
  "alloc_in K sz s = map_option (\<lambda>(p, h). (p, s\<lparr>lheap := h\<rparr>)) (dl_malloc K sz (lheap s))"

definition release :: "u64 \<Rightarrow> 'k linker \<Rightarrow> 'k linker option" where
  "release p s = map_option (\<lambda>h. s\<lparr>lheap := h\<rparr>) (dl_free p (lheap s))"

definition shut :: "'k kernel \<Rightarrow> i32 \<Rightarrow> 'k linker \<Rightarrow> 'k linker" where
  "shut K fd s = snd (on_world (dl_close K fd) s)"

definition unmap :: "'k kernel \<Rightarrow> u64 \<Rightarrow> u64 \<Rightarrow> 'k linker \<Rightarrow> 'k linker" where
  "unmap K p n s = snd (on_world (dl_munmap K p n) s)"

subsection \<open>Search\<close>

primrec search_library :: "'k kernel \<Rightarrow> load_frame \<Rightarrow> u64 \<Rightarrow> u64 list \<Rightarrow> 'k linker \<Rightarrow> (bool \<times> 'k linker) option" where
  "search_library K F libname [] s = Some (False, s)"
| "search_library K F libname (dir # dirs) s =
     do {
       (m1, _) \<leftarrow> dl_snprintf (f_num_buf F) (f_temp F) (lmem s) (f_libpath F) 512 (f_format F) [dir, libname];
       let (fd, s2) = on_world (dl_open K (f_libpath F) 0 0) (set_lmem m1 s);
       if 0 \<le> sint fd then Some (True, shut K fd s2) else search_library K F libname dirs s2
     }"

subsection \<open>Headers\<close>

text \<open>The address of the program headers, read to the heap.\<close>

definition read_headers :: "'k kernel \<Rightarrow> load_frame \<Rightarrow> i32 \<Rightarrow> 'k linker \<Rightarrow> (u64 option \<times> 'k linker) option" where
  "read_headers K F fd s =
     (let (n, s1) = on_world (dl_read K fd (f_ehdr F) 64) s
      in if n \<noteq> 64 then Some (None, shut K fd (message ''Error: Failed to read ELF header\<newline>'' [] s1))
      else if \<not> has_elf_magic (lmem s1) (f_ehdr F) then
        Some (None, shut K fd (message ''Error: Invalid ELF magic\<newline>'' [] s1))
      else let eh = ld_ehdr (lmem s1) (f_ehdr F);
               (pos, s2) = on_world (dl_lseek K fd (ucast (e_phoff eh)) 0) s1
      in if sint pos < 0 then Some (None, shut K fd (message ''Error: Failed to seek to program header\<newline>'' [] s2))
      else let sz = ucast (e_phnum eh) * 56 :: u64
      in do {
        (phdr, s3) \<leftarrow> alloc_in K sz s2;
        if phdr = 0 then Some (None, shut K fd (message ''Error: Failed to allocate memory for program headers\<newline>'' [] s3))
        else let (n2, s4) = on_world (dl_read K fd phdr sz) s3
        in if n2 \<noteq> sz then do {
             s5 \<leftarrow> release phdr (message ''Error: Failed to read program headers\<newline>'' [] s4);
             Some (None, shut K fd s5)
           }
           else Some (Some phdr, s4)
      })"

subsection \<open>Mapping\<close>

text \<open>The end of the segment that reaches furthest, as its address and length.\<close>

definition furthest_end :: "Elf64_Phdr list \<Rightarrow> u64 \<times> u64" where
  "furthest_end ps = foldl (\<lambda>(max_vaddr, max_memsz) p.
     if p_type p = PT_LOAD \<and> p_vaddr p + p_memsz p > max_vaddr + max_memsz
     then (p_vaddr p, p_vaddr p + p_memsz p - p_vaddr p) else (max_vaddr, max_memsz)) (0, 0) ps"

definition image_size :: "mem \<Rightarrow> u64 \<Rightarrow> u16 \<Rightarrow> u64" where
  "image_size m phdr phnum =
     (case furthest_end (phdr_table m phdr phnum) of (max_vaddr, max_memsz) \<Rightarrow>
        (max_vaddr - first_load_vaddr m phdr phnum + max_memsz + 4095) div 4096 * 4096)"

definition segment_prot :: "Elf64_Phdr \<Rightarrow> i32" where
  "segment_prot p =
     (if p_flags p AND 1 \<noteq> 0 then 4 else 0) OR (if p_flags p AND 2 \<noteq> 0 then 2 else 0) OR
     (if p_flags p AND 4 \<noteq> 0 then 1 else 0)"

definition map_segment :: "'k kernel \<Rightarrow> i32 \<Rightarrow> u64 \<Rightarrow> u64 \<Rightarrow> Elf64_Phdr \<Rightarrow> 'k linker \<Rightarrow> bool \<times> 'k linker" where
  "map_segment K fd flv base p s =
     (let load_addr = base + (p_vaddr p - flv);
          aligned = load_addr AND NOT 4095;
          in_page = load_addr AND 4095;
          map_size = (p_memsz p + in_page + 4095) div 4096 * 4096;
          (mapped, s1) = on_world (dl_mmap K aligned map_size (segment_prot p) 0x12 fd (p_offset p AND NOT 4095)) s
      in (mapped = aligned, s1))"

text \<open>Segments from the \<open>i\<close>-th on; the index of the first that could not be mapped.\<close>

primrec map_segments :: "'k kernel \<Rightarrow> i32 \<Rightarrow> u64 \<Rightarrow> u64 \<Rightarrow> u64 \<Rightarrow> nat \<Rightarrow> nat \<Rightarrow> 'k linker \<Rightarrow> nat option \<times> 'k linker" where
  "map_segments K fd phdr flv base i 0 s = (None, s)"
| "map_segments K fd phdr flv base i (Suc k) s =
     (let p = ld_phdr (lmem s) (phdr + 56 * of_nat i)
      in if p_type p = PT_LOAD then
           (case map_segment K fd flv base p s of (ok, s1) \<Rightarrow>
              if ok then map_segments K fd phdr flv base (Suc i) k s1 else (Some i, s1))
         else map_segments K fd phdr flv base (Suc i) k s)"

subsection \<open>The dynamic section\<close>

definition library_dynamic :: "u64 \<Rightarrow> u16 \<Rightarrow> u64 \<Rightarrow> u64 \<Rightarrow> u64 \<Rightarrow> 'k linker \<Rightarrow> u64 \<times> 'k linker" where
  "library_dynamic phdr phnum flv base total_size s =
     (case find (\<lambda>p. p_type p = PT_DYNAMIC) (phdr_table (lmem s) phdr phnum) of
        None \<Rightarrow> (0, s)
      | Some p \<Rightarrow>
          let a = base + (p_vaddr p - flv)
          in if a < base \<or> a > base + total_size
             then (0, message ''  Error: Dynamic segment address out of range\<newline>'' [] s) else (a, s))"

subsection \<open>Relocation\<close>

text \<open>The second pass over the PLT relocations: \<open>k\<close> entries from the \<open>i\<close>-th on.\<close>

primrec fill_got :: "LoadedLibrary \<Rightarrow> u64 \<Rightarrow> u16 \<Rightarrow> u64 \<Rightarrow> nat \<Rightarrow> nat \<Rightarrow> 'k linker \<Rightarrow> 'k linker" where
  "fill_got lib phdr phnum pltrel i 0 s = s"
| "fill_got lib phdr phnum pltrel i (Suc k) s =
     (let m = lmem s;
          r = ld_rela m (pltrel + 24 * of_nat i);
          idx = ucast (ELF64_R_SYM (r_info r)) :: u64;
          s1 = (if idx < ucast (lib_symnum lib) \<and> lib_symtab lib \<noteq> 0 \<and> lib_strtab lib \<noteq> 0 then
                  let sym_entry = lib_symtab lib + 24 * idx;
                      a = calculate_symbol_address m sym_entry (lib_base_addr lib) phdr phnum;
                      sym_addr = (if a = 0 then lib_base_addr lib + st_value (ld_sym m sym_entry) else a);
                      got_entry = calculate_address_from_vaddr m (r_offset r) (lib_base_addr lib) phdr phnum
                  in if got_entry \<noteq> 0 then put64 got_entry (sym_addr + r_addend r) s else s
                else s)
      in fill_got lib phdr phnum pltrel (Suc i) k s1)"

definition relocate_plt :: "load_frame \<Rightarrow> LoadedLibrary \<Rightarrow> u64 \<Rightarrow> u16 \<Rightarrow> u64 \<Rightarrow> u64 \<Rightarrow> u64 \<Rightarrow> 'k linker \<Rightarrow> 'k linker" where
  "relocate_plt F lib phdr phnum flv total_size rela_ent s =
     (let m = lmem s;
          base = lib_base_addr lib;
          pltrel_addr = get_dynamic_tag_unsafe m (lib_dynamic lib) DT_JMPREL;
          pltrel_size = get_dynamic_tag_unsafe m (lib_dynamic lib) DT_PLTRELSZ;
          got_addr = get_dynamic_tag_unsafe m (lib_dynamic lib) DT_PLTGOT
      in if pltrel_addr \<noteq> 0 \<and> pltrel_size \<noteq> 0 \<and> rela_ent \<noteq> 0 then
           let pltrel_count = unat (ucast (pltrel_size div rela_ent) :: u32);
               a = calculate_address_from_vaddr m pltrel_addr base phdr phnum;
               pltrel = (if a = 0 then base + (pltrel_addr - flv) else a);
               g = calculate_address_from_vaddr m got_addr base phdr phnum;
               got = (if got_addr = 0 then 0 else if g = 0 then base + (got_addr - flv) else g);
               s1 = reloc_loop (in_range_check ''  Warning: pltrel[%d] address out of range\<newline>'' False base (base + total_size))
                      (\<lambda>r. process_relocation r base (lib_symtab lib) (lib_strtab lib) (lib_symnum lib) got (f_ehdr F) phdr)
                      pltrel 0 pltrel_count s
           in fill_got lib phdr phnum pltrel 0 pltrel_count s1
         else message ''  No PLT relocations found\<newline>'' [] s)"

text \<open>\<open>node\<close> is the address of the library's node; it and the rest are given back when the table's
  address cannot be translated.\<close>

definition relocate_library :: "'k kernel \<Rightarrow> load_frame \<Rightarrow> u64 \<Rightarrow> LoadedLibrary \<Rightarrow> u64 \<Rightarrow> u16 \<Rightarrow> u64 \<Rightarrow> u64 \<Rightarrow>
    'k linker \<Rightarrow> (LoadedLibrary option \<times> 'k linker) option" where
  "relocate_library K F node lib phdr phnum flv total_size s =
     (let m = lmem s;
          base = lib_base_addr lib;
          rela_addr = get_dynamic_tag_unsafe m (lib_dynamic lib) DT_RELA;
          rela_size = get_dynamic_tag_unsafe m (lib_dynamic lib) DT_RELASZ;
          rela_ent = get_dynamic_tag_unsafe m (lib_dynamic lib) DT_RELAENT;
          rela = calculate_address_from_vaddr m rela_addr base phdr phnum
      in if rela_addr \<noteq> 0 \<and> rela_size \<noteq> 0 \<and> rela_ent \<noteq> 0 then
           if rela = 0 then do {
             let s1 = message ''Error: Failed to calculate rela address\<newline>'' [] s;
             let s2 = s1\<lparr>g_loaded_libraries := tl (g_loaded_libraries s1)\<rparr>;
             s3 \<leftarrow> (if lib_path lib \<noteq> 0 then release (lib_path lib) s2 else Some s2);
             s4 \<leftarrow> release node s3;
             s5 \<leftarrow> release phdr (unmap K base total_size s4);
             Some (None, s5)
           }
           else let rela_count = unat (ucast (rela_size div rela_ent) :: u32);
                    s1 = reloc_loop (in_range_check ''  Warning: rela[%d] address out of range\<newline>'' False base (base + total_size))
                           (\<lambda>r. process_relocation r base (lib_symtab lib) (lib_strtab lib) (lib_symnum lib) 0 (f_ehdr F) phdr)
                           rela 0 rela_count s
                in Some (Some lib, relocate_plt F lib phdr phnum flv total_size rela_ent s1)
         else Some (Some lib, relocate_plt F lib phdr phnum flv total_size rela_ent s))"

subsection \<open>Registration\<close>

definition new_library :: "mem \<Rightarrow> u64 \<Rightarrow> u64 \<Rightarrow> u64 \<Rightarrow> u64 \<Rightarrow> u64 \<Rightarrow> u64 \<Rightarrow> u64 \<Rightarrow> LoadedLibrary" where
  "new_library m path phdr flv base dynamic strtab_addr symtab_addr =
     \<lparr>lib_path = path, lib_base_addr = base, lib_ehdr = base, lib_phdr = phdr, lib_dynamic = dynamic,
       lib_strtab = (if strtab_addr \<noteq> 0 then base + (strtab_addr - flv) else 0),
       lib_symtab = (if symtab_addr \<noteq> 0 then base + (symtab_addr - flv) else 0),
       lib_symnum = 1000, lib_init = get_dynamic_tag_unsafe m dynamic DT_INIT,
       lib_init_array = get_dynamic_tag_unsafe m dynamic DT_INIT_ARRAY,
       lib_init_array_size = get_dynamic_tag_unsafe m dynamic DT_INIT_ARRAYSZ\<rparr>"

definition register_library :: "'k kernel \<Rightarrow> load_frame \<Rightarrow> u64 \<Rightarrow> u16 \<Rightarrow> u64 \<Rightarrow> u64 \<Rightarrow> u64 \<Rightarrow> u64 \<Rightarrow>
    'k linker \<Rightarrow> (LoadedLibrary option \<times> 'k linker) option" where
  "register_library K F phdr phnum flv base total_size dynamic s =
     (let strtab_addr = get_dynamic_tag_unsafe (lmem s) dynamic DT_STRTAB;
          symtab_addr = get_dynamic_tag_unsafe (lmem s) dynamic DT_SYMTAB
      in do {
        (node, s1) \<leftarrow> alloc_in K 96 s;
        if node = 0 then do {
          let s2 = unmap K base total_size (message ''Error: Failed to allocate memory for LoadedLibrary\<newline>'' [] s1);
          s3 \<leftarrow> release phdr s2;
          Some (None, s3)
        }
        else do {
          len \<leftarrow> dl_strlen (lmem s1) (f_libpath F);
          (path, s2) \<leftarrow> alloc_in K (len + 1) s1;
          let s3 = (if path \<noteq> 0 then set_lmem (fst (dl_memcpy (lmem s2) path (f_libpath F) (len + 1))) s2 else s2);
          let lib = new_library (lmem s3) path phdr flv base dynamic strtab_addr symtab_addr;
          relocate_library K F node lib phdr phnum flv total_size
            (s3\<lparr>g_loaded_libraries := lib # g_loaded_libraries s3\<rparr>)
        }
      })"

definition map_library :: "'k kernel \<Rightarrow> load_frame \<Rightarrow> i32 \<Rightarrow> u64 \<Rightarrow> 'k linker \<Rightarrow> (LoadedLibrary option \<times> 'k linker) option" where
  "map_library K F fd phdr s =
     (let phnum = e_phnum (ld_ehdr (lmem s) (f_ehdr F));
          flv = first_load_vaddr (lmem s) phdr phnum;
          total_size = image_size (lmem s) phdr phnum;
          (base, s1) = on_world (dl_mmap K 0 total_size 0 0x22 (- 1) 0) s
      in if base = MAP_FAILED \<or> base = 0 then do {
           s2 \<leftarrow> release phdr (message ''Error: Failed to allocate memory for library\<newline>'' [] s1);
           Some (None, shut K fd s2)
         }
         else case map_segments K fd phdr flv base 0 (unat phnum) s1 of
           (Some i, s2) \<Rightarrow> do {
             s3 \<leftarrow> release phdr (unmap K base total_size (message ''Error: Failed to map LOAD segment %d\<newline>'' [of_nat i] s2));
             Some (None, shut K fd s3)
           }
         | (None, s2) \<Rightarrow>
             (case library_dynamic phdr phnum flv base total_size (shut K fd s2) of (dynamic, s3) \<Rightarrow>
                if dynamic = 0 then do {
                  s4 \<leftarrow> release phdr (unmap K base total_size (message ''Error: Dynamic segment not found\<newline>'' [] s3));
                  Some (None, s4)
                }
                else register_library K F phdr phnum flv base total_size dynamic s3))"

definition load_shared_library :: "'k kernel \<Rightarrow> load_frame \<Rightarrow> u64 \<Rightarrow> 'k linker \<Rightarrow> (LoadedLibrary option \<times> 'k linker) option" where
  "load_shared_library K F libname s =
     (if libname = 0 then Some (None, message ''Error: Library name is NULL\<newline>'' [] s)
      else do {
        existing \<leftarrow> find_loaded_library libname s;
        case existing of
          Some lib \<Rightarrow> Some (Some lib, message ''Library %s already loaded\<newline>'' [libname] s)
        | None \<Rightarrow> do {
            (found, s1) \<leftarrow> search_library K F libname (f_paths F) s;
            if \<not> found then Some (None, message ''Error: Cannot find library %s\<newline>'' [libname] s1)
            else let (fd, s2) = on_world (dl_open K (f_libpath F) 0 0) s1
            in if sint fd < 0 then Some (None, message ''Error: Failed to open library %s\<newline>'' [f_libpath F] s2)
               else do {
                 (phdr, s3) \<leftarrow> read_headers K F fd s2;
                 case phdr of None \<Rightarrow> Some (None, s3) | Some p \<Rightarrow> map_library K F fd p s3
               }
          }
      })"

end
