(* ===== verification/Linker_Main.thy ===== *)
theory Linker_Main
  imports Linker_Load
begin

text \<open>
  The linker's \<open>main\<close> (dynamic_linker/src/dynamic_linker.c): it reads the initial stack, relocates
  itself, loads what the executable needs, binds the executable's PLT, runs the initialisers and
  enters the program. Code of the libraries and of the program is not part of the repository:
  \<open>call\<close> and \<open>call_main\<close> are what calling it does, \<open>None\<close> when it does not return. \<open>main\<close> either
  returns a code or leaves through the entry point with the stack pointer it was given, aligned.

  The executable is described by \<open>exec_base\<close> (its header, 64 bytes before the program headers) and
  the auxiliary vector's program header address and count, which the translations take as 16 bits.
\<close>

datatype main_outcome = Exits i32 | Enters u64 u64

subsection \<open>The executable's dynamic section\<close>

text \<open>
  \<open>for (uint16_t i = 0; i < g_auxv_phnum; i++)\<close>: the counter has 16 bits, the bound 64. \<open>Some None\<close>
  is the error return, \<open>Some (Some 0)\<close> an executable without the section.
\<close>

definition exec_addr :: "u64 \<Rightarrow> 'k linker \<Rightarrow> u64" where
  "exec_addr vaddr s = calculate_address_from_vaddr (lmem s) vaddr (g_auxv_phdr s - 64) (g_auxv_phdr s) (ucast (g_auxv_phnum s))"

partial_function (option) exec_dynamic_loop :: "'k linker \<Rightarrow> u16 \<Rightarrow> u64 option option" where
  "exec_dynamic_loop s i =
     (if ucast i < g_auxv_phnum s then
        let p = ld_phdr (lmem s) (g_auxv_phdr s + 56 * ucast i)
        in if p_type p = PT_DYNAMIC
           then Some (if exec_addr (p_vaddr p) s = 0 then None else Some (exec_addr (p_vaddr p) s))
           else exec_dynamic_loop s (i + 1)
      else Some (Some 0))"

text \<open>The last value of a tag before the end of the section, \<open>acc\<close> if there is none.\<close>

primrec last_tag :: "mem \<Rightarrow> u64 \<Rightarrow> i64 \<Rightarrow> u64 \<Rightarrow> nat \<Rightarrow> u64" where
  "last_tag m d tag acc 0 = acc"
| "last_tag m d tag acc (Suc k) =
     (if d_tag (ld_dyn m d) = DT_NULL then acc
      else last_tag m (d + 16) tag (if d_tag (ld_dyn m d) = tag then d_val (ld_dyn m d) else acc) k)"

text \<open>An address of the executable's tables, or the link-time address itself when it cannot be translated.\<close>

definition exec_table :: "u64 \<Rightarrow> 'k linker \<Rightarrow> u64" where
  "exec_table vaddr s = (if exec_addr vaddr s = 0 then vaddr else exec_addr vaddr s)"

subsection \<open>Needed libraries\<close>

text \<open>\<open>k\<close> entries are left, \<open>d\<close> is the next one; \<open>False\<close> is the error return.\<close>

primrec load_needed :: "'k kernel \<Rightarrow> load_frame \<Rightarrow> u64 \<Rightarrow> u64 \<Rightarrow> nat \<Rightarrow> 'k linker \<Rightarrow> (bool \<times> 'k linker) option" where
  "load_needed K F exec_dynamic d 0 s = Some (True, s)"
| "load_needed K F exec_dynamic d (Suc k) s =
     (let e = ld_dyn (lmem s) d
      in if d_tag e = DT_NULL then Some (True, s)
         else if d_tag e = DT_NEEDED then
           let strtab_addr = get_dynamic_tag_unsafe_loop (lmem s) exec_dynamic DT_STRTAB 1000
           in if strtab_addr \<noteq> 0 then
                let libname = exec_table strtab_addr s + d_val e
                in do {
                  (lib, s1) \<leftarrow> load_shared_library K F libname s;
                  case lib of
                    None \<Rightarrow> Some (False, message ''  Error: Failed to load library %s\<newline>'' [libname] s1)
                  | Some _ \<Rightarrow> load_needed K F exec_dynamic (d + 16) k s1
                }
              else load_needed K F exec_dynamic (d + 16) k s
         else load_needed K F exec_dynamic (d + 16) k s)"

subsection \<open>Binding the executable's PLT\<close>

text \<open>Entries from the \<open>i\<close>-th on, \<open>k\<close> of them (at most 28 in all).\<close>

primrec bind_plt :: "u64 \<Rightarrow> u64 \<Rightarrow> u64 \<Rightarrow> nat \<Rightarrow> nat \<Rightarrow> 'k linker \<Rightarrow> 'k linker" where
  "bind_plt symtab strtab pltrel i 0 s = s"
| "bind_plt symtab strtab pltrel i (Suc k) s =
     (let m = lmem s;
          r = ld_rela m (pltrel + 24 * of_nat i);
          idx = ucast (ELF64_R_SYM (r_info r)) :: u64;
          name_off = st_name (ld_sym m (symtab + 24 * idx));
          bound = resolve_symbol_global (strtab + ucast name_off) s;
          got_entry = exec_addr (r_offset r) s
      in bind_plt symtab strtab pltrel (Suc i) k
           (if ELF64_R_TYPE (r_info r) = R_AARCH64_JUMP_SLOT \<and> 0 < idx \<and> idx < 100000 \<and> 0 < name_off \<and> name_off < 100000
               \<and> bound \<noteq> 0 \<and> got_entry \<noteq> 0
            then put64 got_entry bound s else s))"

text \<open>\<open>False\<close> is the error return for a misaligned table.\<close>

definition bind_executable :: "u64 \<Rightarrow> 'k linker \<Rightarrow> bool \<times> 'k linker" where
  "bind_executable exec_dynamic s =
     (let tag = (\<lambda>t. last_tag (lmem s) exec_dynamic t 0 1000);
          rela_ent = last_tag (lmem s) exec_dynamic DT_RELAENT 24 1000
      in if exec_dynamic = 0 then (True, s)
         else if tag DT_JMPREL \<noteq> 0 \<and> tag DT_PLTRELSZ \<noteq> 0 \<and> tag DT_PLTGOT \<noteq> 0 \<and>
           tag DT_STRTAB \<noteq> 0 \<and> tag DT_SYMTAB \<noteq> 0 \<and> rela_ent \<noteq> 0 then
           let strtab = exec_table (tag DT_STRTAB) s;
               symtab = exec_table (tag DT_SYMTAB) s;
               pltrel = exec_table (tag DT_JMPREL) s;
               pltrel_count = unat (ucast (tag DT_PLTRELSZ div rela_ent) :: u32)
           in if pltrel mod 8 \<noteq> 0
              then (False, message ''  ERROR: pltrel address 0x%x is not 8-byte aligned\<newline>'' [low32 pltrel] s)
              else (True, bind_plt symtab strtab pltrel 0 (min pltrel_count 28) s)
         else (True, s))"

subsection \<open>Initialisers\<close>

definition lib_address :: "mem \<Rightarrow> LoadedLibrary \<Rightarrow> u64 \<Rightarrow> u64" where
  "lib_address m lib vaddr =
     (let a = (if lib_phdr lib \<noteq> 0 \<and> lib_ehdr lib \<noteq> 0
               then calculate_address_from_vaddr m vaddr (lib_base_addr lib) (lib_phdr lib) (phnum_of m (lib_ehdr lib)) else 0)
      in if a = 0 then lib_base_addr lib + vaddr else a)"

primrec run_init_array :: "(u64 \<Rightarrow> 'k linker \<Rightarrow> 'k linker option) \<Rightarrow> LoadedLibrary \<Rightarrow> nat \<Rightarrow> nat \<Rightarrow> 'k linker \<Rightarrow> 'k linker option" where
  "run_init_array call lib i 0 s = Some s"
| "run_init_array call lib i (Suc k) s =
     (let entry = lib_init_array lib + of_nat i * 8;
          func_addr = ld64 (lmem s) (lib_address (lmem s) lib entry);
          actual = lib_address (lmem s) lib func_addr
      in do {
        s1 \<leftarrow> (if func_addr \<noteq> 0 \<and> actual \<noteq> 0 then call actual s else Some s);
        run_init_array call lib (Suc i) k s1
      })"

definition run_init :: "(u64 \<Rightarrow> 'k linker \<Rightarrow> 'k linker option) \<Rightarrow> LoadedLibrary \<Rightarrow> 'k linker \<Rightarrow> 'k linker option" where
  "run_init call lib s =
     do {
       s1 \<leftarrow> (if lib_init lib \<noteq> 0 then
                let init_addr = lib_address (lmem s) lib (lib_init lib)
                in if init_addr \<noteq> 0 then call init_addr s
                   else Some (message ''  Warning: Cannot calculate init function address\<newline>'' [] s)
              else Some s);
       if lib_init_array lib \<noteq> 0 \<and> 0 < lib_init_array_size lib
       then run_init_array call lib 0 (unat (ucast (lib_init_array_size lib div 8) :: u32)) s1
       else Some s1
     }"

primrec run_inits :: "(u64 \<Rightarrow> 'k linker \<Rightarrow> 'k linker option) \<Rightarrow> LoadedLibrary list \<Rightarrow> 'k linker \<Rightarrow> 'k linker option" where
  "run_inits call [] s = Some s"
| "run_inits call (lib # libs) s = Option.bind (run_init call lib s) (run_inits call libs)"

subsection \<open>Finding the program's main\<close>

definition named_main :: "mem \<Rightarrow> u64 \<Rightarrow> u64 \<Rightarrow> bool" where
  "named_main m strtab entry \<longleftrightarrow>
     (let off = st_name (ld_sym m entry); name = strtab + ucast off
      in off \<noteq> 0 \<and> name \<noteq> 0 \<and> m name = 109 \<and> m (name + 1) = 97 \<and> m (name + 2) = 105 \<and> m (name + 3) = 110 \<and> m (name + 4) = 0)"

definition find_main :: "u64 \<Rightarrow> 'k linker \<Rightarrow> u64" where
  "find_main exec_dynamic s =
     (let strtab_addr = last_tag (lmem s) exec_dynamic DT_STRTAB 0 1000;
          symtab_addr = last_tag (lmem s) exec_dynamic DT_SYMTAB 0 1000
      in if exec_dynamic \<noteq> 0 \<and> strtab_addr \<noteq> 0 \<and> symtab_addr \<noteq> 0 then
           (case find (named_main (lmem s) (exec_table strtab_addr s)) (map (sym_at (exec_table symtab_addr s)) [0..<5000]) of
              None \<Rightarrow> 0 | Some entry \<Rightarrow> exec_addr (st_value (ld_sym (lmem s) entry)) s)
         else 0)"

subsection \<open>main\<close>

definition enter_program :: "(u64 \<Rightarrow> i32 \<Rightarrow> u64 \<Rightarrow> 'k linker \<Rightarrow> (i32 \<times> 'k linker) option) \<Rightarrow> u64 \<Rightarrow> u64 \<Rightarrow> i32 \<Rightarrow> u64 \<Rightarrow>
    'k linker \<Rightarrow> (main_outcome \<times> 'k linker) option" where
  "enter_program call_main stack_pointer exec_dynamic argc argv s =
     (let exec_main = find_main exec_dynamic s
      in if exec_main \<noteq> 0 then map_option (\<lambda>(rc, s1). (Exits rc, s1)) (call_main exec_main argc argv s)
         else if exec_addr (g_auxv_entry s) s = 0
         then Some (Exits 1, message ''Error: Failed to calculate entry point address\<newline>'' [] s)
         else Some (Enters (exec_addr (g_auxv_entry s) s) (stack_pointer AND NOT 15), s))"

definition linker_main :: "'k kernel \<Rightarrow> load_frame \<Rightarrow> (u64 \<Rightarrow> 'k linker \<Rightarrow> 'k linker option) \<Rightarrow>
    (u64 \<Rightarrow> i32 \<Rightarrow> u64 \<Rightarrow> 'k linker \<Rightarrow> (i32 \<times> 'k linker) option) \<Rightarrow> u64 \<Rightarrow> 'k linker \<Rightarrow> (main_outcome \<times> 'k linker) option" where
  "linker_main K F call call_main stack_pointer s0 =
     do {
       (argc, argv, envp, auxv) \<leftarrow> parse_stack (lmem s0) stack_pointer;
       s1 \<leftarrow> parse_auxv auxv (s0\<lparr>g_environ := envp\<rparr>);
       let (rc, s2) = bootstrap_self s1;
       if rc \<noteq> 0 then Some (Exits 1, message ''Error: Bootstrap failed!\<newline>'' [] s2)
       else
         let exec_phdr = g_auxv_phdr s2;
             exec_ehdr = exec_phdr - 64;
             s3 = message ''exec_ehdr: 0x%x\<newline>'' [exec_ehdr] (message ''exec_phdr: 0x%x\<newline>'' [exec_phdr] s2)
         in if \<not> has_elf_magic (lmem s3) exec_ehdr then Some (Exits 1, message ''Error: Invalid ELF header\<newline>'' [] s3)
         else do {
           found \<leftarrow> exec_dynamic_loop s3 0;
           case found of
             None \<Rightarrow> Some (Exits 1, message ''Error: Failed to calculate dynamic segment address\<newline>'' [] s3)
           | Some exec_dynamic \<Rightarrow> do {
               let s4 = (if exec_dynamic \<noteq> 0 then message ''exec_dynamic: 0x%x\<newline>'' [exec_dynamic] s3 else s3);
               (ok, s5) \<leftarrow> load_needed K F exec_dynamic exec_dynamic 1000 s4;
               if \<not> ok then Some (Exits 1, s5)
               else case bind_executable exec_dynamic s5 of
                 (False, s6) \<Rightarrow> Some (Exits 1, s6)
               | (True, s6) \<Rightarrow> do {
                   s7 \<leftarrow> run_inits call (g_loaded_libraries s6) s6;
                   enter_program call_main stack_pointer exec_dynamic argc argv s7
                 }
             }
         }
     }"

end
