(* ===== verification/Linker_Symbols_Claims.thy ===== *)
theory Linker_Symbols_Claims
  imports Linker_Symbols
begin

text \<open>The properties of address translation, dynamic tags and symbol resolution, with a small image
  they are applied to.\<close>

subsection \<open>A small image\<close>

text \<open>One loadable segment at 0x1000 (link-time 0, 0x2000 bytes), its header table at 0x1040.\<close>

definition demo_phdr :: Elf64_Phdr where
  "demo_phdr = \<lparr>p_type = PT_LOAD, p_flags = 6, p_offset = 0, p_vaddr = 0, p_paddr = 0, p_filesz = 0x2000,
     p_memsz = 0x2000, p_align = 4096\<rparr>"

text \<open>The dynamic section at 0x1100 with its string and symbol tables, the strings at 0x2000 (an
  empty name and \<open>foo\<close>), and two symbols at 0x2100, the second with name \<open>foo\<close> and value \<open>v\<close>.\<close>

definition demo_sym :: "u64 \<Rightarrow> Elf64_Sym" where
  "demo_sym v = \<lparr>st_name = 1, st_info = 0x12, st_other = 0, st_shndx = (if v = 0 then 0 else 5), st_value = v, st_size = 8\<rparr>"

definition null_sym :: Elf64_Sym where
  "null_sym = \<lparr>st_name = 0, st_info = 0, st_other = 0, st_shndx = 0, st_value = 0, st_size = 0\<rparr>"

definition demo_image :: "u64 \<Rightarrow> mem" where
  "demo_image v =
     write_bytes (write_bytes (write_bytes (st64 (st64 (st64 (st64 (\<lambda>_. 0) 0x1100 5) 0x1108 0x1000) 0x1110 6) 0x1118 0x1100)
       0x1040 (phdr_bytes demo_phdr)) 0x2000 [0, 102, 111, 111, 0])
       0x2100 (sym_bytes null_sym @ sym_bytes (demo_sym v))"

lemma sym_bytes_length [simp]: "length (sym_bytes s) = 24"
  by (simp add: sym_bytes_def)

lemma phdr_bytes_length [simp]: "length (phdr_bytes s) = 56"
  by (simp add: phdr_bytes_def)

lemma ld64_write_apart: "apart q (length bs) p 8 \<Longrightarrow> length bs \<le> 2 ^ 64 \<Longrightarrow> ld64 (write_bytes m q bs) p = ld64 m p"
  by (simp add: ld64_def bytes_at_write_apart del: bytes_at.simps)

lemma demo_syms:
  "ld_sym (demo_image v) 0x2100 = null_sym" "ld_sym (demo_image v) 0x2118 = demo_sym v"
proof -
  have b: "bytes_at (demo_image v) 0x2100 (length (sym_bytes null_sym @ sym_bytes (demo_sym v)))
      = sym_bytes null_sym @ sym_bytes (demo_sym v)"
    unfolding demo_image_def by (rule bytes_at_write_same) simp_all
  show "ld_sym (demo_image v) 0x2100 = null_sym"
    by (rule ld_sym_bytes) (use bytes_at_block [OF b, of 0 24] in simp)
  show "ld_sym (demo_image v) 0x2118 = demo_sym v"
    by (rule ld_sym_bytes) (use bytes_at_block [OF b, of 24 24] in simp)
qed

lemma demo_name: "cstr (demo_image v) 0x2001 [102, 111, 111]"
proof -
  have "write_bytes m 0x2000 [0, 102, 111, 111, 0] = (write_bytes (m(0x2000 := 0)) 0x2001 ([102, 111, 111] @ [0 :: u8]))" for m :: mem
    by simp
  moreover have "cstr (write_bytes m 0x2001 ([102, 111, 111] @ [0 :: u8])) 0x2001 [102, 111, 111]" for m :: mem
    by (rule cstr_write_same) simp_all
  ultimately show ?thesis
    unfolding demo_image_def by (subst cstr_write_apart) (simp_all only: apart_def, simp_all)
qed

lemma demo_table: "phdr_table (demo_image v) 0x1040 1 = [demo_phdr]"
proof -
  have "bytes_at (demo_image v) 0x1040 56 = phdr_bytes demo_phdr"
    unfolding demo_image_def
    by (subst bytes_at_write_apart, simp_all add: apart_def del: bytes_at.simps write_bytes.simps(2))
      (subst bytes_at_write_apart, simp_all add: apart_def bytes_at_write_same del: bytes_at.simps write_bytes.simps(2))
  then show ?thesis by (simp add: phdr_table_def ld_phdr_bytes)
qed

lemma demo_dyn: "dyn_at (demo_image v) 0x1100 [(5, 0x1000), (6, 0x1100)]"
proof -
  have l: "ld64 (demo_image v) p = ld64 (st64 (st64 (st64 (st64 (\<lambda>_. 0) 0x1100 5) 0x1108 0x1000) 0x1110 6) 0x1118 0x1100) p"
    if "p \<in> {0x1100, 0x1108, 0x1110, 0x1118, 0x1120}" for p
    using that unfolding demo_image_def by (auto simp: ld64_write_apart apart_def simp del: write_bytes.simps(2))
  have z: "ld64 (\<lambda>_. 0) p = 0" for p by (simp add: ld64_def bytes_at_numeral)
  show ?thesis by (simp add: ld_dyn_def l ld_st_apart apart_def z)
qed

text \<open>A library over that image: two symbols, the second named \<open>foo\<close>.\<close>

definition demo_lib :: LoadedLibrary where
  "demo_lib = \<lparr>lib_path = 0, lib_base_addr = 0x1000, lib_ehdr = 0x1000, lib_phdr = 0x1040, lib_dynamic = 0x1100,
     lib_strtab = 0x2000, lib_symtab = 0x2100, lib_symnum = 2, lib_init = 0, lib_init_array = 0, lib_init_array_size = 0\<rparr>"

lemma demo_sym_names: "sym_names (demo_image v) demo_lib [None, Some [102, 111, 111]]"
  using demo_syms [of v] demo_name [of v]
  by (simp add: sym_names_def demo_lib_def sym_at_def null_sym_def demo_sym_def Let_def All_less_Suc del: cstr.simps)

lemma demo_lookup: "lookup_name [None, Some [102, 111, 111]] [102, 111, 111] = Some 1"
  by (simp add: lookup_name_def)

subsection \<open>Header tables\<close>

lemma first_load_index:
  assumes "phdr_table m phdr phnum = ps" and "f < length ps" and "p_type (ps ! f) = PT_LOAD"
    and "\<forall>i < f. p_type (ps ! i) \<noteq> PT_LOAD"
  shows "first_load m phdr phnum = Some (ps ! f)"
  using assms by (auto simp: first_load_def find_Some_iff)

text \<open>Where the end of a segment does not wrap around, the test on words is the test on numbers.\<close>

lemma load_contains_nat:
  assumes "unat (p_vaddr p) + unat (p_memsz p) < 2 ^ 64"
  shows "load_contains v p \<longleftrightarrow>
    p_type p = PT_LOAD \<and> unat (p_vaddr p) \<le> unat v \<and> unat v < unat (p_vaddr p) + unat (p_memsz p)"
  using assms by (simp add: load_contains_def word_le_nat_alt word_less_nat_alt unat_add_lem [THEN iffD1])

subsection \<open>Properties\<close>

text \<open>C18. Address translation follows the layout of the image. Let \<open>ps\<close> be the program headers in
  memory, \<open>f\<close> the first loadable one, and no segment wrap around the address space. A link-time address
  \<open>v\<close> that lies, as a number, from the start of a loadable segment to before its end is translated to
  the load address plus its distance from the start of segment \<open>f\<close>; any other address gives 0. The
  variant of dynamic_linker_new.c, given that start, and the one for symbols, applied to the symbol's
  value, compute the same.\<close>

theorem address_translation:
  assumes "phdr \<noteq> 0" and "length ps = unat phnum" and "\<forall>i < length ps. ld_phdr m (phdr + 56 * of_nat i) = ps ! i"
    and "f < length ps" and "p_type (ps ! f) = PT_LOAD" and "\<forall>i < f. p_type (ps ! i) \<noteq> PT_LOAD"
    and "\<forall>p \<in> set ps. unat (p_vaddr p) + unat (p_memsz p) < 2 ^ 64"
  shows "calculate_address_from_vaddr m v base phdr phnum =
      (if \<exists>p \<in> set ps. p_type p = PT_LOAD \<and> unat (p_vaddr p) \<le> unat v \<and> unat v < unat (p_vaddr p) + unat (p_memsz p)
       then base + (v - p_vaddr (ps ! f)) else 0) \<and>
    calculate_address_from_vaddr_ex m v base (p_vaddr (ps ! f)) phdr phnum = calculate_address_from_vaddr m v base phdr phnum \<and>
    (entry \<noteq> 0 \<and> st_value (ld_sym m entry) = v \<longrightarrow>
       calculate_symbol_address m entry base phdr phnum = calculate_address_from_vaddr m v base phdr phnum)"
proof -
  have t: "phdr_table m phdr phnum = ps"
    by (rule nth_equalityI) (use assms(2,3) in \<open>simp_all add: phdr_table_def\<close>)
  have flv: "first_load_vaddr m phdr phnum = p_vaddr (ps ! f)"
    using first_load_index [OF t assms(4)] assms(5,6) by (simp add: first_load_vaddr_def)
  have "in_image m phdr phnum v \<longleftrightarrow>
      (\<exists>p \<in> set ps. p_type p = PT_LOAD \<and> unat (p_vaddr p) \<le> unat v \<and> unat v < unat (p_vaddr p) + unat (p_memsz p))"
    unfolding in_image_def t using assms(1,7) load_contains_nat by auto
  moreover have "calculate_symbol_address m entry base phdr phnum = calculate_address_from_vaddr m v base phdr phnum"
    if "entry \<noteq> 0 \<and> st_value (ld_sym m entry) = v"
    using that translate_symbol_eq by blast
  ultimately show ?thesis unfolding translate_eq translate_ex_eq flv by presburger
qed

theorem address_translation_witness:
  "calculate_address_from_vaddr (demo_image 8) 0x1FFF 0x1000 0x1040 1 = 0x2FFF \<and>
   calculate_address_from_vaddr (demo_image 8) 0x2000 0x1000 0x1040 1 = 0"
proof -
  have h: "\<forall>i < length [demo_phdr]. ld_phdr (demo_image 8) (0x1040 + 56 * of_nat i) = [demo_phdr] ! i"
    using demo_table [of 8] by (simp add: phdr_table_def)
  note t = address_translation [OF _ _ h, of 1 0, where base = "0x1000" and entry = 0]
  show ?thesis using t [of "0x1FFF"] t [of "0x2000"] by (simp add: demo_phdr_def)
qed

text \<open>Both searches of the dynamic section always return, with the value of the first of its first
  thousand entries that has the tag, or 0; the checked one needs the section to lie within the two
  megabytes above the load address, and then agrees.\<close>

theorem dynamic_tag_found:
  assumes "dyn_at (lmem s) d es" and "d \<noteq> 0"
    and "unat (g_auxv_base s) + 0x200000 < 2 ^ 64" and "unat (g_auxv_base s) \<le> unat d"
    and "unat d + 16 * Suc (length es) \<le> unat (g_auxv_base s) + 0x200000"
  shows "get_dynamic_tag_unsafe (lmem s) d tag = dyn_lookup (take 1000 es) tag \<and>
    get_dynamic_tag d tag s = (dyn_lookup (take 1000 es) tag, s)"
proof -
  have "\<not> d < g_auxv_base s" "\<not> g_auxv_base s + 0x200000 < d"
    by (rule dyn_range_step [of "g_auxv_base s" d 0]; use assms in simp)+
  then show ?thesis
    using dyn_unsafe_eq [OF assms(1)] dyn_checked_eq [OF assms(1,3,4,5)] assms(2)
    by (simp add: get_dynamic_tag_unsafe_def get_dynamic_tag_def del: get_dynamic_tag_loop.simps get_dynamic_tag_unsafe_loop.simps)
qed

theorem dynamic_tag_found_witness:
  "get_dynamic_tag 0x1100 6 ((demo_linker (demo_image 8))\<lparr>g_auxv_base := 0x1000\<rparr>)
     = (0x1100, (demo_linker (demo_image 8))\<lparr>g_auxv_base := 0x1000\<rparr>)"
proof -
  define s where "s = (demo_linker (demo_image 8))\<lparr>g_auxv_base := 0x1000\<rparr>"
  have "lmem s = demo_image 8" "g_auxv_base s = 0x1000" by (simp_all add: s_def lmem_def demo_linker_def)
  then show ?thesis
    using dynamic_tag_found [of s "0x1100" "[(5, 0x1000), (6, 0x1100)]" 6] demo_dyn [of 8]
    by (simp add: s_def [symmetric] dyn_lookup_def)
qed

text \<open>C17. Global resolution searches the libraries newest first and each symbol table from its start,
  and answers with the run-time address of the first symbol whose name agrees with the wanted one on
  the first 256 bytes, or 0 when no library has it.\<close>

theorem resolve_finds_first:
  assumes "list_all2 (sym_names (lmem s)) (g_loaded_libraries s) nss" and "cstr (lmem s) name xs" and "name \<noteq> 0"
  shows "resolve_symbol_global name s = lookup_libs (lmem s) xs (zip (g_loaded_libraries s) nss)"
  using resolve_in_eq [OF assms(2,3,1)] assms(3) by (simp add: resolve_symbol_global_def)

theorem resolve_finds_first_witness:
  "resolve_symbol_global 0x2001 ((demo_linker (demo_image 8))\<lparr>g_loaded_libraries := [demo_lib]\<rparr>)
     = symbol_address (demo_image 8) demo_lib 1"
proof -
  define s where "s = (demo_linker (demo_image 8))\<lparr>g_loaded_libraries := [demo_lib]\<rparr>"
  have "lmem s = demo_image 8" "g_loaded_libraries s = [demo_lib]" by (simp_all add: s_def lmem_def demo_linker_def)
  then show ?thesis
    using resolve_finds_first [of s "[[None, Some [102, 111, 111]]]" "0x2001" "[102, 111, 111]"]
      demo_sym_names [of 8] demo_name [of 8] demo_lookup
    by (simp add: s_def [symmetric] del: cstr.simps)
qed

text \<open>The search does not ask whether a symbol is defined: when the newest library merely imports
  the name (an undefined entry of value 0), resolution stops there and answers with that library's
  load address, wherever else the symbol is defined.\<close>

theorem resolve_takes_undefined:
  assumes "g_loaded_libraries s = lib # libs" and "sym_names (lmem s) lib ns" and "list_all2 (sym_names (lmem s)) libs nss"
    and "cstr (lmem s) name xs" and "name \<noteq> 0" and "lookup_name ns xs = Some i"
    and "st_value (ld_sym (lmem s) (sym_at (lib_symtab lib) i)) = 0"
    and "first_load_vaddr (lmem s) (lib_phdr lib) (ld16 (lmem s) (lib_ehdr lib + 56)) = 0"
  shows "resolve_symbol_global name s = lib_base_addr lib"
  using resolve_in_eq [OF assms(4,5), of "lib # libs" "ns # nss"] assms
  by (simp add: resolve_symbol_global_def symbol_address_def Let_def)

theorem resolve_takes_undefined_witness:
  "resolve_symbol_global 0x2001 ((demo_linker (demo_image 0))\<lparr>g_loaded_libraries := [demo_lib, demo_lib]\<rparr>) = 0x1000"
proof -
  define s where "s = (demo_linker (demo_image 0))\<lparr>g_loaded_libraries := [demo_lib, demo_lib]\<rparr>"
  have m: "lmem s = demo_image 0" "g_loaded_libraries s = [demo_lib, demo_lib]" by (simp_all add: s_def lmem_def demo_linker_def)
  have "ld16 (demo_image 0) (lib_ehdr demo_lib + 56) = 0"
  proof -
    have "bytes_at (demo_image 0) 0x1038 2 = [0, 0]"
      by (simp add: bytes_at_numeral demo_image_def write_bytes_apply st64_other in_region_def)
    then show ?thesis by (simp add: ld16_def demo_lib_def)
  qed
  then have f: "first_load_vaddr (demo_image 0) (lib_phdr demo_lib) (ld16 (demo_image 0) (lib_ehdr demo_lib + 56)) = 0"
    by (simp add: first_load_vaddr_def first_load_def phdr_table_def)
  have v: "st_value (ld_sym (demo_image 0) (sym_at (lib_symtab demo_lib) 1)) = 0"
    using demo_syms(2) [of 0] by (simp add: demo_lib_def sym_at_def demo_sym_def)
  have "resolve_symbol_global 0x2001 s = lib_base_addr demo_lib"
    by (rule resolve_takes_undefined [of s demo_lib "[demo_lib]" "[None, Some [102, 111, 111]]" "[[None, Some [102, 111, 111]]]"
        "0x2001" "[102, 111, 111]" 1])
      (simp_all add: m demo_sym_names demo_name demo_lookup v [unfolded One_nat_def] f del: cstr.simps)
  then show ?thesis by (simp add: s_def demo_lib_def)
qed

end
