(* ===== verification/Linker_Reloc_Claims.thy ===== *)
theory Linker_Reloc_Claims
  imports Linker_Reloc Linker_Symbols_Claims
begin

text \<open>
  What relocation may touch, and what a table of relocations does: every write of
  \<open>process_relocation\<close> stays within the two megabytes above the load address, and a table of
  relative relocations leaves, at each target, the load address plus the addend.
\<close>

subsection \<open>Containment\<close>

text \<open>Only memory of the image at \<open>base\<close>, and the messages, may differ.\<close>

definition only_image :: "u64 \<Rightarrow> 'k linker \<Rightarrow> 'k linker \<Rightarrow> bool" where
  "only_image base s s' \<longleftrightarrow> s' = set_lmem (lmem s') (s\<lparr>messages := messages s'\<rparr>) \<and>
     (\<forall>a. lmem s' a \<noteq> lmem s a \<longrightarrow> in_region base 0x200008 a)"

lemma only_image_refl [simp]: "only_image base s s"
  by (simp add: only_image_def set_lmem_def lmem_def)

lemma only_image_message [simp]: "only_image base s (message fmt args s)"
  by (simp add: only_image_def set_lmem_def lmem_def message_def)

lemma only_image_trans:
  assumes "only_image base s t" and "only_image base t u"
  shows "only_image base s u"
proof -
  have "u = set_lmem (lmem u) (t\<lparr>messages := messages u\<rparr>)" "t = set_lmem (lmem t) (s\<lparr>messages := messages t\<rparr>)"
    using assms by (simp_all add: only_image_def)
  then have "u = set_lmem (lmem u) ((set_lmem (lmem t) (s\<lparr>messages := messages t\<rparr>))\<lparr>messages := messages u\<rparr>)" by metis
  then have "u = set_lmem (lmem u) (s\<lparr>messages := messages u\<rparr>)" by (simp add: set_lmem_def)
  then show ?thesis using assms unfolding only_image_def by metis
qed

lemma target_in_image:
  fixes base addr a :: u64
  assumes "\<not> addr < base" and "\<not> base + 0x200000 < addr" and "in_region addr 8 a"
  shows "in_region base 0x200008 a"
proof -
  have b: "unat base \<le> unat addr" using assms(1) by (simp add: word_less_nat_alt)
  have "unat addr \<le> unat (base + 0x200000)" using assms(2) by (simp add: word_less_nat_alt)
  also have "\<dots> \<le> unat base + 0x200000" using unat_add_le [of base "0x200000"] by simp
  finally have "unat (addr - base) \<le> 0x200000" using b by (simp add: unat_diff_circ)
  moreover have "unat (a - base) \<le> unat (a - addr) + unat (addr - base)"
    using unat_add_le [of "a - addr" "addr - base"] by simp
  ultimately show ?thesis using assms(3) by (simp add: in_region_def)
qed

lemma only_image_put64:
  assumes "\<not> addr < base" and "\<not> base + 0x200000 < addr"
  shows "only_image base s (put64 addr v s)"
  using target_in_image [OF assms] st64_other [of addr _ "lmem s" v]
  by (auto simp: only_image_def put64_def) 

lemma only_image_process:
  "only_image base s (process_relocation rela base symtab strtab symnum got ehdr phdr s)"
proof -
  have put_msg: "only_image base s (put64 addr v (message fmt args s))"
    if "\<not> addr < base" "\<not> base + 0x200000 < addr" for addr v fmt args
    using only_image_trans [OF only_image_message only_image_put64 [OF that]] .
  show ?thesis
    by (auto simp: process_relocation_def Let_def only_image_put64 put_msg)
qed

lemma only_image_loop:
  "(\<And>r s. only_image base s (f r s)) \<Longrightarrow> only_image base s (reloc_loop check f rela i k s)"
proof (induction k arbitrary: i s)
  case (Suc k)
  have "only_image base s (reloc_loop check f rela (Suc i) k (f (rela + 24 * of_nat i) s))"
    by (rule only_image_trans [OF Suc.prems Suc.IH [OF Suc.prems]])
  then show ?case by (auto split: option.splits)
qed simp

lemma only_image_boot_relocate:
  "only_image (g_auxv_base s) s (boot_relocate phdr flv flo strtab symtab ra rs re pa ps ga s)"
proof -
  let ?loop = "\<lambda>check. reloc_loop check (\<lambda>r. process_relocation r (g_auxv_base s) symtab strtab 2000 ga (g_auxv_base s) phdr)"
  have loop: "only_image (g_auxv_base s) t (?loop check tab i k t)" for check tab i k t
    by (rule only_image_loop) (rule only_image_process)
  show ?thesis
    unfolding boot_relocate_def Let_def
    by (auto intro: loop only_image_trans [OF loop loop])
qed

lemma only_image_tag: "get_dynamic_tag d tag s = (v, s') \<Longrightarrow> only_image base s s'"
  by (auto simp: get_dynamic_tag_def split: if_splits)

lemma only_image_boot_dynamic: "boot_dynamic phdr s = (d, s') \<Longrightarrow> only_image base s s'"
  by (auto simp: boot_dynamic_def Let_def split: option.splits if_splits)

lemma only_image_fields:
  "only_image base s s' \<Longrightarrow> g_auxv_base s' = g_auxv_base s \<and> g_bootstrap_done s' = g_bootstrap_done s \<and>
   g_loaded_libraries s' = g_loaded_libraries s"
proof -
  assume "only_image base s s'"
  then have eq: "s' = set_lmem (lmem s') (s\<lparr>messages := messages s'\<rparr>)" by (simp add: only_image_def)
  show ?thesis by (intro conjI; subst eq; simp add: set_lmem_def)
qed


text \<open>Reading the dynamic section only adds messages.\<close>

definition only_messages :: "'k linker \<Rightarrow> 'k linker \<Rightarrow> bool" where
  "only_messages s s' \<longleftrightarrow> s' = s\<lparr>messages := messages s'\<rparr>"

lemma only_messages_refl [simp]: "only_messages s s"
  by (simp add: only_messages_def)

lemma only_messages_message [simp]: "only_messages s (message fmt args s)"
  by (simp add: only_messages_def message_def)

lemma only_messages_trans: "only_messages s t \<Longrightarrow> only_messages t u \<Longrightarrow> only_messages s u"
  unfolding only_messages_def by (metis linker.surjective linker.update_convs(13))

lemma only_messages_tag: "get_dynamic_tag d tag s = (v, s') \<Longrightarrow> only_messages s s'"
  by (auto simp: get_dynamic_tag_def split: if_splits)

lemma only_messages_boot_dynamic: "boot_dynamic phdr s = (d, s') \<Longrightarrow> only_messages s s'"
  by (auto simp: boot_dynamic_def Let_def split: option.splits if_splits)

lemma only_messages_image: "only_messages s s' \<Longrightarrow> only_image base s s' \<and> lmem s' = lmem s"
proof -
  assume "only_messages s s'"
  then have eq: "s' = s\<lparr>messages := messages s'\<rparr>" by (simp add: only_messages_def)
  have "lmem s' = lmem s" by (subst eq) (simp add: lmem_def)
  moreover from this eq have "s' = set_lmem (lmem s') (s\<lparr>messages := messages s'\<rparr>)"
    by (simp add: set_lmem_def lmem_def)
  ultimately show ?thesis by (simp add: only_image_def)
qed

text \<open>The part of \<open>bootstrap_self\<close> behind its tests.\<close>

lemma bootstrap_cases:
  assumes "bootstrap_self s = (r, s')" and "\<not> g_bootstrap_done s"
  shows "(r = 1 \<and> only_messages s s') \<or>
    (\<exists>t u phdr flv flo st sy ra rs re pa ps ga. r = 0 \<and> only_messages s t \<and>
       u = boot_relocate phdr flv flo st sy ra rs re pa ps ga t \<and> s' = u\<lparr>g_bootstrap_done := True\<rparr>)"
proof -
  let ?base = "g_auxv_base s"
  let ?phdr = "?base + e_phoff (ld_ehdr (lmem s) ?base)"
  obtain d s1 where d: "boot_dynamic ?phdr s = (d, s1)" by fastforce
  obtain v2 s2 where t2: "get_dynamic_tag d 5 s1 = (v2, s2)" by fastforce
  obtain v3 s3 where t3: "get_dynamic_tag d 6 s2 = (v3, s3)" by fastforce
  obtain v4 s4 where t4: "get_dynamic_tag d 7 s3 = (v4, s4)" by fastforce
  obtain v5 s5 where t5: "get_dynamic_tag d 8 s4 = (v5, s5)" by fastforce
  obtain v6 s6 where t6: "get_dynamic_tag d 9 s5 = (v6, s6)" by fastforce
  obtain v7 s7 where t7: "get_dynamic_tag d 23 s6 = (v7, s7)" by fastforce
  obtain v8 s8 where t8: "get_dynamic_tag d 2 s7 = (v8, s8)" by fastforce
  obtain v9 s9 where t9: "get_dynamic_tag d 3 s8 = (v9, s9)" by fastforce
  have m1: "only_messages s s1" by (rule only_messages_boot_dynamic [OF d])
  note T = only_messages_trans
  have m9: "only_messages s s9"
    by (rule T [OF T [OF T [OF T [OF T [OF T [OF T [OF T [OF m1 only_messages_tag [OF t2]] only_messages_tag [OF t3]] only_messages_tag [OF t4]] only_messages_tag [OF t5]] only_messages_tag [OF t6]] only_messages_tag [OF t7]] only_messages_tag [OF t8]] only_messages_tag [OF t9]])
  have msg: "only_messages s (message fmt args t)" if "only_messages s t" for fmt args t
    using that only_messages_trans only_messages_message by blast
  let ?flv = "first_load_vaddr (lmem s) ?phdr (phnum_of (lmem s) ?base)"
  let ?flo = "case first_load (lmem s) ?phdr (phnum_of (lmem s) ?base) of None \<Rightarrow> 0 | Some p \<Rightarrow> p_offset p"
  define t where "t = (if ?base + (v2 - ?flv) < ?base \<or> ?base + (v3 - ?flv) < ?base
    then message ''Warning: strtab or symtab address seems invalid\<newline>'' [] s9 else s9)"
  let ?run = "(boot_relocate ?phdr ?flv ?flo (?base + (v2 - ?flv)) (?base + (v3 - ?flv)) v4 v5 v6 v7 v8 v9 t)\<lparr>g_bootstrap_done := True\<rparr>"
  have eq: "bootstrap_self s =
    (if ?base = 0 then (1, message ''Error: AT_BASE not found in auxv\<newline>'' [] s)
     else if \<not> has_elf_magic (lmem s) ?base then (1, message ''Error: Invalid ELF magic\<newline>'' [] s)
     else if d = 0 then (1, message ''Error: Dynamic segment not found\<newline>'' [] s1)
     else if d < ?base \<or> ?base + 0x1000000 < d then
       (1, message ''Error: Dynamic segment address out of range: 0x%x\<newline>'' [low32 d] s1)
     else if v2 = 0 \<or> v3 = 0 then
       (1, message ''Error: Missing required dynamic tags (strtab=0x%x, symtab=0x%x)\<newline>'' [low32 v2, low32 v3] s9)
     else (0, ?run))"
    unfolding bootstrap_self_def Let_def d t2 t3 t4 t5 t6 t7 t8 t9 prod.case t_def by (simp add: assms(2))
  show ?thesis
  proof (cases "?base = 0 \<or> \<not> has_elf_magic (lmem s) ?base \<or> d = 0 \<or> d < ?base \<or> ?base + 0x1000000 < d \<or> v2 = 0 \<or> v3 = 0")
    case True
    then have "r = 1 \<and> only_messages s s'"
      using assms(1) unfolding eq by (simp only: split: if_splits) (auto intro: msg m1 m9 only_messages_message)
    then show ?thesis by blast
  next
    case False
    then have "r = 0 \<and> s' = ?run" using assms(1) unfolding eq by simp
    moreover have "only_messages s t" using m9 msg by (simp add: t_def)
    ultimately show ?thesis by blast
  qed
qed

lemma same_done: "g_bootstrap_done u = b \<Longrightarrow> u\<lparr>g_bootstrap_done := b\<rparr> = u"
  by (cases u) simp

subsection \<open>A table of relative relocations\<close>

lemma same_block:
  assumes "bytes_at m' p N = bytes_at m p N" and "i + n \<le> N"
  shows "bytes_at m' (p + of_nat i) n = bytes_at m (p + of_nat i) n"
  using bytes_at_block [of m' p "bytes_at m p N" i n] bytes_at_block [of m p "bytes_at m p N" i n] assms by simp

lemma same_rela:
  assumes "bytes_at m' p (24 * N) = bytes_at m p (24 * N)" and "i < N"
  shows "ld_rela m' (p + 24 * of_nat i) = ld_rela m (p + 24 * of_nat i)"
proof -
  have "ld64 m' (p + of_nat (24 * i + j)) = ld64 m (p + of_nat (24 * i + j))" if "j + 8 \<le> 24" for j
    using same_block [OF assms(1), of "24 * i + j" 8] assms(2) that by (simp add: ld64_def)
  from this [of 0] this [of 8] this [of 16] show ?thesis by (simp add: ld_rela_def algebra_simps)
qed

lemma same_phdr:
  assumes "bytes_at m' p (56 * N) = bytes_at m p (56 * N)" and "i < N"
  shows "ld_phdr m' (p + 56 * of_nat i) = ld_phdr m (p + 56 * of_nat i)"
proof -
  have b: "bytes_at m' (p + of_nat (56 * i + j)) n = bytes_at m (p + of_nat (56 * i + j)) n" if "j + n \<le> 56" for j n
    using same_block [OF assms(1), of "56 * i + j" n] assms(2) that by simp
  show ?thesis
    using b [of 0 4] b [of 4 4] b [of 8 8] b [of 16 8] b [of 24 8] b [of 32 8] b [of 40 8] b [of 48 8]
    by (simp add: ld_phdr_def ld64_def ld32_def algebra_simps)
qed

lemma phdr_table_cong:
  "bytes_at m' p (56 * unat n) = bytes_at m p (56 * unat n) \<Longrightarrow> phdr_table m' p n = phdr_table m p n"
  using same_phdr [of m' p "unat n" m] by (simp add: phdr_table_def)

text \<open>The bytes that decide where a relocation writes: the table itself and the image's headers.\<close>

definition same_tables :: "u64 \<Rightarrow> nat \<Rightarrow> u64 \<Rightarrow> u64 \<Rightarrow> nat \<Rightarrow> mem \<Rightarrow> mem \<Rightarrow> bool" where
  "same_tables rela N ehdr phdr n m m' \<longleftrightarrow>
     bytes_at m' rela (24 * N) = bytes_at m rela (24 * N) \<and>
     bytes_at m' phdr (56 * n) = bytes_at m phdr (56 * n) \<and> bytes_at m' (ehdr + 56) 2 = bytes_at m (ehdr + 56) 2"

lemma same_tables_refl [simp]: "same_tables rela N ehdr phdr n m m"
  by (simp add: same_tables_def)

definition apart_tables :: "u64 \<Rightarrow> nat \<Rightarrow> u64 \<Rightarrow> u64 \<Rightarrow> nat \<Rightarrow> u64 \<Rightarrow> bool" where
  "apart_tables rela N ehdr phdr n t \<longleftrightarrow>
     apart t 8 rela (24 * N) \<and> apart t 8 phdr (56 * n) \<and> apart t 8 (ehdr + 56) 2"

lemma same_tables_st64:
  assumes "same_tables rela N ehdr phdr n m m'" and "apart_tables rela N ehdr phdr n t"
    and "24 * N \<le> 2 ^ 64" and "56 * n \<le> 2 ^ 64"
  shows "same_tables rela N ehdr phdr n m (st64 m' t v)"
  using assms by (simp add: same_tables_def apart_tables_def st64_def bytes_at_write_apart del: to_le.simps bytes_at.simps)

lemma same_tables_target:
  assumes "same_tables rela N ehdr phdr (unat (phnum_of m ehdr)) m m'"
  shows "reloc_target m' off base ehdr phdr = reloc_target m off base ehdr phdr"
proof -
  have "phnum_of m' ehdr = phnum_of m ehdr"
    using assms by (simp add: same_tables_def phnum_of_def ld_ehdr_def ld16_def)
  moreover have "phdr_table m' phdr (phnum_of m ehdr) = phdr_table m phdr (phnum_of m ehdr)"
    using assms by (intro phdr_table_cong) (simp add: same_tables_def)
  moreover from this have "first_load_vaddr m' phdr (phnum_of m ehdr) = first_load_vaddr m phdr (phnum_of m ehdr)"
    by (simp add: first_load_vaddr_def first_load_def)
  ultimately show ?thesis
    by (simp only: reloc_target_def calculate_address_from_vaddr_def Let_def)
qed

lemma process_relative:
  assumes "rela \<noteq> 0" and "\<not> rela < base" and "\<not> base + 0x200000 < rela"
    and "ELF64_R_TYPE (r_info (ld_rela (lmem s) rela)) = R_AARCH64_RELATIVE"
    and "reloc_target (lmem s) (r_offset (ld_rela (lmem s) rela)) base ehdr phdr = t"
    and "t \<noteq> 0" and "\<not> t < base" and "\<not> base + 0x200000 < t"
  shows "process_relocation rela base symtab strtab n got ehdr phdr s = put64 t (base + r_addend (ld_rela (lmem s) rela)) s"
  using assms by (simp add: process_relocation_def Let_def)

lemma relative_loop:
  assumes rel: "\<And>j. j < N \<Longrightarrow> ELF64_R_TYPE (r_info (ld_rela m (rela + 24 * of_nat j))) = R_AARCH64_RELATIVE"
    and pos: "\<And>j. j < N \<Longrightarrow> rela + 24 * of_nat j \<noteq> 0 \<and> \<not> rela + 24 * of_nat j < base \<and> \<not> base + 0x200000 < rela + 24 * of_nat j"
    and tgt: "\<And>j. j < N \<Longrightarrow> t j = reloc_target m (r_offset (ld_rela m (rela + 24 * of_nat j))) base ehdr phdr \<and>
      t j \<noteq> 0 \<and> \<not> t j < base \<and> \<not> base + 0x200000 < t j"
    and ap: "\<And>j. j < N \<Longrightarrow> apart_tables rela N ehdr phdr (unat (phnum_of m ehdr)) (t j)"
    and len: "24 * N \<le> 2 ^ 64"
  shows "i + k = N \<Longrightarrow> same_tables rela N ehdr phdr (unat (phnum_of m ehdr)) m (lmem s) \<Longrightarrow>
    reloc_loop (in_range_check fmt b base (base + 0x200000)) (\<lambda>r. process_relocation r base symtab strtab n got ehdr phdr)
      rela i k s
    = set_lmem (fold (\<lambda>j m'. st64 m' (t j) (base + r_addend (ld_rela m (rela + 24 * of_nat j)))) [i..<N] (lmem s)) s"
proof (induction k arbitrary: i s)
  case 0
  then show ?case by simp
next
  case (Suc k)
  let ?r = "ld_rela m (rela + 24 * of_nat i)"
  have i: "i < N" using Suc.prems(1) by simp
  have same: "ld_rela (lmem s) (rela + 24 * of_nat i) = ?r"
    using Suc.prems(2) by (intro same_rela [OF _ i]) (simp add: same_tables_def)
  let ?s1 = "put64 (t i) (base + r_addend ?r) s"
  have one: "process_relocation (rela + 24 * of_nat i) base symtab strtab n got ehdr phdr s = ?s1"
    using process_relative [of "rela + 24 * of_nat i" base s ehdr phdr "t i"] rel [OF i] pos [OF i] tgt [OF i]
    unfolding same same_tables_target [OF Suc.prems(2)] by metis
  have n: "56 * unat (phnum_of m ehdr) \<le> 2 ^ 64" using unat_less_2p [of "phnum_of m ehdr"] by simp
  have "same_tables rela N ehdr phdr (unat (phnum_of m ehdr)) m (lmem ?s1)"
    using same_tables_st64 [OF Suc.prems(2) ap [OF i] len n] by (simp add: put64_def)
  then have "reloc_loop (in_range_check fmt b base (base + 0x200000)) (\<lambda>r. process_relocation r base symtab strtab n got ehdr phdr)
      rela (Suc i) k ?s1
    = set_lmem (fold (\<lambda>j m'. st64 m' (t j) (base + r_addend (ld_rela m (rela + 24 * of_nat j)))) [Suc i..<N] (lmem ?s1)) ?s1"
    by (intro Suc.IH) (use Suc.prems(1) in simp_all)
  moreover have "in_range_check fmt b base (base + 0x200000) i (rela + 24 * of_nat i) = None"
    using pos [OF i] by (simp add: in_range_check_def)
  ultimately show ?case using i one by (simp add: upt_conv_Cons put64_def)
qed

lemma fold_stores_other:
  "\<forall>j \<in> set js. \<not> in_region (t j) 8 a \<Longrightarrow> fold (\<lambda>j m. st64 m (t j) (v j)) js m a = m a"
  by (induction js arbitrary: m) (simp_all add: st64_other)

lemma fold_stores_keep:
  "\<forall>j \<in> set js. apart (t j) 8 a 8 \<Longrightarrow> ld64 (fold (\<lambda>j m. st64 m (t j) (v j)) js m) a = ld64 m a"
  by (induction js arbitrary: m) (simp_all add: ld_st_apart)

lemma fold_stores_read:
  assumes "sorted_wrt (\<lambda>j k. apart (t j) 8 (t k) 8) js" and "j \<in> set js"
  shows "ld64 (fold (\<lambda>j m. st64 m (t j) (v j)) js m) (t j) = v j"
  using assms
proof (induction js arbitrary: m)
  case (Cons k ks)
  show ?case
  proof (cases "j \<in> set ks")
    case True
    then show ?thesis using Cons by simp
  next
    case False
    then have "j = k" using Cons.prems(2) by simp
    then show ?thesis
      using Cons.prems(1) fold_stores_keep [of ks t "t k"] by (simp add: apart_sym [of _ _ "t k"])
  qed
qed simp

subsection \<open>Properties\<close>

text \<open>C15. A table of relative relocations, run the way \<open>bootstrap_self\<close> and \<open>load_shared_library\<close> run
  it, writes at every target the load address plus the addend, and changes nothing else: neither
  another byte nor another part of the state. The entries and targets must lie within the two
  megabytes above the load address, and no target may overlap the table, the program headers or
  another target.\<close>

theorem relative_table_applied:
  assumes "\<And>j. j < N \<Longrightarrow> ELF64_R_TYPE (r_info (ld_rela (lmem s) (rela + 24 * of_nat j))) = R_AARCH64_RELATIVE"
    and "\<And>j. j < N \<Longrightarrow> rela + 24 * of_nat j \<noteq> 0 \<and> \<not> rela + 24 * of_nat j < base \<and> \<not> base + 0x200000 < rela + 24 * of_nat j"
    and "\<And>j. j < N \<Longrightarrow> t j = reloc_target (lmem s) (r_offset (ld_rela (lmem s) (rela + 24 * of_nat j))) base ehdr phdr \<and>
      t j \<noteq> 0 \<and> \<not> t j < base \<and> \<not> base + 0x200000 < t j"
    and "\<And>j. j < N \<Longrightarrow> apart_tables rela N ehdr phdr (unat (phnum_of (lmem s) ehdr)) (t j)"
    and "24 * N \<le> 2 ^ 64" and "sorted_wrt (\<lambda>j k. apart (t j) 8 (t k) 8) [0..<N]"
  shows "\<exists>m'. reloc_loop (in_range_check fmt b base (base + 0x200000))
      (\<lambda>r. process_relocation r base symtab strtab n got ehdr phdr) rela 0 N s = set_lmem m' s \<and>
    (\<forall>j < N. ld64 m' (t j) = base + r_addend (ld_rela (lmem s) (rela + 24 * of_nat j))) \<and>
    (\<forall>a. (\<forall>j < N. \<not> in_region (t j) 8 a) \<longrightarrow> m' a = lmem s a)"
proof -
  let ?v = "\<lambda>j. base + r_addend (ld_rela (lmem s) (rela + 24 * of_nat j))"
  let ?m = "fold (\<lambda>j m'. st64 m' (t j) (?v j)) [0..<N] (lmem s)"
  have "reloc_loop (in_range_check fmt b base (base + 0x200000))
      (\<lambda>r. process_relocation r base symtab strtab n got ehdr phdr) rela 0 N s = set_lmem ?m s"
    by (rule relative_loop [OF assms(1-5)]) simp_all
  moreover have "ld64 ?m (t j) = ?v j" if "j < N" for j
    using fold_stores_read [OF assms(6), of j ?v] that by simp
  moreover have "?m a = lmem s a" if "\<forall>j < N. \<not> in_region (t j) 8 a" for a
    using fold_stores_other [of "[0..<N]" t a] that by simp
  ultimately show ?thesis by blast
qed

text \<open>One entry at 0x2200 of the small image: relocate the word at link-time address 0x1800.\<close>

definition demo_rela :: Elf64_Rela where
  "demo_rela = \<lparr>r_offset = 0x1800, r_info = ELF64_R_INFO 0 1027, r_addend = 0x20\<rparr>"

definition demo_self :: "unit linker" where
  "demo_self = demo_linker (write_bytes (demo_image 8) 0x2200 (rela_bytes demo_rela))"

theorem relative_table_applied_witness:
  "ld64 (lmem (reloc_loop (in_range_check ''out of range'' True 0x1000 (0x1000 + 0x200000))
     (\<lambda>r. process_relocation r 0x1000 0x2100 0x2000 2000 0 0 0x1040) 0x2200 0 1 demo_self)) 0x2800 = 0x1020"
proof -
  have l: "length (rela_bytes demo_rela) = 24" by (simp add: rela_bytes_def)
  have "ld_rela (lmem demo_self) 0x2200 = demo_rela"
    by (rule ld_rela_bytes) (simp add: demo_self_def demo_linker_def lmem_def bytes_at_write_same l)
  moreover have "ELF64_R_TYPE (ELF64_R_INFO 0 1027) = R_AARCH64_RELATIVE" by (simp add: r_info_type)
  moreover have "phnum_of (lmem demo_self) 0 = 0"
    by (simp add: phnum_of_def ld_ehdr_def ld16_def bytes_at_numeral demo_self_def demo_linker_def lmem_def
      demo_image_def write_bytes_apply l st64_other in_region_def)
  ultimately show ?thesis
    using relative_table_applied [of 1 demo_self "0x2200" "0x1000" "\<lambda>_. 0x2800" 0 "0x1040" "''out of range''" True "0x2100" "0x2000" 2000 0]
    by (auto simp: demo_rela_def reloc_target_def apart_tables_def apart_def simp del: reloc_loop.simps)
qed

text \<open>C16. Whatever the image holds, \<open>bootstrap_self\<close> returns, with 0 and the flag set or with 1 and
  memory untouched; every byte it changes lies in the two megabytes above the load address, and the
  other globals, the library list included, stay as they were.\<close>

theorem bootstrap_contained:
  assumes "bootstrap_self s = (r, s')"
  shows "(if r = 0 then g_bootstrap_done s' else r = 1 \<and> g_bootstrap_done s' = g_bootstrap_done s \<and> lmem s' = lmem s) \<and>
    only_image (g_auxv_base s) s (s'\<lparr>g_bootstrap_done := g_bootstrap_done s\<rparr>)"
proof (cases "g_bootstrap_done s")
  case True
  with assms have "r = 0" "s' = s" by (auto simp: bootstrap_self_def)
  moreover have "s\<lparr>g_bootstrap_done := g_bootstrap_done s\<rparr> = s" by simp
  ultimately show ?thesis using True by (simp only: if_True only_image_refl simp_thms)
next
  case False
  consider (fail) "r = 1" "only_messages s s'"
    | (ok) t u phdr flv flo st sy ra rs re pa ps ga where "r = 0" "only_messages s t"
        "u = boot_relocate phdr flv flo st sy ra rs re pa ps ga t" "s' = u\<lparr>g_bootstrap_done := True\<rparr>"
    using bootstrap_cases [OF assms False] by blast
  then show ?thesis
  proof cases
    case fail
    note i = only_messages_image [OF fail(2), of "g_auxv_base s"]
    then have g: "g_bootstrap_done s' = g_bootstrap_done s" using only_image_fields by blast
    then have e: "s'\<lparr>g_bootstrap_done := g_bootstrap_done s\<rparr> = s'" by (rule same_done)
    show ?thesis unfolding e using fail(1) i g by simp
  next
    case ok
    have t: "only_image (g_auxv_base s) s t" using only_messages_image [OF ok(2)] by blast
    have b: "g_auxv_base t = g_auxv_base s" using only_image_fields [OF t] by blast
    have "only_image (g_auxv_base s) s u"
      using only_image_trans [OF t] only_image_boot_relocate [of t] unfolding ok(3) b by blast
    moreover from this have e: "u\<lparr>g_bootstrap_done := g_bootstrap_done s\<rparr> = u"
      using only_image_fields by (intro same_done) blast
    ultimately show ?thesis using ok(1) unfolding ok(4) by simp
  qed
qed

theorem bootstrap_contained_witness:
  "fst (bootstrap_self (demo_linker (demo_image 8))) = 1 \<and>
   lmem (snd (bootstrap_self (demo_linker (demo_image 8)))) = demo_image 8"
proof -
  define s where "s = demo_linker (demo_image 8)"
  have "g_auxv_base s = 0" "\<not> g_bootstrap_done s" "lmem s = demo_image 8"
    by (simp_all add: s_def demo_linker_def lmem_def)
  then have "fst (bootstrap_self s) = 1" by (simp add: bootstrap_self_def)
  then obtain s' where e: "bootstrap_self s = (1, s')" by (cases "bootstrap_self s") simp
  then show ?thesis
    using bootstrap_contained [OF e] \<open>lmem s = demo_image 8\<close> by (simp add: s_def [symmetric])
qed

end
