(* ===== verification/Linker_Load_Claims.thy ===== *)
theory Linker_Load_Claims
  imports Linker_Load Linker_Reloc_Claims DlMalloc_Equiv
begin

text \<open>
  What loading does to the linker's list of libraries, on every path and every error; and two things
  it does not do: recognise a library it has loaded before, and keep what the relocation of an
  imported function has written.
\<close>

named_theorems same_list \<open>operations that leave the list of loaded libraries alone\<close>

lemma on_world_list [same_list]: "g_loaded_libraries (snd (on_world f s)) = g_loaded_libraries s"
  by (simp add: on_world_def split: prod.splits)

lemma shut_list [same_list]: "g_loaded_libraries (shut K fd s) = g_loaded_libraries s"
  "g_loaded_libraries (unmap K p n s) = g_loaded_libraries s"
  by (simp_all add: shut_def unmap_def on_world_list)

lemma alloc_list: "alloc_in K n s = Some (p, s') \<Longrightarrow> g_loaded_libraries s' = g_loaded_libraries s"
  by (auto simp: alloc_in_def)

lemma release_list: "release p s = Some s' \<Longrightarrow> g_loaded_libraries s' = g_loaded_libraries s"
  by (auto simp: release_def)

lemma process_list: "g_loaded_libraries (process_relocation r base symtab strtab n got ehdr phdr s) = g_loaded_libraries s"
  using only_image_fields [OF only_image_process] by blast

lemma loop_list [same_list]:
  "g_loaded_libraries (reloc_loop check (\<lambda>r. process_relocation r base symtab strtab n got ehdr phdr) t i k s)
   = g_loaded_libraries s"
  by (induction k arbitrary: i s) (auto simp: process_list split: option.splits)

lemma fill_got_list [same_list]: "g_loaded_libraries (fill_got lib phdr phnum t i k s) = g_loaded_libraries s"
  by (induction k arbitrary: i s) (simp_all add: Let_def put64_def)

lemma plt_list [same_list]: "g_loaded_libraries (relocate_plt F lib phdr phnum flv n re s) = g_loaded_libraries s"
  by (simp add: relocate_plt_def Let_def same_list)

lemma map_segments_list: "g_loaded_libraries (snd (map_segments K fd phdr flv base i k s)) = g_loaded_libraries s"
proof (induction k arbitrary: i s)
  case (Suc k)
  have "g_loaded_libraries (snd (map_segment K fd flv base p s)) = g_loaded_libraries s" for p
    by (simp add: map_segment_def Let_def split_beta on_world_list)
  then show ?case using Suc by (simp add: Let_def split_beta)
qed simp

lemma library_dynamic_list: "g_loaded_libraries (snd (library_dynamic phdr phnum flv base n s)) = g_loaded_libraries s"
  by (simp add: library_dynamic_def Let_def split: option.splits)

lemma search_list: "search_library K F name dirs s = Some (b, s') \<Longrightarrow> g_loaded_libraries s' = g_loaded_libraries s"
proof (induction dirs arbitrary: s)
  case (Cons d ds)
  from Cons.prems obtain m1 r where
    "(let (fd, s2) = on_world (dl_open K (f_libpath F) 0 0) (set_lmem m1 s)
      in if 0 \<le> sint fd then Some (True, shut K fd s2) else search_library K F name ds s2) = Some (b, s')"
    by (auto simp: bind_eq_Some_conv)
  then show ?case
    using Cons.IH on_world_list [of "dl_open K (f_libpath F) 0 0" "set_lmem m1 s"]
    by (auto simp: split_beta Let_def same_list split: if_splits)
qed simp

lemma read_headers_list: "read_headers K F fd s = Some (p, s') \<Longrightarrow> g_loaded_libraries s' = g_loaded_libraries s"
  unfolding read_headers_def Let_def split_beta
  by (auto simp: bind_eq_Some_conv same_list split: if_splits dest!: alloc_list release_list)

text \<open>What a step of loading may do to the list, from \<open>old\<close>.\<close>

definition list_result :: "LoadedLibrary list \<Rightarrow> LoadedLibrary option \<times> 'k linker \<Rightarrow> bool" where
  "list_result old res \<longleftrightarrow>
     (case fst res of None \<Rightarrow> g_loaded_libraries (snd res) = old
      | Some lib \<Rightarrow> g_loaded_libraries (snd res) = lib # old)"

lemma relocate_library_list:
  "relocate_library K F node lib phdr phnum flv n s = Some res \<Longrightarrow> g_loaded_libraries s = lib # old \<Longrightarrow> list_result old res"
  unfolding relocate_library_def Let_def list_result_def
  by (auto simp: bind_eq_Some_conv same_list split: if_splits dest!: release_list)

lemma relocate_fresh:
  "relocate_library K F node lib phdr phnum flv n (s\<lparr>g_loaded_libraries := lib # old\<rparr>) = Some res \<Longrightarrow> list_result old res"
  by (rule relocate_library_list, assumption, simp)

lemma register_library_list:
  assumes r: "register_library K F phdr phnum flv base n dynamic s = Some res"
  shows "list_result (g_loaded_libraries s) res"
proof -
  obtain node s1 where a: "alloc_in K 96 s = Some (node, s1)"
    using r by (auto simp: register_library_def Let_def bind_eq_Some_conv)
  note l1 = alloc_list [OF a]
  show ?thesis
  proof (cases "node = 0")
    case True
    with r show ?thesis
      by (auto simp: register_library_def Let_def a bind_eq_Some_conv list_result_def same_list l1 dest!: release_list)
  next
    case False
    have "g_loaded_libraries (if b then set_lmem m t else t) = g_loaded_libraries t" for b m and t :: "'a linker" by simp
    with r False show ?thesis
      by (auto simp: register_library_def Let_def a bind_eq_Some_conv l1 split del: if_split
        dest!: alloc_list relocate_fresh)
  qed
qed

lemma map_library_list: "map_library K F fd phdr s = Some res \<Longrightarrow> list_result (g_loaded_libraries s) res"
proof -
  assume r: "map_library K F fd phdr s = Some res"
  let ?n = "e_phnum (ld_ehdr (lmem s) (f_ehdr F))"
  let ?f = "first_load_vaddr (lmem s) phdr ?n" and ?t = "image_size (lmem s) phdr ?n"
  obtain base s1 where a: "on_world (dl_mmap K 0 ?t 0 0x22 (- 1) 0) s = (base, s1)" by fastforce
  have l1: "g_loaded_libraries s1 = g_loaded_libraries s"
    using on_world_list [of "dl_mmap K 0 ?t 0 0x22 (- 1) 0" s] a by simp
  obtain i s2 where b: "map_segments K fd phdr ?f base 0 (unat ?n) s1 = (i, s2)" by fastforce
  have l2: "g_loaded_libraries s2 = g_loaded_libraries s"
    using map_segments_list [of K fd phdr ?f base 0 "unat ?n" s1] b l1 by simp
  obtain d s3 where c: "library_dynamic phdr ?n ?f base ?t (shut K fd s2) = (d, s3)" by fastforce
  have l3: "g_loaded_libraries s3 = g_loaded_libraries s"
    using library_dynamic_list [of phdr ?n ?f base ?t "shut K fd s2"] c l2 by (simp add: same_list)
  have reg: "list_result (g_loaded_libraries s) res" if "register_library K F phdr ?n ?f base ?t d s3 = Some res"
    using register_library_list [OF that] l3 by simp
  show ?thesis
    using r unfolding map_library_def Let_def a b c prod.case
    by (auto simp: bind_eq_Some_conv list_result_def same_list l1 l2 l3 split: if_splits option.splits
      dest!: release_list reg [unfolded list_result_def])
qed


subsection \<open>Properties\<close>

lemma find_loaded_in: "find_loaded m path libs = Some (Some lib) \<Longrightarrow> lib \<in> set libs"
  by (induction libs) (auto simp: bind_eq_Some_conv split: if_splits)

text \<open>C20. Loading keeps the list of libraries consistent on every path: a load that answers NULL, for
  whatever reason and at whatever step (also after the library was entered), leaves the list as it
  was; a load that answers a library has put exactly that one in front, or found it in the list.\<close>

theorem load_keeps_list:
  assumes "load_shared_library K F name s = Some (r, s')"
  shows "case r of None \<Rightarrow> g_loaded_libraries s' = g_loaded_libraries s
    | Some lib \<Rightarrow> g_loaded_libraries s' = lib # g_loaded_libraries s \<or>
        g_loaded_libraries s' = g_loaded_libraries s \<and> lib \<in> set (g_loaded_libraries s)"
proof (cases "name = 0")
  case True
  with assms show ?thesis by (auto simp: load_shared_library_def)
next
  case False
  obtain existing where e: "find_loaded_library name s = Some existing"
    using assms False by (auto simp: load_shared_library_def bind_eq_Some_conv)
  show ?thesis
  proof (cases existing)
    case (Some lib)
    with e have "lib \<in> set (g_loaded_libraries s)" using find_loaded_in by (auto simp: find_loaded_library_def)
    with assms False e Some show ?thesis by (auto simp: load_shared_library_def)
  next
    case None
    obtain found s1 where f: "search_library K F name (f_paths F) s = Some (found, s1)"
      using assms False e None by (auto simp: load_shared_library_def bind_eq_Some_conv)
    obtain fd s2 where o: "on_world (dl_open K (f_libpath F) 0 0) s1 = (fd, s2)" by fastforce
    have l: "g_loaded_libraries s2 = g_loaded_libraries s"
      using search_list [OF f] on_world_list [of "dl_open K (f_libpath F) 0 0" s1] o by simp
    show ?thesis
    proof (cases "found \<and> 0 \<le> sint fd")
      case True
      then obtain p s3 where h: "read_headers K F fd s2 = Some (p, s3)"
        using assms False e None f o by (auto simp: load_shared_library_def bind_eq_Some_conv)
      have "p = None \<and> r = None \<and> s' = s3 \<or> (\<exists>q. p = Some q \<and> map_library K F fd q s3 = Some (r, s'))"
        using assms False e None f o h True by (cases p) (auto simp: load_shared_library_def)
      then show ?thesis
      proof (elim disjE exE conjE)
        fix q assume "map_library K F fd q s3 = Some (r, s')"
        from map_library_list [OF this] show ?thesis
          using read_headers_list [OF h] l by (simp add: list_result_def split: option.splits)
      qed (use read_headers_list [OF h] l in simp)
    next
      case fail: False
      with assms False e None f o search_list [OF f] l show ?thesis
        by (auto simp: load_shared_library_def split: if_splits)
    qed
  qed
qed

theorem load_keeps_list_witness:
  "\<exists>s'. load_shared_library (no_memory 0) \<lparr>f_libpath = 0x9000, f_ehdr = 0x9300, f_format = 0x9400, f_paths = [], f_num_buf = 0, f_temp = 0\<rparr>
     0x2001 ((demo_linker (demo_image 8))\<lparr>g_loaded_libraries := [demo_lib]\<rparr>) = Some (None, s') \<and>
   g_loaded_libraries s' = [demo_lib]"
proof -
  let ?F = "\<lparr>f_libpath = 0x9000, f_ehdr = 0x9300, f_format = 0x9400, f_paths = [], f_num_buf = 0, f_temp = 0\<rparr>"
  define s where "s = (demo_linker (demo_image 8))\<lparr>g_loaded_libraries := [demo_lib]\<rparr>"
  have l: "g_loaded_libraries s = [demo_lib]" by (simp add: s_def)
  have "find_loaded_library 0x2001 s = Some None" by (simp add: find_loaded_library_def l demo_lib_def)
  then obtain s' where r: "load_shared_library (no_memory 0) ?F 0x2001 s = Some (None, s')"
    by (simp add: load_shared_library_def)
  then show ?thesis using load_keeps_list [OF r] l by (auto simp: s_def)
qed

text \<open>The test whether a library is already loaded compares the path of the file with the bare
  name asked for, so with paths that contain a slash and a name that does not, it never succeeds: a
  library needed twice is mapped and entered twice.\<close>

theorem loaded_library_not_recognised:
  assumes "\<forall>lib \<in> set (g_loaded_libraries s). lib_path lib = 0 \<or> (\<exists>xs. cstr (lmem s) (lib_path lib) xs \<and> 47 \<in> set xs)"
    and "cstr (lmem s) name ns" and "47 \<notin> set ns"
  shows "find_loaded_library name s = Some None"
proof -
  have "find_loaded (lmem s) name libs = Some None"
    if "\<forall>lib \<in> set libs. lib_path lib = 0 \<or> (\<exists>xs. cstr (lmem s) (lib_path lib) xs \<and> 47 \<in> set xs)" for libs
    using that
  proof (induction libs)
    case (Cons lib libs)
    have IH: "find_loaded (lmem s) name libs = Some None" by (rule Cons.IH) (use Cons.prems in simp)
    show ?case
    proof (cases "lib_path lib = 0")
      case False
      then obtain xs where xs: "cstr (lmem s) (lib_path lib) xs" "47 \<in> set xs" using Cons.prems by auto
      obtain r where r: "strcmp (lmem s) (lib_path lib) name = Some r" "sign_agrees r (CStr xs) (CStr ns)"
        using strcmp_cstr [OF xs(1) assms(2)] by blast
      have "xs \<noteq> ns" using xs(2) assms(3) by blast
      then have "r \<noteq> 0" using r(2) by (auto simp: sign_agrees_def)
      with IH r(1) False show ?thesis by (simp add: dl_strcmp_cstr [OF xs(1)])
    qed (use IH in simp)
  qed simp
  then show ?thesis using assms(1) by (simp add: find_loaded_library_def)
qed

theorem loaded_library_not_recognised_witness:
  "\<exists>s :: unit linker. \<exists>lib. g_loaded_libraries s = [lib] \<and> cstr (lmem s) (lib_path lib) [47, 97] \<and>
    find_loaded_library 0x301 s = Some None"
proof -
  define m :: mem where "m = write_bytes (\<lambda>_. 0) 0x300 [47, 97, 0]"
  define s where "s = (demo_linker m)\<lparr>g_loaded_libraries := [demo_lib\<lparr>lib_path := 0x300\<rparr>]\<rparr>"
  have l: "g_loaded_libraries s = [demo_lib\<lparr>lib_path := 0x300\<rparr>]" "lmem s = m" by (simp_all add: s_def lmem_def demo_linker_def)
  have c: "cstr m 0x300 [47, 97]" "cstr m 0x301 [97]" by (simp_all add: m_def)
  have "find_loaded_library 0x301 s = Some None"
    by (rule loaded_library_not_recognised [of s "0x301" "[97]"]) (use l c in \<open>auto simp del: cstr.simps\<close>)
  then show ?thesis using l c by (intro exI [of _ s] exI [of _ "demo_lib\<lparr>lib_path := 0x300\<rparr>"]) simp
qed

text \<open>The last pass over the PLT relocations writes the library's own value of each symbol: for an
  imported function (an undefined symbol of value 0, in an image linked at 0) it replaces whatever
  address the relocation had found in another library by the load address of the library itself.\<close>

theorem got_pass_undoes_import:
  assumes "r = ld_rela (lmem s) pltrel" and "idx = ucast (ELF64_R_SYM (r_info r))"
    and "idx < ucast (lib_symnum lib)" and "lib_symtab lib \<noteq> 0" and "lib_strtab lib \<noteq> 0"
    and "st_value (ld_sym (lmem s) (lib_symtab lib + 24 * idx)) = 0" and "first_load_vaddr (lmem s) phdr phnum = 0"
    and "got = calculate_address_from_vaddr (lmem s) (r_offset r) (lib_base_addr lib) phdr phnum" and "got \<noteq> 0"
  shows "ld64 (lmem (fill_got lib phdr phnum pltrel 0 1 s)) got = lib_base_addr lib + r_addend r"
proof -
  have "calculate_symbol_address (lmem s) (lib_symtab lib + 24 * idx) (lib_base_addr lib) phdr phnum \<in> {0, lib_base_addr lib}"
    using assms(6,7) by (auto simp: calculate_symbol_address_def Let_def split: option.splits)
  then consider "calculate_symbol_address (lmem s) (lib_symtab lib + 24 * idx) (lib_base_addr lib) phdr phnum = 0"
    | "calculate_symbol_address (lmem s) (lib_symtab lib + 24 * idx) (lib_base_addr lib) phdr phnum = lib_base_addr lib"
    by blast
  then have "fill_got lib phdr phnum pltrel 0 1 s = put64 got (lib_base_addr lib + r_addend r) s"
    by cases (use assms in \<open>simp_all add: Let_def\<close>)
  then show ?thesis by (simp add: put64_def)
qed

definition demo_import :: "unit linker" where
  "demo_import = demo_linker (write_bytes (demo_image 0) 0x2200
     (rela_bytes \<lparr>r_offset = 0x1800, r_info = ELF64_R_INFO 1 1026, r_addend = 0\<rparr>))"

theorem got_pass_undoes_import_witness:
  "ld64 (lmem (fill_got demo_lib 0x1040 1 0x2200 0 1 demo_import)) 0x2800 = 0x1000"
proof -
  let ?r = "\<lparr>r_offset = 0x1800, r_info = ELF64_R_INFO 1 1026, r_addend = 0\<rparr> :: Elf64_Rela"
  have l: "length (rela_bytes ?r) = 24" by (simp add: rela_bytes_def)
  have m: "lmem demo_import = write_bytes (demo_image 0) 0x2200 (rela_bytes ?r)"
    by (simp add: demo_import_def demo_linker_def lmem_def)
  have r: "ld_rela (lmem demo_import) 0x2200 = ?r"
    by (rule ld_rela_bytes) (simp add: m bytes_at_write_same l)
  have keep: "bytes_at (lmem demo_import) p n = bytes_at (demo_image 0) p n" if "apart 0x2200 24 p n" "n \<le> 2 ^ 64" for p n
    using that by (simp add: m l bytes_at_write_apart)
  have "bytes_at (lmem demo_import) 0x2118 24 = bytes_at (demo_image 0) 0x2118 24" by (rule keep) (simp_all add: apart_def)
  moreover have "bytes_at (demo_image 0) 0x2118 24 = sym_bytes (demo_sym 0)"
  proof -
    have b: "bytes_at (demo_image 0) 0x2100 (length (sym_bytes null_sym @ sym_bytes (demo_sym 0)))
        = sym_bytes null_sym @ sym_bytes (demo_sym 0)"
      unfolding demo_image_def by (rule bytes_at_write_same) simp_all
    show ?thesis using bytes_at_block [OF b, of 24 24] by simp
  qed
  ultimately have sym: "ld_sym (lmem demo_import) 0x2118 = demo_sym 0" by (simp add: ld_sym_bytes)
  have "bytes_at (lmem demo_import) 0x1040 (56 * unat (1 :: u16)) = bytes_at (demo_image 0) 0x1040 (56 * unat (1 :: u16))"
    by (rule keep) (simp_all add: apart_def)
  then have t: "phdr_table (lmem demo_import) 0x1040 1 = [demo_phdr]" using phdr_table_cong demo_table by metis
  show ?thesis
    using got_pass_undoes_import [of ?r demo_import "0x2200" 1 demo_lib "0x1040" 1 "0x2800"] r sym t
    by (simp add: r_info_sym demo_lib_def demo_sym_def first_load_vaddr_def first_load_def demo_phdr_def
      calculate_address_from_vaddr_def load_contains_def)
qed

end
