(* ===== verification/Linker_Main_Claims.thy ===== *)
theory Linker_Main_Claims
  imports Linker_Main Linker_Load_Claims
begin

text \<open>
  How the linker's \<open>main\<close> fails: at once, when the auxiliary vector or the linker's own image is not what
  it needs, and at its end, when the entry point of the program is translated a second time.
\<close>

text \<open>The four bytes an ELF image starts with.\<close>

definition starts_elf :: "mem \<Rightarrow> u64 \<Rightarrow> bool" where
  "starts_elf m p \<longleftrightarrow> bytes_at m p 4 = [0x7F, 69, 76, 70]"

lemma elf_magic_bytes: "has_elf_magic m p \<longleftrightarrow> starts_elf m p"
  by (auto simp: has_elf_magic_def starts_elf_def bytes_at_numeral add.commute)

lemma with_auxv_fields [simp]:
  "lheap (with_auxv av s) = lheap s" "g_auxv_base (with_auxv av s) = auxv_lookup av AT_BASE"
  "g_bootstrap_done (with_auxv av s) = g_bootstrap_done s" "messages (with_auxv av s) = messages s"
  "g_loaded_libraries (with_auxv av s) = g_loaded_libraries s" "lmem (with_auxv av s) = lmem s"
  by (simp_all add: with_auxv_def lmem_def)

subsection \<open>Properties\<close>

text \<open>C23. A start the linker cannot work with. On a kernel's stack whose auxiliary vector has no AT_BASE,
  or names as AT_BASE a place that does not start with the ELF magic, \<open>main\<close> returns 1: its messages are
  that error and then the failed bootstrap, in this order and nothing else; no code of a library or of the
  program has been called (the outcome is the same whatever \<open>call\<close> and \<open>call_main\<close> are), and memory, heap,
  the state of the kernel and the list of libraries are as they were.\<close>

theorem main_rejects_bad_start:
  assumes "initial_stack (lmem s) sp argv env av" and "sp + 8 * (of_nat (length argv) + of_nat (length env) + 3) \<noteq> 0"
    and "\<not> g_bootstrap_done s" and "auxv_lookup av AT_BASE = 0 \<or> \<not> starts_elf (lmem s) (auxv_lookup av AT_BASE)"
  shows "\<exists>s'. linker_main K F call call_main sp s = Some (Exits 1, s') \<and> lheap s' = lheap s \<and>
    g_loaded_libraries s' = g_loaded_libraries s \<and> \<not> g_bootstrap_done s' \<and>
    messages s' = messages s @ [(if auxv_lookup av AT_BASE = 0 then ''Error: AT_BASE not found in auxv\<newline>''
      else ''Error: Invalid ELF magic\<newline>'', []), (''Error: Bootstrap failed!\<newline>'', [])]"
proof -
  let ?aux = "sp + 8 * (of_nat (length argv) + of_nat (length env) + 3)"
  let ?envp = "sp + 8 * (of_nat (length argv) + 2)"
  let ?s1 = "with_auxv av (s\<lparr>g_environ := ?envp\<rparr>)"
  have m: "lmem (s\<lparr>g_environ := e\<rparr>) = lmem s" for e by (simp add: lmem_def)
  have aux: "sp + 8 * (of_nat (length argv) + 2 + of_nat (length env) + 1) = ?aux" by (simp add: algebra_simps)
  note ps = parse_stack_eq [OF assms(1), unfolded aux]
  have "0 \<notin> fst ` set av" using assms(1) by (simp add: initial_stack_def)
  then have pa: "parse_auxv ?aux (s\<lparr>g_environ := ?envp\<rparr>) = Some ?s1"
    by (intro parse_auxv_eq) (use ps(2) assms(2) in \<open>simp_all add: m\<close>)
  define msg where "msg = (if auxv_lookup av AT_BASE = 0 then ''Error: AT_BASE not found in auxv\<newline>''
      else ''Error: Invalid ELF magic\<newline>'')"
  have b: "bootstrap_self ?s1 = (1, message msg [] ?s1)"
    using assms(3,4) by (auto simp: bootstrap_self_def elf_magic_bytes m Let_def msg_def)
  have "linker_main K F call call_main sp s
      = Some (Exits 1, message ''Error: Bootstrap failed!\<newline>'' [] (message msg [] ?s1))"
    unfolding linker_main_def ps(1) Option.bind.bind_lunit prod.case pa Let_def b by simp
  then show ?thesis by (simp add: msg_def [symmetric] assms(3)) (simp add: message_def)
qed

theorem main_rejects_bad_start_witness:
  "\<exists>(s :: unit linker) s'. linker_main (no_memory 0) \<lparr>f_libpath = 0, f_ehdr = 0, f_format = 0, f_paths = [], f_num_buf = 0, f_temp = 0\<rparr>
      (\<lambda>a s. None) (\<lambda>f c v s. None) 0x1000 s = Some (Exits 1, s') \<and>
    messages s' = [(''Error: Invalid ELF magic\<newline>'', []), (''Error: Bootstrap failed!\<newline>'', [])]"
proof -
  let ?m = "store_words (\<lambda>_. 0) 0x1000 [1, 0x9000, 0, 0x9100, 0, 7, 0x7000, 9, 0x400, 0, 0]"
  define s where "s = demo_linker ?m"
  have i: "initial_stack (lmem s) 0x1000 [0x9000] [0x9100] [(7, 0x7000), (9, 0x400)]"
    by (simp add: s_def initial_stack_def demo_linker_def lmem_def auxv_words_def ld_st_apart apart_def)
  have "bytes_at (lmem s) 0x7000 4 = [0, 0, 0, 0]"
    by (simp add: s_def demo_linker_def lmem_def bytes_at_numeral st64_other in_region_def)
  then have "\<not> starts_elf (lmem s) 0x7000" by (simp add: starts_elf_def del: bytes_at.simps)
  moreover have "\<not> g_bootstrap_done s" "messages s = []" by (simp_all add: s_def demo_linker_def)
  ultimately show ?thesis
    using main_rejects_bad_start [OF i, of "no_memory 0" "\<lparr>f_libpath = 0, f_ehdr = 0, f_format = 0, f_paths = [], f_num_buf = 0, f_temp = 0\<rparr>"
        "\<lambda>a s. None" "\<lambda>f c v s. None"]
    by (auto simp: auxv_lookup_def)
qed

text \<open>
  AT_ENTRY is the run-time address of the entry point. Translating it as a link-time address fails when it
  lies above all link-time segments, as it does in a position-independent executable: a program without
  a \<open>main\<close> symbol is then not entered.
\<close>

theorem entry_translated_again:
  assumes "find_main d s = 0"
    and "\<forall>p \<in> set (phdr_table (lmem s) (g_auxv_phdr s) (ucast (g_auxv_phnum s))).
      p_type p = PT_LOAD \<longrightarrow> unat (p_vaddr p) + unat (p_memsz p) \<le> unat (g_auxv_entry s)"
  shows "enter_program call_main sp d argc argv s
    = Some (Exits 1, message ''Error: Failed to calculate entry point address\<newline>'' [] s)"
proof -
  have "\<not> load_contains (g_auxv_entry s) p" if "p_type p = PT_LOAD \<longrightarrow> unat (p_vaddr p) + unat (p_memsz p) \<le> unat (g_auxv_entry s)" for p
  proof (cases "p_type p = PT_LOAD")
    case True
    then have "unat (p_vaddr p) + unat (p_memsz p) \<le> unat (g_auxv_entry s)" using that by simp
    moreover from this have "unat (p_vaddr p) + unat (p_memsz p) < 2 ^ 64"
      using unat_less_2p [of "g_auxv_entry s"] by simp
    ultimately show ?thesis by (simp add: load_contains_nat)
  qed (simp add: load_contains_def)
  then have "exec_addr (g_auxv_entry s) s = 0"
    using assms(2) by (auto simp: exec_addr_def translate_eq in_image_def)
  with assms(1) show ?thesis by (simp add: enter_program_def Let_def)
qed

end
