(* ===== verification/RingList.thy ===== *)
theory RingList
  imports Prelude
begin

text \<open>
  The circular doubly linked list of oop_in_c/my_list.h: its operations on the nodes of a store,
  the ring they keep (\<open>ring\<close>), and what they do to the sequence of nodes behind the head.

  The store maps the address of a node to its two pointers; a pointer assignment updates it.
\<close>

record list_head =
  next_node :: u64
  prev_node :: u64

type_synonym nodes = "u64 \<Rightarrow> list_head"

definition set_next :: "u64 \<Rightarrow> u64 \<Rightarrow> nodes \<Rightarrow> nodes" where
  "set_next p v ns = ns(p := (ns p)\<lparr>next_node := v\<rparr>)"

definition set_prev :: "u64 \<Rightarrow> u64 \<Rightarrow> nodes \<Rightarrow> nodes" where
  "set_prev p v ns = ns(p := (ns p)\<lparr>prev_node := v\<rparr>)"

subsection \<open>Operations\<close>

definition INIT_LIST_HEAD :: "u64 \<Rightarrow> nodes \<Rightarrow> nodes" where
  "INIT_LIST_HEAD l ns = set_prev l l (set_next l l ns)"

definition list_insert :: "u64 \<Rightarrow> u64 \<Rightarrow> u64 \<Rightarrow> nodes \<Rightarrow> nodes" where
  "list_insert new prev nxt ns =
     set_next prev new (set_prev new prev (set_next new nxt (set_prev nxt new ns)))"

definition list_unlink :: "u64 \<Rightarrow> u64 \<Rightarrow> nodes \<Rightarrow> nodes" where
  "list_unlink prev nxt ns = set_next prev nxt (set_prev nxt prev ns)"

definition list_del :: "u64 \<Rightarrow> nodes \<Rightarrow> nodes" where
  "list_del entry ns =
     set_prev entry 0 (set_next entry 0 (list_unlink (prev_node (ns entry)) (next_node (ns entry)) ns))"

definition list_add :: "u64 \<Rightarrow> u64 \<Rightarrow> nodes \<Rightarrow> nodes" where
  "list_add new head ns = list_insert new head (next_node (ns head)) ns"

definition list_add_tail :: "u64 \<Rightarrow> u64 \<Rightarrow> nodes \<Rightarrow> nodes" where
  "list_add_tail new head ns = list_insert new (prev_node (ns head)) head ns"

lemma set_link_simps [simp]:
  "next_node (set_next p v ns q) = (if q = p then v else next_node (ns q))"
  "prev_node (set_next p v ns q) = prev_node (ns q)"
  "prev_node (set_prev p v ns q) = (if q = p then v else prev_node (ns q))"
  "next_node (set_prev p v ns q) = next_node (ns q)"
  by (simp_all add: set_next_def set_prev_def)

subsection \<open>The ring\<close>

text \<open>From \<open>a\<close> over the nodes \<open>xs\<close> to \<open>b\<close>, linked both ways.\<close>

primrec chain :: "nodes \<Rightarrow> u64 \<Rightarrow> u64 list \<Rightarrow> u64 \<Rightarrow> bool" where
  "chain ns a [] b \<longleftrightarrow> next_node (ns a) = b \<and> prev_node (ns b) = a"
| "chain ns a (x # xs) b \<longleftrightarrow> next_node (ns a) = x \<and> prev_node (ns x) = a \<and> chain ns x xs b"

definition ring :: "nodes \<Rightarrow> u64 \<Rightarrow> u64 list \<Rightarrow> bool" where
  "ring ns h xs \<longleftrightarrow> distinct (h # xs) \<and> chain ns h xs h"

lemma chain_joins: "chain ns a (xs @ y # ys) b \<longleftrightarrow> chain ns a xs y \<and> chain ns y ys b"
  by (induction xs arbitrary: a) auto

text \<open>A chain only depends on the forward links of its nodes but the last, and the backward ones but the first.\<close>

lemma chain_cong:
  assumes "\<And>p. p \<in> set (a # xs) \<Longrightarrow> next_node (ns' p) = next_node (ns p)"
    and "\<And>p. p \<in> set xs \<union> {b} \<Longrightarrow> prev_node (ns' p) = prev_node (ns p)"
  shows "chain ns' a xs b = chain ns a xs b"
  using assms
proof (induction xs arbitrary: a)
  case (Cons x xs)
  have "chain ns' x xs b = chain ns x xs b" by (rule Cons.IH) (use Cons.prems in \<open>metis Un_iff list.set_intros\<close>)+
  with Cons.prems show ?case by simp
qed simp

lemma chain_first: "chain ns a xs b \<Longrightarrow> next_node (ns a) = hd (xs @ [b])"
  by (cases xs) simp_all

lemma chain_last: "chain ns a xs b \<Longrightarrow> prev_node (ns b) = last (a # xs)"
  by (induction xs arbitrary: a) auto

lemma ring_init: "ring (INIT_LIST_HEAD h ns) h []"
  by (simp add: ring_def INIT_LIST_HEAD_def)

text \<open>Putting a new node between two neighbours.\<close>

lemma ring_insert:
  assumes "ring ns h (xs @ ys)" and "new \<notin> set (h # xs @ ys)"
  shows "ring (list_insert new (last (h # xs)) (hd (ys @ [h])) ns) h (xs @ new # ys)"
proof -
  let ?a = "last (h # xs)" and ?b = "hd (ys @ [h])"
  define ns' where "ns' = list_insert new ?a ?b ns"
  have d: "distinct (h # xs @ ys)" using assms(1) by (simp add: ring_def)
  have links: "next_node (ns' p) = (if p = ?a then new else if p = new then ?b else next_node (ns p))"
    "prev_node (ns' p) = (if p = new then ?a else if p = ?b then new else prev_node (ns p))" for p
    by (simp_all add: ns'_def list_insert_def)
  have ab: "?a \<in> set (h # xs)" "?b \<in> set (ys @ [h])" by (rule last_in_set, simp, rule hd_in_set, simp)
  have la: "xs \<noteq> [] \<Longrightarrow> last xs \<in> set xs \<and> last xs \<notin> set ys"
    using d last_in_set [of xs] by (simp, blast)
  have "chain ns' h xs new"
  proof (cases xs rule: rev_cases)
    case Nil
    then show ?thesis using assms(2) by (simp add: links)
  next
    case (snoc zs z)
    have "chain ns h zs z" using assms(1) by (simp add: ring_def snoc chain_joins)
    moreover have "chain ns' h zs z = chain ns h zs z"
      by (rule chain_cong) (use assms(2) d ab la in \<open>auto simp: links snoc split: if_splits\<close>)
    ultimately show ?thesis using assms(2) by (auto simp: snoc chain_joins links)
  qed
  moreover have "chain ns' new ys h"
  proof (cases ys)
    case Nil
    then show ?thesis using assms(2) la by (auto simp: links)
  next
    case (Cons y zs)
    have "chain ns y zs h" using assms(1) by (simp add: ring_def Cons chain_joins)
    moreover have "chain ns' y zs h = chain ns y zs h"
      by (rule chain_cong) (use assms(2) d ab la in \<open>auto simp: links Cons split: if_splits\<close>)
    ultimately show ?thesis using assms(2) by (auto simp: Cons links)
  qed
  ultimately have "chain ns' h (xs @ new # ys) h" by (simp add: chain_joins)
  with d assms(2) show ?thesis by (auto simp: ring_def ns'_def)
qed

lemma ring_add:
  assumes "ring ns h xs" and "new \<notin> set (h # xs)"
  shows "ring (list_add new h ns) h (new # xs)"
  using ring_insert [of ns h "[]" xs new] assms chain_first [of ns h xs h]
  by (simp add: ring_def list_add_def)

lemma ring_add_tail:
  assumes "ring ns h xs" and "new \<notin> set (h # xs)"
  shows "ring (list_add_tail new h ns) h (xs @ [new])"
  using ring_insert [of ns h xs "[]" new] assms chain_last [of ns h xs h]
  by (simp add: ring_def list_add_tail_def)

lemma ring_del:
  assumes "ring ns h (xs @ x # ys)"
  shows "ring (list_del x ns) h (xs @ ys)"
proof -
  let ?a = "last (h # xs)" and ?b = "hd (ys @ [h])"
  define ns' where "ns' = list_del x ns"
  have d: "distinct (h # xs @ x # ys)" using assms by (simp add: ring_def)
  have c: "chain ns h xs x" "chain ns x ys h" using assms by (simp_all add: ring_def chain_joins)
  have x: "prev_node (ns x) = ?a" "next_node (ns x) = ?b"
    using chain_last [OF c(1)] chain_first [OF c(2)] by simp_all
  have links: "next_node (ns' p) = (if p = x then 0 else if p = ?a then ?b else next_node (ns p))"
    "prev_node (ns' p) = (if p = x then 0 else if p = ?b then ?a else prev_node (ns p))" for p
    by (simp_all add: ns'_def list_del_def list_unlink_def x)
  have ab: "?a \<in> set (h # xs)" "?b \<in> set (ys @ [h])" by (rule last_in_set, simp, rule hd_in_set, simp)
  have la: "xs \<noteq> [] \<Longrightarrow> last xs \<in> set xs \<and> last xs \<notin> set ys"
    using d last_in_set [of xs] by (simp, blast)
  have left: "chain ns' h zs z" if "xs = zs @ [z]" for zs z
  proof -
    have "chain ns' h zs z = chain ns h zs z"
      by (rule chain_cong) (use d ab la that in \<open>auto simp: links split: if_splits\<close>)
    then show ?thesis using c(1) that by (simp add: chain_joins)
  qed
  have right: "chain ns' z zs h" if "ys = z # zs" for zs z
  proof -
    have "chain ns' z zs h = chain ns z zs h"
      by (rule chain_cong) (use d ab la that in \<open>auto simp: links split: if_splits\<close>)
    then show ?thesis using c(2) that by simp
  qed
  have "chain ns' h (xs @ ys) h"
  proof (cases ys)
    case Nil
    then show ?thesis using d by (cases xs rule: rev_cases) (auto simp: links chain_joins left)
  next
    case (Cons y zs)
    then show ?thesis using d right [OF Cons]
      by (cases xs rule: rev_cases) (auto simp: links chain_joins left)
  qed
  with d show ?thesis by (simp add: ring_def ns'_def)
qed

lemma list_del_clears: "next_node (list_del x ns x) = 0 \<and> prev_node (list_del x ns x) = 0"
  by (simp add: list_del_def)

subsection \<open>Properties\<close>

text \<open>C32. Every operation keeps the ring: a fresh head is an empty ring, adding in front or at the end
  puts the new node at that end of the sequence and leaves the order of the others, and deleting takes
  exactly the node out and clears its pointers.\<close>

theorem list_operations_keep_ring:
  "ring (INIT_LIST_HEAD h ns) h [] \<and>
   (ring ns h xs \<and> new \<notin> set (h # xs) \<longrightarrow>
      ring (list_add new h ns) h (new # xs) \<and> ring (list_add_tail new h ns) h (xs @ [new]) \<and>
      ring (list_del new (list_add new h ns)) h xs) \<and>
   (ring ns h xs \<and> x \<in> set xs \<longrightarrow>
      ring (list_del x ns) h (remove1 x xs) \<and> next_node (list_del x ns x) = 0 \<and> prev_node (list_del x ns x) = 0)"
proof (intro conjI impI; (elim conjE)?)
  assume r: "ring ns h xs" "new \<notin> set (h # xs)"
  show "ring (list_add new h ns) h (new # xs)" using r by (rule ring_add)
  show "ring (list_add_tail new h ns) h (xs @ [new])" using r by (rule ring_add_tail)
  show "ring (list_del new (list_add new h ns)) h xs" using ring_del [of _ h "[]" new xs] ring_add [OF r] by simp
next
  assume r: "ring ns h xs" "x \<in> set xs"
  from r(2) obtain ys zs where s: "xs = ys @ x # zs" "x \<notin> set ys" by (meson split_list_first)
  then have "remove1 x xs = ys @ zs" by (simp add: remove1_append)
  then show "ring (list_del x ns) h (remove1 x xs)" using ring_del [of ns h ys x zs] r(1) s(1) by simp
qed (simp_all add: ring_init list_del_clears)

theorem list_operations_keep_ring_witness:
  "\<exists>ns. ring ns 0x10 [0x30, 0x20] \<and> ring (list_del 0x20 ns) 0x10 [0x30]"
proof -
  let ?ns = "\<lambda>_. \<lparr>next_node = 0, prev_node = 0\<rparr>"
  have a: "ring (INIT_LIST_HEAD 0x10 ?ns) 0x10 []" using list_operations_keep_ring [of "0x10" ?ns] by blast
  have b: "ring (list_add 0x20 0x10 (INIT_LIST_HEAD 0x10 ?ns)) 0x10 [0x20]"
    using list_operations_keep_ring [of "0x10" "INIT_LIST_HEAD 0x10 ?ns" "[]" "0x20"] a by simp
  define ns where "ns = list_add 0x30 0x10 (list_add 0x20 0x10 (INIT_LIST_HEAD 0x10 ?ns))"
  have c: "ring ns 0x10 [0x30, 0x20]"
    using list_operations_keep_ring [of "0x10" "list_add 0x20 0x10 (INIT_LIST_HEAD 0x10 ?ns)" "[0x20]" "0x30"] b
    by (simp add: ns_def)
  then have "ring (list_del 0x20 ns) 0x10 [0x30]"
    using list_operations_keep_ring [of "0x10" ns "[0x30, 0x20]" "0x40" "0x20"] by simp
  with c show ?thesis by blast
qed

end
