(* ===== verification/Observer.thy ===== *)
theory Observer
  imports RingList "HOL-Library.Monad_Syntax"
begin

text \<open>
  The observer registry of oop_in_c/observe_mode.c on the list of my_list.h. An observer is a
  record at its address with its list node 32 bytes further on, the server's list head is 24 bytes
  behind the server's address; \<open>list_entry\<close> is the subtraction. A callback is a value of \<open>'f\<close>,
  calling it is an event; the callbacks of the program only print. The traversals follow the
  pointers and need not end, so they are partial functions.
\<close>

record 'f observe_s =
  obs_id :: i32
  obs_name :: string
  obs_notify :: "'f option"

datatype 'f event = Calls 'f u64 | Prints string

record 'f registry =
  links :: nodes
  observers :: "u64 \<Rightarrow> 'f observe_s"
  events :: "'f event list"

definition list_entry :: "u64 \<Rightarrow> u64" where
  "list_entry ptr = ptr - 32"

definition server_head :: "u64 \<Rightarrow> u64" where
  "server_head server = server + 24"

definition emit :: "'f event \<Rightarrow> 'f registry \<Rightarrow> 'f registry" where
  "emit e s = s\<lparr>events := events s @ [e]\<rparr>"

subsection \<open>Operations\<close>

partial_function (option) notify_loop :: "u64 \<Rightarrow> u64 \<Rightarrow> u64 \<Rightarrow> 'f registry \<Rightarrow> 'f registry option" where
  "notify_loop head data obs s =
     (if obs + 32 \<noteq> head then
        let s1 = (case obs_notify (observers s obs) of None \<Rightarrow> s | Some f \<Rightarrow> emit (Calls f data) s)
        in notify_loop head data (list_entry (next_node (links s1 (obs + 32)))) s1
      else Some s)"

definition notify_all :: "u64 \<Rightarrow> u64 \<Rightarrow> 'f registry \<Rightarrow> 'f registry option" where
  "notify_all server data s =
     notify_loop (server_head server) data (list_entry (next_node (links s (server_head server)))) s"

definition add_observe :: "u64 \<Rightarrow> u64 \<Rightarrow> 'f registry \<Rightarrow> 'f registry" where
  "add_observe server obs s = s\<lparr>links := list_add (obs + 32) (server_head server) (links s)\<rparr>"

partial_function (option) del_loop :: "u64 \<Rightarrow> i32 \<Rightarrow> u64 \<Rightarrow> 'f registry \<Rightarrow> 'f registry option" where
  "del_loop head i obs s =
     (if obs + 32 \<noteq> head then
        if obs_id (observers s obs) = i then Some (s\<lparr>links := list_del (obs + 32) (links s)\<rparr>)
        else del_loop head i (list_entry (next_node (links s (obs + 32)))) s
      else Some s)"

definition del_observe :: "u64 \<Rightarrow> i32 \<Rightarrow> 'f registry \<Rightarrow> 'f registry option" where
  "del_observe server i s =
     del_loop (server_head server) i (list_entry (next_node (links s (server_head server)))) s"

subsection \<open>The contract of a registry\<close>

text \<open>What a client sees: the subscribers, newest first, each with its address, id and callback.\<close>

type_synonym 'f subscriber = "u64 \<times> i32 \<times> 'f option"

primrec remove_id :: "i32 \<Rightarrow> 'f subscriber list \<Rightarrow> 'f subscriber list" where
  "remove_id i [] = []"
| "remove_id i (o1 # os) = (if fst (snd o1) = i then os else o1 # remove_id i os)"

definition notified :: "'f subscriber list \<Rightarrow> u64 \<Rightarrow> 'f event list" where
  "notified os data = concat (map (\<lambda>(_, _, f). case f of None \<Rightarrow> [] | Some g \<Rightarrow> [Calls g data]) os)"

datatype registry_call = Subscribe u64 | Unsubscribe i32 | Publish u64

text \<open>The calls on an implementation, and what they mean on the list of subscribers.\<close>

fun run_calls :: "(u64 \<Rightarrow> 's \<Rightarrow> 's) \<Rightarrow> (i32 \<Rightarrow> 's \<Rightarrow> 's option) \<Rightarrow> (u64 \<Rightarrow> 's \<Rightarrow> 's option) \<Rightarrow> registry_call list \<Rightarrow> 's \<Rightarrow> 's option" where
  "run_calls add del publish [] s = Some s"
| "run_calls add del publish (Subscribe a # cs) s = run_calls add del publish cs (add a s)"
| "run_calls add del publish (Unsubscribe i # cs) s = Option.bind (del i s) (run_calls add del publish cs)"
| "run_calls add del publish (Publish d # cs) s = Option.bind (publish d s) (run_calls add del publish cs)"

fun meaning :: "(u64 \<Rightarrow> i32 \<times> 'f option) \<Rightarrow> registry_call list \<Rightarrow> 'f subscriber list \<Rightarrow> 'f subscriber list \<times> 'f event list" where
  "meaning about [] os = (os, [])"
| "meaning about (Subscribe a # cs) os = meaning about cs ((a, about a) # os)"
| "meaning about (Unsubscribe i # cs) os = meaning about cs (remove_id i os)"
| "meaning about (Publish d # cs) os = (case meaning about cs os of (os', es) \<Rightarrow> (os', notified os d @ es))"

text \<open>Nobody subscribes twice, nor under a forbidden address.\<close>

fun within_contract :: "u64 set \<Rightarrow> (u64 \<Rightarrow> i32 \<times> 'f option) \<Rightarrow> registry_call list \<Rightarrow> 'f subscriber list \<Rightarrow> bool" where
  "within_contract B about [] os \<longleftrightarrow> True"
| "within_contract B about (Subscribe a # cs) os \<longleftrightarrow>
     a \<notin> B \<and> a \<notin> fst ` set os \<and> within_contract B about cs ((a, about a) # os)"
| "within_contract B about (Unsubscribe i # cs) os \<longleftrightarrow> within_contract B about cs (remove_id i os)"
| "within_contract B about (Publish d # cs) os \<longleftrightarrow> within_contract B about cs os"

locale subject =
  fixes subscribed :: "'s \<Rightarrow> 'f subscriber list \<Rightarrow> bool"
    and about :: "'s \<Rightarrow> u64 \<Rightarrow> i32 \<times> 'f option"
    and trace :: "'s \<Rightarrow> 'f event list"
    and forbidden :: "u64 set"
    and subscribe :: "u64 \<Rightarrow> 's \<Rightarrow> 's"
    and unsubscribe :: "i32 \<Rightarrow> 's \<Rightarrow> 's option"
    and publish :: "u64 \<Rightarrow> 's \<Rightarrow> 's option"
  assumes subscribe_adds: "subscribed s os \<Longrightarrow> a \<notin> forbidden \<Longrightarrow> a \<notin> fst ` set os \<Longrightarrow>
      subscribed (subscribe a s) ((a, about s a) # os) \<and> about (subscribe a s) = about s \<and> trace (subscribe a s) = trace s"
    and unsubscribe_removes: "subscribed s os \<Longrightarrow>
      \<exists>s'. unsubscribe i s = Some s' \<and> subscribed s' (remove_id i os) \<and> about s' = about s \<and> trace s' = trace s"
    and publish_reaches: "subscribed s os \<Longrightarrow>
      \<exists>s'. publish d s = Some s' \<and> subscribed s' os \<and> about s' = about s \<and> trace s' = trace s @ notified os d"
begin

lemma calls_refine:
  "subscribed s os \<Longrightarrow> within_contract forbidden (about s) cs os \<Longrightarrow>
   \<exists>s'. run_calls subscribe unsubscribe publish cs s = Some s' \<and> subscribed s' (fst (meaning (about s) cs os)) \<and>
     trace s' = trace s @ snd (meaning (about s) cs os)"
proof (induction cs arbitrary: s os)
  case (Cons c cs)
  show ?case
  proof (cases c)
    case (Subscribe a)
    with Cons.prems subscribe_adds [of s os a] have s1: "subscribed (subscribe a s) ((a, about s a) # os)"
      "about (subscribe a s) = about s" "trace (subscribe a s) = trace s" by simp_all
    from Cons.IH [OF s1(1)] Cons.prems(2) s1 show ?thesis by (simp add: Subscribe)
  next
    case (Unsubscribe i)
    obtain s1 where s1: "unsubscribe i s = Some s1" "subscribed s1 (remove_id i os)" "about s1 = about s" "trace s1 = trace s"
      using unsubscribe_removes [OF Cons.prems(1)] by blast
    from Cons.IH [OF s1(2)] Cons.prems(2) s1 show ?thesis by (simp add: Unsubscribe)
  next
    case (Publish d)
    obtain s1 where s1: "publish d s = Some s1" "subscribed s1 os" "about s1 = about s" "trace s1 = trace s @ notified os d"
      using publish_reaches [OF Cons.prems(1)] by blast
    from Cons.IH [of s1 os] Cons.prems(2) s1 show ?thesis
      by (auto simp: Publish case_prod_unfold)
  qed
qed simp

end

subsection \<open>The registry meets it\<close>

definition describe :: "'f registry \<Rightarrow> u64 \<Rightarrow> i32 \<times> 'f option" where
  "describe s a = (obs_id (observers s a), obs_notify (observers s a))"

definition registered :: "u64 \<Rightarrow> 'f registry \<Rightarrow> 'f subscriber list \<Rightarrow> bool" where
  "registered server s os \<longleftrightarrow> ring (links s) (server_head server) (map (\<lambda>o1. fst o1 + 32) os) \<and>
     (\<forall>o1 \<in> set os. snd o1 = describe s (fst o1))"

lemma emit_fields [simp]:
  "links (emit e s) = links s" "observers (emit e s) = observers s" "events (emit e s) = events s @ [e]"
  by (simp_all add: emit_def)

text \<open>A traversal from a node of the ring on.\<close>

lemma notify_loop_eq:
  "chain (links s) p (map (\<lambda>o1. fst o1 + 32) os) head \<Longrightarrow> head \<notin> (\<lambda>o1. fst o1 + 32) ` set os \<Longrightarrow>
   \<forall>o1 \<in> set os. snd o1 = describe s (fst o1) \<Longrightarrow>
   notify_loop head data (list_entry (next_node (links s p))) s = Some (s\<lparr>events := events s @ notified os data\<rparr>)"
proof (induction os arbitrary: p s)
  case Nil
  then show ?case by (simp add: notify_loop.simps list_entry_def notified_def)
next
  case (Cons o1 os)
  obtain a i f where o1: "o1 = (a, i, f)" by (cases o1)
  define s1 where "s1 = (case f of None \<Rightarrow> s | Some g \<Rightarrow> emit (Calls g data) s)"
  have f: "obs_notify (observers s a) = f" using Cons.prems(3) by (simp add: o1 describe_def)
  have same: "links s1 = links s" "describe s1 = describe s"
    by (simp_all add: s1_def describe_def fun_eq_iff split: option.splits)
  have "notify_loop head data (list_entry (next_node (links s1 (a + 32)))) s1
      = Some (s1\<lparr>events := events s1 @ notified os data\<rparr>)"
    by (rule Cons.IH) (use Cons.prems in \<open>simp_all add: same o1\<close>)
  moreover have "s1\<lparr>events := events s1 @ notified os data\<rparr> = s\<lparr>events := events s @ notified (o1 # os) data\<rparr>"
    by (cases f) (simp_all add: s1_def notified_def o1 emit_def)
  moreover have "a + 32 \<noteq> head" "list_entry (next_node (links s p)) = a"
    using Cons.prems by (auto simp: o1 list_entry_def)
  ultimately show ?case by (simp add: notify_loop.simps [of head data a s] f s1_def [symmetric])
qed

lemma del_loop_eq:
  "chain (links s) p (map (\<lambda>o1. fst o1 + 32) os) head \<Longrightarrow> head \<notin> (\<lambda>o1. fst o1 + 32) ` set os \<Longrightarrow>
   \<forall>o1 \<in> set os. snd o1 = describe s (fst o1) \<Longrightarrow>
   del_loop head i (list_entry (next_node (links s p))) s
     = Some (case find (\<lambda>o1. fst (snd o1) = i) os of None \<Rightarrow> s
         | Some o1 \<Rightarrow> s\<lparr>links := list_del (fst o1 + 32) (links s)\<rparr>)"
proof (induction os arbitrary: p)
  case Nil
  then show ?case by (simp add: del_loop.simps list_entry_def)
next
  case (Cons o1 os)
  obtain a j f where o1: "o1 = (a, j, f)" by (cases o1)
  have j: "obs_id (observers s a) = j" using Cons.prems(3) by (simp add: o1 describe_def)
  have "del_loop head i (list_entry (next_node (links s (a + 32)))) s
     = Some (case find (\<lambda>o1. fst (snd o1) = i) os of None \<Rightarrow> s
         | Some o1 \<Rightarrow> s\<lparr>links := list_del (fst o1 + 32) (links s)\<rparr>)"
    by (rule Cons.IH) (use Cons.prems in \<open>simp_all add: o1\<close>)
  moreover have "a + 32 \<noteq> head" "list_entry (next_node (links s p)) = a"
    using Cons.prems by (auto simp: o1 list_entry_def)
  ultimately show ?case by (simp add: o1 del_loop.simps [of head i a s] j)
qed

lemma remove_id_find:
  "case find (\<lambda>o1. fst (snd o1) = i) os of None \<Rightarrow> remove_id i os = os
   | Some o1 \<Rightarrow> \<exists>xs ys. os = xs @ o1 # ys \<and> remove_id i os = xs @ ys"
proof (induction os)
  case (Cons o1 os)
  show ?case
  proof (cases "fst (snd o1) = i")
    case True
    then show ?thesis by (auto intro: exI [of _ "[]"])
  next
    case False
    with Cons show ?thesis
      by (auto split: option.splits) (metis append_Cons)
  qed
qed simp

lemma registered_head: "registered server s os \<Longrightarrow> server_head server \<notin> (\<lambda>o1. fst o1 + 32) ` set os"
  by (auto simp: registered_def ring_def)

lemma add_registers:
  assumes "registered server s os" and "a \<noteq> server_head server - 32" and "a \<notin> fst ` set os"
  shows "registered server (add_observe server a s) ((a, describe s a) # os)"
proof -
  have "a + 32 \<notin> set (server_head server # map (\<lambda>o1. fst o1 + 32) os)"
    using assms(2,3) by (force simp: eq_diff_eq)
  then have "ring (list_add (a + 32) (server_head server) (links s)) (server_head server) ((a + 32) # map (\<lambda>o1. fst o1 + 32) os)"
    by (intro ring_add) (use assms(1) in \<open>simp_all add: registered_def\<close>)
  then show ?thesis using assms(1) by (simp add: registered_def add_observe_def describe_def)
qed

lemma del_registers:
  assumes "registered server s os"
  shows "\<exists>s'. del_observe server i s = Some s' \<and> registered server s' (remove_id i os) \<and>
    observers s' = observers s \<and> events s' = events s"
proof -
  let ?r = "find (\<lambda>o1. fst (snd o1) = i) os"
  let ?s = "case ?r of None \<Rightarrow> s | Some o1 \<Rightarrow> s\<lparr>links := list_del (fst o1 + 32) (links s)\<rparr>"
  have "del_observe server i s = Some ?s"
    unfolding del_observe_def
    by (rule del_loop_eq) (use assms registered_head [OF assms] in \<open>auto simp: registered_def ring_def\<close>)
  moreover have "registered server ?s (remove_id i os)"
  proof (cases ?r)
    case None
    with remove_id_find [of i os] assms show ?thesis by simp
  next
    case (Some o1)
    with remove_id_find [of i os] obtain xs ys where xy: "os = xs @ o1 # ys" "remove_id i os = xs @ ys" by auto
    have "ring (list_del (fst o1 + 32) (links s)) (server_head server) (map (\<lambda>o1. fst o1 + 32) xs @ map (\<lambda>o1. fst o1 + 32) ys)"
      by (rule ring_del) (use assms in \<open>simp add: registered_def xy(1)\<close>)
    with assms show ?thesis unfolding Some xy(2) by (simp add: registered_def xy(1) describe_def)
  qed
  ultimately show ?thesis by (auto split: option.splits)
qed

lemma notify_reaches:
  assumes "registered server s os"
  shows "notify_all server data s = Some (s\<lparr>events := events s @ notified os data\<rparr>)"
  unfolding notify_all_def
  by (rule notify_loop_eq) (use assms registered_head [OF assms] in \<open>auto simp: registered_def ring_def\<close>)

interpretation ob: subject "registered server" describe events "{server_head server - 32}"
  "add_observe server" "del_observe server" "notify_all server" for server
proof unfold_locales
  fix s :: "'a registry" and os a
  assume "registered server s os" "a \<notin> {server_head server - 32}" "a \<notin> fst ` set os"
  then show "registered server (add_observe server a s) ((a, describe s a) # os) \<and>
      describe (add_observe server a s) = describe s \<and> events (add_observe server a s) = events s"
    using add_registers by (simp add: add_observe_def describe_def fun_eq_iff)
next
  fix s :: "'a registry" and os i
  assume "registered server s os"
  from del_registers [OF this] show "\<exists>s'. del_observe server i s = Some s' \<and> registered server s' (remove_id i os) \<and>
      describe s' = describe s \<and> events s' = events s" by (metis (full_types) describe_def ext)
next
  fix s :: "'a registry" and os d
  assume "registered server s os"
  with notify_reaches [OF this] show "\<exists>s'. notify_all server d s = Some s' \<and> registered server s' os \<and>
      describe s' = describe s \<and> events s' = events s @ notified os d"
    by (auto simp: registered_def describe_def fun_eq_iff)
qed

end
