(* ===== verification/Observer_Claims.thy ===== *)
theory Observer_Claims
  imports Observer
begin

text \<open>
  The program of oop_in_c/observe_mode.c, and what the registry guarantees to any client: whatever
  the sequence of calls, the registry behaves as a list of subscribers.

  \<open>calloc\<close> is not in the repository; its three results are arguments of \<open>observe_main\<close>, 0 being
  NULL; \<open>free\<close>, called on them at the end, changes nothing that is modelled. \<open>hello\<close> is the address of
  the literal.
\<close>

datatype observer_fn = notify_observe_1 | notify_observe_2

definition observe_main :: "u64 \<Rightarrow> u64 \<Rightarrow> u64 \<Rightarrow> u64 \<Rightarrow> observer_fn registry \<Rightarrow> (i32 \<times> observer_fn registry) option" where
  "observe_main server obs1 obs2 hello s0 =
     (if server = 0 then Some (- 1, emit (Prints ''calloc server failed\<newline>'') s0)
      else let s1 = s0\<lparr>links := INIT_LIST_HEAD (server_head server) (links s0)\<rparr>
      in if obs1 = 0 then Some (- 1, emit (Prints ''calloc obs1 failed\<newline>'') s1)
      else let s2 = add_observe server obs1 (s1\<lparr>observers := (observers s1)(obs1 :=
                 \<lparr>obs_id = 1, obs_name = ''observe 1'', obs_notify = Some notify_observe_1\<rparr>)\<rparr>)
      in if obs2 = 0 then Some (- 1, emit (Prints ''calloc obs2 failed\<newline>'') s2)
      else let s3 = add_observe server obs2 (s2\<lparr>observers := (observers s2)(obs2 :=
                 \<lparr>obs_id = 2, obs_name = ''observe 2'', obs_notify = Some notify_observe_2\<rparr>)\<rparr>)
      in do {
        s4 \<leftarrow> notify_all server hello (emit (Prints ''notify all\<newline>'') s3);
        s5 \<leftarrow> del_observe server 1 s4;
        s6 \<leftarrow> notify_all server hello (emit (Prints ''after del observe 1 notify all again\<newline>'') s5);
        Some (0, s6)
      })"

lemma registered_emit [simp]: "registered server (emit e s) os = registered server s os"
  by (simp add: registered_def describe_def)

text \<open>Filling in the record of an observer that is not subscribed.\<close>

lemma registered_fill:
  "registered server s os \<Longrightarrow> a \<notin> fst ` set os \<Longrightarrow> registered server (s\<lparr>observers := (observers s)(a := r)\<rparr>) os"
  by (force simp: registered_def describe_def)

subsection \<open>Properties\<close>

text \<open>C33. The registry refines a list of subscribers: every sequence of adding observers (each new and
  apart from the server's head), deleting by id and notifying returns, delivers each notification to
  the callbacks of exactly the observers then subscribed, newest first, and a deletion takes out the
  newest observer with the id and no other.\<close>

theorem registry_refines_list:
  assumes "registered server s os"
    and "within_contract {server_head server - 32} (describe s) cs os"
  shows "\<exists>s'. run_calls (add_observe server) (del_observe server) (notify_all server) cs s = Some s' \<and>
    registered server s' (fst (meaning (describe s) cs os)) \<and> events s' = events s @ snd (meaning (describe s) cs os)"
  using assms by (rule ob.calls_refine)

definition fresh_registry :: "u64 \<Rightarrow> observer_fn registry" where
  "fresh_registry server = \<lparr>links = INIT_LIST_HEAD (server_head server) (\<lambda>_. \<lparr>next_node = 0, prev_node = 0\<rparr>),
     observers = (\<lambda>a. \<lparr>obs_id = (if a = 0x200 then 1 else 2), obs_name = '''',
       obs_notify = (if a = 0x200 then Some notify_observe_1 else None)\<rparr>), events = []\<rparr>"

theorem registry_refines_list_witness:
  "\<exists>s'. run_calls (add_observe 0x100) (del_observe 0x100) (notify_all 0x100)
     [Subscribe 0x200, Subscribe 0x300, Publish 7, Unsubscribe 1, Publish 8] (fresh_registry 0x100) = Some s' \<and>
   events s' = [Calls notify_observe_1 7]"
proof -
  have r: "registered 0x100 (fresh_registry 0x100) []"
    by (simp add: registered_def fresh_registry_def ring_init)
  show ?thesis
    using registry_refines_list [OF r, of "[Subscribe 0x200, Subscribe 0x300, Publish 7, Unsubscribe 1, Publish 8]"]
    by (simp add: server_head_def describe_def fresh_registry_def notified_def) blast
qed

text \<open>The program, when its allocations succeed and do not overlap, returns 0 after notifying both
  observers, the second first, and then, with the first deleted, the second alone.\<close>

theorem observe_main_notifies:
  assumes "server \<noteq> 0" "obs1 \<noteq> 0" "obs2 \<noteq> 0" "obs1 \<noteq> obs2"
    and "obs1 + 32 \<noteq> server_head server" "obs2 + 32 \<noteq> server_head server"
  shows "\<exists>s'. observe_main server obs1 obs2 hello s0 = Some (0, s') \<and>
    events s' = events s0 @ [Prints ''notify all\<newline>'', Calls notify_observe_2 hello, Calls notify_observe_1 hello,
      Prints ''after del observe 1 notify all again\<newline>'', Calls notify_observe_2 hello]"
proof -
  let ?r1 = "\<lparr>obs_id = 1, obs_name = ''observe 1'', obs_notify = Some notify_observe_1\<rparr>"
  let ?r2 = "\<lparr>obs_id = 2, obs_name = ''observe 2'', obs_notify = Some notify_observe_2\<rparr>"
  define s1 where "s1 = s0\<lparr>links := INIT_LIST_HEAD (server_head server) (links s0)\<rparr>"
  define s1' where "s1' = s1\<lparr>observers := (observers s1)(obs1 := ?r1)\<rparr>"
  define s2 where "s2 = add_observe server obs1 s1'"
  define s2' where "s2' = s2\<lparr>observers := (observers s2)(obs2 := ?r2)\<rparr>"
  define s3 where "s3 = add_observe server obs2 s2'"
  let ?o1 = "(obs1, 1, Some notify_observe_1)" and ?o2 = "(obs2, 2, Some notify_observe_2)"
  have ne: "obs1 \<noteq> server_head server - 32" "obs2 \<noteq> server_head server - 32" using assms(5,6) by auto
  have "registered server s1' []" by (simp add: s1'_def s1_def registered_def ring_init)
  from add_registers [OF this ne(1)] have "registered server s2 [?o1]" by (simp add: s2_def s1'_def describe_def)
  then have "registered server s2' [?o1]" unfolding s2'_def by (rule registered_fill) (use assms(4) in simp)
  from add_registers [OF this ne(2)] assms(4) have r3: "registered server s3 [?o2, ?o1]"
    by (simp add: s3_def s2'_def describe_def)
  have e3: "events s3 = events s0" by (simp add: s3_def s2'_def s2_def s1'_def s1_def add_observe_def)
  let ?s3 = "emit (Prints ''notify all\<newline>'') s3"
  define s4 where "s4 = ?s3\<lparr>events := events ?s3 @ notified [?o2, ?o1] hello\<rparr>"
  have n4: "notify_all server hello ?s3 = Some s4" unfolding s4_def by (rule notify_reaches) (simp add: r3)
  have r4: "registered server s4 [?o2, ?o1]" using r3 by (simp add: s4_def registered_def describe_def)
  obtain s5 where s5: "del_observe server 1 s4 = Some s5" "registered server s5 [?o2]" "events s5 = events s4"
    using del_registers [OF r4, of 1] by auto
  let ?s5 = "emit (Prints ''after del observe 1 notify all again\<newline>'') s5"
  have n6: "notify_all server hello ?s5 = Some (?s5\<lparr>events := events ?s5 @ notified [?o2] hello\<rparr>)"
    by (rule notify_reaches) (simp add: s5(2))
  have "observe_main server obs1 obs2 hello s0 = Some (0, ?s5\<lparr>events := events ?s5 @ notified [?o2] hello\<rparr>)"
    using assms(1-3) n4 s5(1) n6
    unfolding observe_main_def Let_def s1_def [symmetric] s1'_def [symmetric] s2_def [symmetric] s2'_def [symmetric] s3_def [symmetric]
    by simp
  then show ?thesis using s5(3) e3 by (simp add: s4_def notified_def)
qed

theorem observe_main_notifies_witness:
  "\<exists>s'. observe_main 0x100 0x200 0x300 7 (fresh_registry 0x100) = Some (0, s') \<and>
    events s' = [Prints ''notify all\<newline>'', Calls notify_observe_2 7, Calls notify_observe_1 7,
      Prints ''after del observe 1 notify all again\<newline>'', Calls notify_observe_2 7]"
  using observe_main_notifies [of "0x100" "0x200" "0x300" 7 "fresh_registry 0x100"]
  by (simp add: server_head_def fresh_registry_def)

end
