(* ===== verification/ElfAnalys.thy ===== *)
theory ElfAnalys
  imports ElfTypes "HOL-Library.Monad_Syntax"
begin

text \<open>
  The ELF dumper elf/elf_analys.c: its string tables, the three sections it prints and \<open>main\<close>.

  A file is its bytes and a position; \<open>fread\<close> fills as much of a local as the file has and leaves
  the rest as it was; the bytes \<open>junk\<close> are what an uninitialised local holds. What is printed is kept as
  format and arguments (a NULL string is \<open>Nul\<close>). Reading outside a table, writing outside
  \<open>buf\<close> or printing a name that does not end inside \<open>buf\<close> is undefined in C: there the result is
  \<open>None\<close>.
\<close>

datatype arg = Num u64 | Txt string | Nul | Bytes "u8 list"

type_synonym printout = "(string \<times> arg list) list"
type_synonym strings = "(nat \<times> string) list"

subsection \<open>Tables\<close>

text \<open>A designated initialiser: as long as its last index says, NULL where nothing is given.\<close>

definition table_length :: "strings \<Rightarrow> nat" where
  "table_length t = Suc (foldr max (map fst t) 0)"

definition table_entry :: "strings \<Rightarrow> nat \<Rightarrow> arg option" where
  "table_entry t i =
     (if i < table_length t then Some (case map_of t i of None \<Rightarrow> Nul | Some x \<Rightarrow> Txt x) else None)"

definition ei_osabi_str :: strings where
  "ei_osabi_str =
    [(0, ''System V''), (1, ''HP-UX''), (2, ''NetBSD''), (3, ''Linux''), (4, ''GNU Hurd''),
     (6, ''Solaris''), (7, ''AIX''), (8, ''IRIX''), (9, ''FreeBSD''), (0xa, ''Tru64''),
     (0xb, ''Novell Modesto''), (0xc, ''OpenBSD''), (0xd, ''OpenVMS''), (0xe, ''NonStop Kernel''),
     (0xf, ''AROS''), (0x10, ''Fenix OS''), (0x11, ''CloudABI''), (0x12, ''Stratus Technologies'')]"

definition ei_class_str :: strings where
  "ei_class_str =
    [(0, ''None''), (1, ''32-bit''), (2, ''64-bit'')]"

definition ei_data_str :: strings where
  "ei_data_str =
    [(0, ''None''), (1, ''Little Endian''), (2, ''Big Endian'')]"

definition ei_version_str :: strings where
  "ei_version_str =
    [(0, ''Invalid''), (1, ''Current'')]"

definition e_type_str :: strings where
  "e_type_str =
    [(0, ''None''), (1, ''Relocatable file''), (2, ''Executable file''), (3, ''Shared object file''),
     (4, ''Core file'')]"

definition e_machine_str :: strings where
  "e_machine_str =
    [(0, ''None''), (1, ''AT&T WE 32100''), (2, ''SPARC''), (3, ''Intel 80386''), (4, ''Motorola 68000''),
     (5, ''Motorola 88000''), (7, ''Intel 80860''), (8, ''MIPS''), (9, ''IBM System/370''),
     (0xa, ''MIPS RS3000''), (0xf, ''HPPA''), (0x13, ''Intel 80960''), (0x14, ''PowerPC''),
     (0x15, ''PowerPC64''), (0x17, ''IBM SPU/SPC''), (0x24, ''NEC V800''), (0x25, ''Fujitsu FR20''),
     (0x26, ''TRW RH-32''), (0x27, ''Motorola RCE''), (0x28, ''ARM''), (0x29, ''Digital Alpha''),
     (0x2a, ''SuperH''), (0x2b, ''SPARC Version 9''), (0x2c, ''Siemens Tricore''),
     (0x2d, ''Argonaut RISC Core''), (0x2e, ''Hitachi H8/300''), (0x2f, ''Hitachi H8/300H''),
     (0x30, ''Hitachi H8S''), (0x31, ''Hitachi H8/500''), (0x32, ''Intel IA-64 Processor''),
     (0x33, ''Stanford MIPS-X''), (0x34, ''Motorola ColdFire''), (0x35, ''Motorola M68HC12''),
     (0x36, ''Fujitsu MMA Multimedia Accelerator''), (0x37, ''Siemens PCP''),
     (0x38, ''Sony nCPU embedded RISC processor''), (0x39, ''Denso NDR1 microprocessor''),
     (0x3a, ''Motorola Star*Core processor''), (0x3b, ''Toyota ME16 processor''),
     (0x3c, ''STMicroelectronics ST100 processor''),
     (0x3d, ''Advanced Logic Corp. TinyJ embedded processor family''), (0x3e, ''AMD x86-64''),
     (0x3f, ''Sony DSP Processor''), (0x40, ''Digital Equipment Corp. PDP-10''),
     (0x41, ''Digital Equipment Corp. PDP-11''), (0x42, ''Siemens FX66 microprocessor''),
     (0x43, ''STMicroelectronics ST9+ 8/16 bit microprocessor''),
     (0x44, ''STMicroelectronics ST7 8-bit microprocessor''),
     (0x45, ''Motorola MC68HC16 microcontroller''), (0x46, ''Motorola MC68HC11 microcontroller''),
     (0x47, ''Motorola MC68HC08 microcontroller''), (0x48, ''Motorola MC68HC05 microcontroller''),
     (0x49, ''Silicon Graphics SVx''), (0x4a, ''STMicroelectronics ST19 8-bit''), (0x4b, ''Digital VAX''),
     (0x4c, ''Axis Communications 32-bit embedded processor''),
     (0x4d, ''Infineon Technologies 32-bit embedded processor''),
     (0x4e, ''Element 14 64-bit DSP processor''), (0x4f, ''LSI Logic 16-bit DSP processor''),
     (0x8c, ''TMS320C6000 DSP processor''), (0xaf, ''MCST Elbrus e2k''), (0xb7, ''ARM64(Armv8/AArch64)''),
     (0xdc, ''Zilog Z80''), (0xf3, ''RISC-V''), (0xf7, ''Berkeley Packet Filter''),
     (0x101, ''WDC 65C816''), (0x102, ''LoongArch'')]"

definition pt_type_str :: strings where
  "pt_type_str =
    [(0, ''NULL''), (1, ''Loadable segment''), (2, ''Dynamic linking information''),
     (3, ''Interpreter information''), (4, ''Auxiliary information''), (5, ''Reserved''),
     (6, ''Segment containing program header table''), (7, ''Thread-Local Storage segment'')]"

definition p_flags_str :: strings where
  "p_flags_str =
    [(1, ''Executable''), (2, ''Writeable''), (4, ''Readable''), (3, ''Writeable and executable''),
     (5, ''Readable and executable''), (6, ''Readable and writeable''),
     (7, ''Readable, writeable and executable'')]"

definition sh_type_str :: strings where
  "sh_type_str =
    [(0, ''NULL''), (1, ''Program data''), (2, ''Symbol table''), (3, ''String table''),
     (4, ''Relocation entries with addends''), (5, ''Symbol Hash table''),
     (6, ''Dynamic linking information''), (7, ''Notes''), (8, ''Program space without data (bss)''),
     (9, ''Relocation entries without addends''), (0xa, ''Reserved''),
     (0xb, ''Dynamic linker symbol table''), (0xe, ''Init function pointers''),
     (0xf, ''Fini function pointers''), (0x10, ''preinit function pointers''), (0x11, ''Section group''),
     (0x12, ''Extended section indexes''), (0x13, ''Number of defined types'')]"

definition sh_flags_str :: strings where
  "sh_flags_str =
    [(1, ''Writable''), (2, ''Allocatable''), (4, ''Executable''), (0x10, ''Merged''),
     (0x20, ''String data''), (0x40, ''Information''), (0x80, ''Preserve order after combining''),
     (0x100, ''Non-standard OS specific handling required''), (0x200, ''member of a section group''),
     (0x400, ''hold thread-local data'')]"

lemma table_lengths [simp]:
  "table_length ei_osabi_str = 19" "table_length ei_class_str = 3" "table_length ei_data_str = 3"
  "table_length e_type_str = 5" "table_length e_machine_str = 259" "table_length pt_type_str = 8"
  "table_length p_flags_str = 8" "table_length sh_type_str = 20" "table_length sh_flags_str = 1025"
  by (simp_all add: table_length_def ei_osabi_str_def ei_class_str_def ei_data_str_def e_type_str_def
    e_machine_str_def pt_type_str_def p_flags_str_def sh_type_str_def sh_flags_str_def)

subsection \<open>Files\<close>

definition fseek :: "nat \<Rightarrow> u64 \<Rightarrow> nat" where
  "fseek pos off = (if 0 \<le> sint off then unat off else pos)"

definition fread :: "u8 list \<Rightarrow> nat \<Rightarrow> nat \<Rightarrow> u8 list \<Rightarrow> u8 list \<times> nat" where
  "fread file pos n old = (let got = take n (drop pos file) in (got @ drop (length got) old, pos + length got))"

text \<open>A local filled with bytes, as memory at 0.\<close>

definition local_mem :: "u8 list \<Rightarrow> mem" where
  "local_mem bs = (\<lambda>a. if unat a < length bs then bs ! unat a else 0)"

definition read_hdr :: "u8 list \<Rightarrow> u8 list \<Rightarrow> nat \<Rightarrow> Elf64_Ehdr \<times> nat" where
  "read_hdr file junk pos = (case fread file pos 64 (take 64 junk) of (bs, pos') \<Rightarrow> (ld_ehdr (local_mem bs) 0, pos'))"

subsection \<open>The header\<close>

definition parse_elf_head :: "u8 list \<Rightarrow> u8 list \<Rightarrow> nat \<Rightarrow> printout option" where
  "parse_elf_head file junk pos =
     (let h = fst (read_hdr file junk (fseek pos 0));
          id = (\<lambda>i. Num (ucast (e_ident h ! i)))
      in do {
        class \<leftarrow> table_entry ei_class_str (unat (e_ident h ! 4));
        data \<leftarrow> table_entry ei_data_str (unat (e_ident h ! 5));
        osabi \<leftarrow> table_entry ei_osabi_str (unat (e_ident h ! 7));
        type \<leftarrow> table_entry e_type_str (unat (e_type h));
        machine \<leftarrow> table_entry e_machine_str (unat (e_machine h));
        Some [(''ELF header:\<newline>'', []), (''  Magic: %02x %02x %02x %02x\<newline>'', [id 0, id 1, id 2, id 3]),
          (''  Class: %s\<newline>'', [class]), (''  Data: %s\<newline>'', [data]), (''  Version: %d\<newline>'', [id 6]),
          (''  OS/ABI: %s\<newline>'', [osabi]), (''  ABI Version: %d\<newline>'', [id 8]), (''  Type: %s\<newline>'', [type]),
          (''  Machine: %s\<newline>'', [machine]), (''  Version: %d\<newline>'', [Num (ucast (e_version h))]),
          (''  Entry point: 0x%lx\<newline>'', [Num (e_entry h)]),
          (''  Program header offset: 0x%lx\<newline>'', [Num (e_phoff h)]),
          (''  Section header offset: 0x%lx\<newline>'', [Num (e_shoff h)]), (''  Flags: 0x%x\<newline>'', [Num (ucast (e_flags h))]),
          (''  Header size: %d\<newline>'', [Num (ucast (e_ehsize h))]),
          (''  Program header entry size: %d\<newline>'', [Num (ucast (e_phentsize h))]),
          (''  Program header entry count: %d\<newline>'', [Num (ucast (e_phnum h))]),
          (''  Section header entry size: %d\<newline>'', [Num (ucast (e_shentsize h))]),
          (''  Section header entry count: %d\<newline>'', [Num (ucast (e_shnum h))]),
          (''  Section header string index: %d\<newline>'', [Num (ucast (e_shstrndx h))]), (''\<newline>'', [])]
      })"

subsection \<open>Program headers\<close>

text \<open>The processor and system specific types.\<close>

definition special_type :: "u32 \<Rightarrow> printout" where
  "special_type t =
     (if t = 0x6474e550 then [(''  Type: Exception frame\<newline>'', [])]
      else if t = 0x6474e551 then [(''  Type: GNU Stack\<newline>'', [])]
      else if t = 0x6474e552 then [(''  Type: GNU Read-only after relocation\<newline>'', [])]
      else if t = 0x60000012 then [(''  Type: L4 Stack\<newline>'', [])]
      else if t = 0x60000013 then [(''  Type: L4 Kernel Image Page\<newline>'', [])]
      else if t = 0x60000014 then [(''  Type: L4 Auxiliary Page\<newline>'', [])] else [])"

definition print_segment :: "Elf64_Phdr \<Rightarrow> printout option" where
  "print_segment p =
     do {
       ty \<leftarrow> (if unat (p_type p) > table_length pt_type_str then Some (special_type (p_type p))
               else map_option (\<lambda>s. [(''  Type: %s\<newline>'', [s])]) (table_entry pt_type_str (unat (p_type p))));
       flags \<leftarrow> table_entry p_flags_str (unat (p_flags p));
       Some (ty @ [(''  Flags: %s\<newline>'', [flags]), (''  Offset: 0x%lx\<newline>'', [Num (p_offset p)]),
         (''  Vaddr: 0x%lx\<newline>'', [Num (p_vaddr p)]), (''  Paddr: 0x%lx\<newline>'', [Num (p_paddr p)]),
         (''  Filesz: 0x%lx\<newline>'', [Num (p_filesz p)]), (''  Memsz: 0x%lx\<newline>'', [Num (p_memsz p)]),
         (''  Align: 0x%lx\<newline>'', [Num (p_align p)]), (''\<newline>'', [])])
     }"

text \<open>The loop with \<open>k\<close> headers left.\<close>

primrec print_segments :: "u8 list \<Rightarrow> u8 list \<Rightarrow> nat \<Rightarrow> nat \<Rightarrow> printout option" where
  "print_segments file junk pos 0 = Some []"
| "print_segments file junk pos (Suc k) =
     (case fread file pos 56 (take 56 junk) of (bs, pos') \<Rightarrow> do {
        out1 \<leftarrow> print_segment (ld_phdr (local_mem bs) 0);
        out2 \<leftarrow> print_segments file junk pos' k;
        Some (out1 @ out2)
      })"

definition parse_program_header :: "u8 list \<Rightarrow> u8 list \<Rightarrow> nat \<Rightarrow> printout option" where
  "parse_program_header file junk pos =
     (case read_hdr file junk (fseek pos 0) of (h, pos1) \<Rightarrow>
        map_option (\<lambda>out. (''ELF Program header:\<newline>'', []) # out)
          (print_segments file junk (fseek pos1 (e_phoff h)) (unat (e_phnum h))))"

subsection \<open>Section headers\<close>

text \<open>The names of the flags among the bits \<open>js\<close>, with a bar before each but the first.\<close>

fun flag_names :: "u64 \<Rightarrow> u64 list \<Rightarrow> bool \<Rightarrow> printout option" where
  "flag_names flags [] found = Some (if found then [] else [(''0x%x'', [Num flags])])"
| "flag_names flags (j # js) found =
     (if flags AND j \<noteq> 0 then do {
        s \<leftarrow> table_entry sh_flags_str (unat (flags AND j));
        out \<leftarrow> flag_names flags js True;
        Some ((if found then [('' | '', [])] else []) @ (''%s'', [s]) # out)
      }
      else flag_names flags js found)"

definition print_flags :: "u64 \<Rightarrow> printout option" where
  "print_flags flags =
     (if unat flags > table_length sh_flags_str then Some [(''  Flags: 0x%x\<newline>'', [Num flags])]
      else map_option (\<lambda>out. (''  Flags: '', []) # out @ [(''\<newline>'', [])])
             (flag_names flags (map (\<lambda>k. push_bit k 1) [0..<11]) False))"

definition print_section_type :: "u32 \<Rightarrow> printout option" where
  "print_section_type t =
     (if unat t > table_length sh_type_str then
        Some [if t = 0x6ffffff6 then (''  Type: GNU_HASH\<newline>'', [])
              else if t = 0x6fffffff then (''  Type: VERSYM\<newline>'', [])
              else if t = 0x6ffffffe then (''  Type: VERNEED\<newline>'', [])
              else (''  Type: 0x%x\<newline>'', [Num (ucast t)])]
      else map_option (\<lambda>s. [(''  Type: %s\<newline>'', [s])]) (table_entry sh_type_str (unat t)))"

text \<open>The string at an offset in \<open>buf\<close>.\<close>

definition name_in :: "u8 list \<Rightarrow> u32 \<Rightarrow> arg option" where
  "name_in buf off =
     (if 0 \<in> set (drop (unat off) buf) then Some (Bytes (takeWhile (\<lambda>b. b \<noteq> 0) (drop (unat off) buf))) else None)"

definition print_section :: "u8 list \<Rightarrow> nat \<Rightarrow> Elf64_Shdr \<Rightarrow> printout option" where
  "print_section buf i s =
     do {
       name \<leftarrow> name_in buf (sh_name s);
       ty \<leftarrow> print_section_type (sh_type s);
       flags \<leftarrow> print_flags (sh_flags s);
       Some ([(''  Index: %d\<newline>'', [Num (of_nat i)]), (''  Name: %s\<newline>'', [name])] @ ty @ flags @
         [(''  Addr: 0x%lx\<newline>'', [Num (sh_addr s)]), (''  Offset: 0x%lx\<newline>'', [Num (sh_offset s)]),
          (''  Size: 0x%lx\<newline>'', [Num (sh_size s)]), (''  Link: 0x%x\<newline>'', [Num (ucast (sh_link s))]),
          (''  Info: 0x%x\<newline>'', [Num (ucast (sh_info s))]), (''  Addralign: 0x%lx\<newline>'', [Num (sh_addralign s)]),
          (''  Entrysize: 0x%lx\<newline>'', [Num (sh_entsize s)]), (''\<newline>'', [])])
     }"

primrec print_sections :: "u8 list \<Rightarrow> u8 list \<Rightarrow> u8 list \<Rightarrow> nat \<Rightarrow> nat \<Rightarrow> nat \<Rightarrow> printout option" where
  "print_sections file junk buf pos i 0 = Some []"
| "print_sections file junk buf pos i (Suc k) =
     (case fread file pos 64 (take 64 junk) of (bs, pos') \<Rightarrow> do {
        out1 \<leftarrow> print_section buf i (ld_shdr (local_mem bs) 0);
        out2 \<leftarrow> print_sections file junk buf pos' (Suc i) k;
        Some (out1 @ out2)
      })"

definition parse_section_header :: "u8 list \<Rightarrow> u8 list \<Rightarrow> nat \<Rightarrow> printout option" where
  "parse_section_header file junk pos =
     (case read_hdr file junk (fseek pos 0) of (h, pos1) \<Rightarrow>
      case fread file (fseek pos1 (e_shoff h + ucast (e_shstrndx h) * 64)) 64 (take 64 junk) of (bs, pos2) \<Rightarrow>
        let names = ld_shdr (local_mem bs) 0
        in case fread file (fseek pos2 (sh_offset names)) (unat (sh_size names)) (replicate 4096 0) of (buf, pos3) \<Rightarrow>
          if length buf > 4096 then None
          else map_option (\<lambda>out. (''ELF Section header:\<newline>'', []) # out)
                 (print_sections file junk buf (fseek pos3 (e_shoff h)) 0 (unat (e_shnum h))))"

subsection \<open>main\<close>

text \<open>\<open>opened\<close> is what \<open>fopen\<close> gives: the bytes of the file, \<open>None\<close> for NULL.\<close>

definition elf_main :: "int \<Rightarrow> arg list \<Rightarrow> u8 list option \<Rightarrow> u8 list \<Rightarrow> (i32 \<times> printout) option" where
  "elf_main argc argv opened junk =
     (if argc < 2 then Some (- 1, [(''Usage: %s elf_file\<newline>'', [argv ! 0])])
      else case opened of
        None \<Rightarrow> Some (- 1, [(''Open file %s failed\<newline>'', [argv ! 1])])
      | Some file \<Rightarrow>
          (case read_hdr file junk 0 of (h, pos) \<Rightarrow>
             if take 4 (e_ident h) \<noteq> [0x7f, 0x45, 0x4c, 0x46] then Some (- 1, [(''Not a valid ELF file\<newline>'', [])])
             else do {
               out1 \<leftarrow> parse_elf_head file junk pos;
               out2 \<leftarrow> parse_program_header file junk pos;
               out3 \<leftarrow> parse_section_header file junk pos;
               Some (0, out1 @ out2 @ out3)
             }))"

end
