(* ===== verification/ElfAnalys_Claims.thy ===== *)
theory ElfAnalys_Claims
  imports ElfAnalys
begin

text \<open>
  When the ELF dumper stays inside its tables. On a file that holds all its headers the dumper is
  defined exactly when every index it looks up is in range; the tests it makes itself are off by
  one, so one type just behind each table is read from beyond its end.
\<close>

subsection \<open>Reading a complete file\<close>

definition segment_at :: "u8 list \<Rightarrow> nat \<Rightarrow> Elf64_Phdr" where
  "segment_at file pos = ld_phdr (local_mem (take 56 (drop pos file))) 0"

definition section_at :: "u8 list \<Rightarrow> nat \<Rightarrow> Elf64_Shdr" where
  "section_at file pos = ld_shdr (local_mem (take 64 (drop pos file))) 0"

definition header_of :: "u8 list \<Rightarrow> Elf64_Ehdr" where
  "header_of file = ld_ehdr (local_mem (take 64 file)) 0"

lemma fread_complete:
  "pos + n \<le> length file \<Longrightarrow> length old \<le> n \<Longrightarrow> fread file pos n old = (take n (drop pos file), pos + n)"
  by (simp add: fread_def Let_def)

lemma fseek_forward: "unat off < 2 ^ 63 \<Longrightarrow> fseek pos off = unat off"
proof -
  assume "unat off < 2 ^ 63"
  then have "sint off = int (unat off)" using sint_of_nat_small [of "unat off", where 'a = 64] by simp
  then show ?thesis by (simp add: fseek_def)
qed

lemma fseek_start [simp]: "fseek pos 0 = 0"
  by (simp add: fseek_def)

lemma read_hdr_complete:
  "64 \<le> length file \<Longrightarrow> read_hdr file junk 0 = (header_of file, 64)"
  by (simp add: read_hdr_def fread_complete header_of_def)

subsection \<open>Lookups\<close>

lemma table_entry_iff: "table_entry t i = None \<longleftrightarrow> table_length t \<le> i"
  by (auto simp: table_entry_def)

definition header_ok :: "Elf64_Ehdr \<Rightarrow> bool" where
  "header_ok h \<longleftrightarrow> e_ident h ! 4 < 3 \<and> e_ident h ! 5 < 3 \<and> e_ident h ! 7 < 19 \<and> e_type h < 5 \<and> e_machine h < 259"

definition segment_ok :: "Elf64_Phdr \<Rightarrow> bool" where
  "segment_ok p \<longleftrightarrow> p_type p \<noteq> 8 \<and> p_flags p < 8"

definition section_ok :: "u8 list \<Rightarrow> Elf64_Shdr \<Rightarrow> bool" where
  "section_ok buf s \<longleftrightarrow> 0 \<in> set (drop (unat (sh_name s)) buf) \<and> sh_type s \<noteq> 20"

lemma print_segment_iff: "print_segment p = None \<longleftrightarrow> \<not> segment_ok p"
proof -
  have "unat (p_type p) = 8 \<longleftrightarrow> p_type p = 8" "unat (p_flags p) < 8 \<longleftrightarrow> p_flags p < 8"
    using word_less_nat_alt [of "p_flags p" 8] word_unat_eq_iff [of "p_type p" 8] by simp_all
  then show ?thesis
    by (auto simp: print_segment_def segment_ok_def bind_eq_None_conv table_entry_iff not_less not_le)
qed

lemma flag_names_defined: "\<forall>j \<in> set js. unat j < 1025 \<Longrightarrow> flag_names flags js found \<noteq> None"
proof (induction flags js found rule: flag_names.induct)
  case (2 flags j js found)
  have "unat (flags AND j) \<le> unat j" using word_and_le1 [of flags j] by (simp add: word_le_nat_alt and.commute)
  then have "table_entry sh_flags_str (unat (flags AND j)) \<noteq> None"
    using 2(3) by (simp add: table_entry_iff)
  then show ?case using 2 by (cases "flags AND j = 0") (auto simp: bind_eq_None_conv)
qed simp

lemma print_flags_defined: "print_flags flags \<noteq> None"
proof -
  have "\<forall>j \<in> set (map (\<lambda>k. push_bit k 1) [0..<11]). unat (j :: u64) < 1025" by (simp add: upt_rec push_bit_eq_mult)
  from flag_names_defined [OF this] show ?thesis by (simp add: print_flags_def del: upt.simps)
qed

lemma print_section_iff: "print_section buf i s = None \<longleftrightarrow> \<not> section_ok buf s"
proof -
  have "unat (sh_type s) = 20 \<longleftrightarrow> sh_type s = 20" using word_unat_eq_iff [of "sh_type s" 20] by simp
  moreover have "\<exists>fl. print_flags (sh_flags s) = Some fl" using print_flags_defined by auto
  ultimately show ?thesis
    by (auto simp: print_section_def section_ok_def name_in_def print_section_type_def bind_eq_None_conv table_entry_iff not_less not_le)
qed

lemma head_iff:
  assumes "64 \<le> length file"
  shows "parse_elf_head file junk pos = None \<longleftrightarrow> \<not> header_ok (header_of file)"
proof -
  let ?h = "header_of file"
  have "unat (e_ident ?h ! 4) < 3 \<longleftrightarrow> e_ident ?h ! 4 < 3" "unat (e_ident ?h ! 5) < 3 \<longleftrightarrow> e_ident ?h ! 5 < 3"
    "unat (e_ident ?h ! 7) < 19 \<longleftrightarrow> e_ident ?h ! 7 < 19" "unat (e_type ?h) < 5 \<longleftrightarrow> e_type ?h < 5"
    "unat (e_machine ?h) < 259 \<longleftrightarrow> e_machine ?h < 259"
    by (simp_all add: word_less_nat_alt)
  then show ?thesis
    by (auto simp: parse_elf_head_def read_hdr_complete [OF assms] header_ok_def bind_eq_None_conv table_entry_iff not_less not_le Let_def)
qed

lemma segments_iff:
  "pos + 56 * k \<le> length file \<Longrightarrow>
    print_segments file junk pos k = None \<longleftrightarrow> (\<exists>i < k. \<not> segment_ok (segment_at file (pos + 56 * i)))"
proof (induction k arbitrary: pos)
  case (Suc k)
  have "print_segments file junk (pos + 56) k = None \<longleftrightarrow> (\<exists>i < k. \<not> segment_ok (segment_at file (pos + 56 + 56 * i)))"
    by (rule Suc.IH) (use Suc.prems in simp)
  moreover have "fread file pos 56 (take 56 junk) = (take 56 (drop pos file), pos + 56)"
    by (rule fread_complete) (use Suc.prems in simp_all)
  moreover have "(\<exists>i < Suc k. \<not> segment_ok (segment_at file (pos + 56 * i))) \<longleftrightarrow>
      \<not> segment_ok (segment_at file pos) \<or> (\<exists>i < k. \<not> segment_ok (segment_at file (pos + 56 + 56 * i)))"
    by (subst Ex_less_Suc2) (simp add: algebra_simps)
  ultimately show ?case by (auto simp: bind_eq_None_conv print_segment_iff segment_at_def)
qed simp

lemma sections_iff:
  "pos + 64 * k \<le> length file \<Longrightarrow>
    print_sections file junk buf pos j k = None \<longleftrightarrow> (\<exists>i < k. \<not> section_ok buf (section_at file (pos + 64 * i)))"
proof (induction k arbitrary: pos j)
  case (Suc k)
  have "print_sections file junk buf (pos + 64) (Suc j) k = None \<longleftrightarrow>
      (\<exists>i < k. \<not> section_ok buf (section_at file (pos + 64 + 64 * i)))"
    by (rule Suc.IH) (use Suc.prems in simp)
  moreover have "fread file pos 64 (take 64 junk) = (take 64 (drop pos file), pos + 64)"
    by (rule fread_complete) (use Suc.prems in simp_all)
  moreover have "(\<exists>i < Suc k. \<not> section_ok buf (section_at file (pos + 64 * i))) \<longleftrightarrow>
      \<not> section_ok buf (section_at file pos) \<or> (\<exists>i < k. \<not> section_ok buf (section_at file (pos + 64 + 64 * i)))"
    by (subst Ex_less_Suc2) (simp add: algebra_simps)
  ultimately show ?case by (auto simp: bind_eq_None_conv print_section_iff section_at_def)
qed simp

subsection \<open>Properties\<close>

text \<open>A file that holds its header and both tables.\<close>

definition complete_file :: "u8 list \<Rightarrow> bool" where
  "complete_file file \<longleftrightarrow> 64 \<le> length file \<and> length file < 2 ^ 63 \<and>
     unat (e_phoff (header_of file)) + 56 * unat (e_phnum (header_of file)) \<le> length file \<and>
     unat (e_shoff (header_of file)) + 64 * unat (e_shnum (header_of file)) \<le> length file \<and>
     e_shstrndx (header_of file) < e_shnum (header_of file)"

definition segment_headers :: "u8 list \<Rightarrow> Elf64_Phdr list" where
  "segment_headers file = map (\<lambda>i. segment_at file (unat (e_phoff (header_of file)) + 56 * i)) [0..<unat (e_phnum (header_of file))]"

definition section_headers :: "u8 list \<Rightarrow> Elf64_Shdr list" where
  "section_headers file = map (\<lambda>i. section_at file (unat (e_shoff (header_of file)) + 64 * i)) [0..<unat (e_shnum (header_of file))]"

definition names_header :: "u8 list \<Rightarrow> Elf64_Shdr" where
  "names_header file = section_headers file ! unat (e_shstrndx (header_of file))"

text \<open>The section names as they are read into the buffer.\<close>

definition names_of :: "u8 list \<Rightarrow> u8 list" where
  "names_of file = (let s = names_header file in
     take (unat (sh_size s)) (drop (unat (sh_offset s)) file) @ replicate (4096 - unat (sh_size s)) 0)"

lemma program_headers_iff:
  assumes "complete_file file"
  shows "parse_program_header file junk pos = None \<longleftrightarrow> (\<exists>p \<in> set (segment_headers file). \<not> segment_ok p)"
proof -
  have "64 \<le> length file" "fseek 64 (e_phoff (header_of file)) = unat (e_phoff (header_of file))"
    using assms by (simp_all add: complete_file_def fseek_forward)
  then show ?thesis
    using segments_iff [where pos = "unat (e_phoff (header_of file))" and k = "unat (e_phnum (header_of file))"] assms
    by (auto simp: parse_program_header_def read_hdr_complete segment_headers_def complete_file_def)
qed

lemma section_headers_iff:
  assumes c: "complete_file file"
    and names: "unat (sh_offset (names_header file)) + unat (sh_size (names_header file)) \<le> length file"
  shows "parse_section_header file junk pos = None \<longleftrightarrow>
    4096 < unat (sh_size (names_header file)) \<or> (\<exists>s \<in> set (section_headers file). \<not> section_ok (names_of file) s)"
proof -
  let ?h = "header_of file" and ?s = "names_header file"
  have len: "64 \<le> length file" "length file < 2 ^ 63" using c by (simp_all add: complete_file_def)
  have n: "unat (e_shoff ?h) + 64 * unat (e_shnum ?h) \<le> length file" "unat (e_shstrndx ?h) < unat (e_shnum ?h)"
    using c by (simp_all add: complete_file_def word_less_nat_alt)
  have idx: "unat (e_shoff ?h + ucast (e_shstrndx ?h) * 64) = unat (e_shoff ?h) + 64 * unat (e_shstrndx ?h)"
  proof -
    have "e_shoff ?h + ucast (e_shstrndx ?h) * 64 = of_nat (unat (e_shoff ?h) + 64 * unat (e_shstrndx ?h))"
      by simp
    moreover have "unat (e_shoff ?h) + 64 * unat (e_shstrndx ?h) < 2 ^ 64" using n len by simp
    ultimately show ?thesis by (simp add: unat_of_nat_small del: of_nat_add)
  qed
  have s: "section_at file (unat (e_shoff ?h) + 64 * unat (e_shstrndx ?h)) = ?s"
    using n by (simp add: names_header_def section_headers_def)
  have off: "fseek p (e_shoff ?h) = unat (e_shoff ?h)" "fseek p (sh_offset ?s) = unat (sh_offset ?s)"
    "fseek p (e_shoff ?h + ucast (e_shstrndx ?h) * 64) = unat (e_shoff ?h) + 64 * unat (e_shstrndx ?h)" for p
    using n names len by (simp_all add: fseek_forward idx)
  have hdr: "fread file (unat (e_shoff ?h) + 64 * unat (e_shstrndx ?h)) 64 (take 64 junk)
      = (take 64 (drop (unat (e_shoff ?h) + 64 * unat (e_shstrndx ?h)) file), unat (e_shoff ?h) + 64 * unat (e_shstrndx ?h) + 64)"
    by (rule fread_complete) (use n in simp_all)
  obtain buf pos3 where b: "fread file (unat (sh_offset ?s)) (unat (sh_size ?s)) (replicate 4096 0) = (buf, pos3)" by fastforce
  then have buf: "buf = names_of file" using names by (auto simp: fread_def names_of_def Let_def drop_replicate)
  have "length buf = max 4096 (unat (sh_size ?s))" using names by (simp add: buf names_of_def Let_def)
  then have l: "4096 < length buf \<longleftrightarrow> 4096 < unat (sh_size ?s)" by auto
  have sl: "ld_shdr (local_mem (take 64 (drop (unat (e_shoff ?h) + 64 * unat (e_shstrndx ?h)) file))) 0 = ?s"
    using s by (simp add: section_at_def)
  have "parse_section_header file junk pos = (if 4096 < unat (sh_size ?s) then None
      else map_option (\<lambda>out. (''ELF Section header:\<newline>'', []) # out)
             (print_sections file junk buf (unat (e_shoff ?h)) 0 (unat (e_shnum ?h))))"
    unfolding parse_section_header_def fseek_start read_hdr_complete [OF len(1)] prod.case off hdr sl Let_def b l by simp
  then show ?thesis
    using sections_iff [where pos = "unat (e_shoff ?h)" and k = "unat (e_shnum ?h)"] n
    by (auto simp: buf section_headers_def)
qed

text \<open>A file with one segment, of the given type, and one section.\<close>

definition demo_hdr :: Elf64_Ehdr where
  "demo_hdr = \<lparr>e_ident = [0x7f, 0x45, 0x4c, 0x46, 2, 1, 1, 0, 0, 0, 0, 0, 0, 0, 0, 0], e_type = 3, e_machine = 0xb7,
     e_version = 1, e_entry = 0, e_phoff = 64, e_shoff = 120, e_flags = 0, e_ehsize = 64, e_phentsize = 56,
     e_phnum = 1, e_shentsize = 64, e_shnum = 1, e_shstrndx = 0\<rparr>"

definition demo_seg :: "u32 \<Rightarrow> Elf64_Phdr" where
  "demo_seg t = \<lparr>p_type = t, p_flags = 5, p_offset = 0, p_vaddr = 0, p_paddr = 0, p_filesz = 0, p_memsz = 0, p_align = 0\<rparr>"

definition demo_sec :: Elf64_Shdr where
  "demo_sec = \<lparr>sh_name = 0, sh_type = 3, sh_flags = 0, sh_addr = 0, sh_offset = 184, sh_size = 1, sh_link = 0,
     sh_info = 0, sh_addralign = 1, sh_entsize = 0\<rparr>"

definition demo_file :: "u32 \<Rightarrow> u8 list" where
  "demo_file t = ehdr_bytes demo_hdr @ phdr_bytes (demo_seg t) @ shdr_bytes demo_sec @ [0]"

lemma local_mem_bytes: "length bs < 2 ^ 64 \<Longrightarrow> bytes_at (local_mem bs) 0 (length bs) = bs"
  by (rule nth_equalityI) (simp_all add: local_mem_def unat_of_nat_small)

lemma demo_lengths: "length (ehdr_bytes demo_hdr) = 64" "length (phdr_bytes (demo_seg t)) = 56"
  "length (shdr_bytes demo_sec) = 64"
  by (simp_all add: ehdr_bytes_def demo_hdr_def phdr_bytes_def demo_seg_def shdr_bytes_def demo_sec_def)

lemma demo_length: "length (demo_file t) = 185"
  by (simp add: demo_file_def demo_lengths)

lemma demo_header: "header_of (demo_file t) = demo_hdr"
proof -
  have "take 64 (demo_file t) = ehdr_bytes demo_hdr" by (simp add: demo_file_def demo_lengths)
  moreover have "bytes_at (local_mem (ehdr_bytes demo_hdr)) 0 64 = ehdr_bytes demo_hdr"
    using local_mem_bytes [of "ehdr_bytes demo_hdr"] by (simp add: demo_lengths)
  ultimately show ?thesis by (simp add: header_of_def ld_ehdr_bytes) (simp add: ld_ehdr_bytes demo_hdr_def)
qed

lemma demo_segment: "segment_at (demo_file t) 64 = demo_seg t"
proof -
  have "take 56 (drop 64 (demo_file t)) = phdr_bytes (demo_seg t)" by (simp add: demo_file_def demo_lengths)
  moreover have "bytes_at (local_mem (phdr_bytes (demo_seg t))) 0 56 = phdr_bytes (demo_seg t)"
    using local_mem_bytes [of "phdr_bytes (demo_seg t)"] by (simp add: demo_lengths)
  ultimately show ?thesis by (simp add: segment_at_def ld_phdr_bytes)
qed

lemma demo_section: "section_at (demo_file t) 120 = demo_sec"
proof -
  have "take 64 (drop 120 (demo_file t)) = shdr_bytes demo_sec" by (simp add: demo_file_def demo_lengths)
  moreover have "bytes_at (local_mem (shdr_bytes demo_sec)) 0 64 = shdr_bytes demo_sec"
    using local_mem_bytes [of "shdr_bytes demo_sec"] by (simp add: demo_lengths)
  ultimately show ?thesis by (simp add: section_at_def ld_shdr_bytes)
qed

text \<open>C34. On a file that contains its header, both header tables and the section names, the dumper
  runs to its end (and then returns 0) exactly when the fields it uses as indices are in range: the
  class, data, ABI, type and machine of the header, for every segment a type other than 8 and flags
  below 8, for every section a type other than 20 and a name that ends inside the buffer, and names of
  at most 4096 bytes. The types 8 and 20, the lengths of the tables, pass the dumper's own tests and
  are read from behind the tables.\<close>

theorem elf_dump_in_range:
  assumes "complete_file file" and "2 \<le> argc" and "take 4 (e_ident (header_of file)) = [0x7f, 0x45, 0x4c, 0x46]"
    and "unat (sh_offset (names_header file)) + unat (sh_size (names_header file)) \<le> length file"
  shows "(\<exists>out. elf_main argc argv (Some file) junk = Some (0, out)) \<longleftrightarrow>
    header_ok (header_of file) \<and> (\<forall>p \<in> set (segment_headers file). segment_ok p) \<and>
    unat (sh_size (names_header file)) \<le> 4096 \<and> (\<forall>s \<in> set (section_headers file). section_ok (names_of file) s)"
proof -
  have len: "64 \<le> length file" using assms(1) by (simp add: complete_file_def)
  have "(\<exists>out. elf_main argc argv (Some file) junk = Some (0, out)) \<longleftrightarrow>
    parse_elf_head file junk 64 \<noteq> None \<and> parse_program_header file junk 64 \<noteq> None \<and> parse_section_header file junk 64 \<noteq> None"
    using assms(2,3) by (auto simp: elf_main_def read_hdr_complete [OF len] bind_eq_Some_conv)
  then show ?thesis
    using head_iff [OF len, of junk 64] program_headers_iff [OF assms(1), of junk 64]
      section_headers_iff [OF assms(1,4), of junk 64]
    by (auto simp: not_less)
qed

theorem elf_dump_in_range_witness:
  "(\<exists>out. elf_main 2 [] (Some (demo_file 1)) [] = Some (0, out)) \<and>
   \<not> (\<exists>out. elf_main 2 [] (Some (demo_file 8)) [] = Some (0, out))"
proof -
  have c: "complete_file (demo_file t)" for t
    by (simp add: complete_file_def demo_length demo_header) (simp add: demo_hdr_def)
  have segs: "segment_headers (demo_file t) = [demo_seg t]" and secs: "section_headers (demo_file t) = [demo_sec]" for t
    by (simp_all add: segment_headers_def section_headers_def demo_header)
      (simp_all add: demo_hdr_def demo_segment demo_section)
  have names: "names_header (demo_file t) = demo_sec" for t
    by (simp add: names_header_def secs demo_header) (simp add: demo_hdr_def)
  have "drop 184 (demo_file t) = [0]" for t by (simp add: demo_file_def demo_lengths)
  then have buf: "names_of (demo_file t) = 0 # replicate 4095 0" for t
    by (simp add: names_of_def names demo_sec_def)
  have "(\<exists>out. elf_main 2 [] (Some (demo_file t)) [] = Some (0, out)) \<longleftrightarrow> segment_ok (demo_seg t)" for t
    using elf_dump_in_range [OF c, of 2 t "[]" "[]"]
    by (simp add: segs secs names demo_length demo_header buf section_ok_def header_ok_def demo_sec_def)
      (simp add: demo_hdr_def)
  then show ?thesis by (simp add: segment_ok_def demo_seg_def)
qed

end
