(* ===== verification/Logger.thy ===== *)
theory Logger
  imports Printf
begin

text \<open>
  The logger of mini_libc/src/logger.c: a level, a filter, and lines of the form
  \<open>[level][file:line][function] message\<close> put together in a buffer of 1024 bytes and written to
  descriptor 1. \<open>log_frame\<close> holds the addresses of the locals (the buffer, and the arrays inside the
  two calls of the bounded printer) and of the literals.
\<close>

record 'k logger =
  lworld :: "'k world"
  current_log_level :: i32

record log_frame =
  lf_buf :: u64
  lf_num1 :: u64
  lf_temp1 :: u64
  lf_num2 :: u64
  lf_temp2 :: u64
  lf_header_fmt :: u64
  lf_level_str :: "u64 list"
  lf_bad_params :: u64
  lf_bad_level :: u64
  lf_long_header :: u64
  lf_no_space :: u64
  lf_long_content :: u64
  lf_newline :: u64

subsection \<open>Operations\<close>

partial_function (option) get_filename_loop :: "mem \<Rightarrow> u64 \<Rightarrow> u64 \<Rightarrow> u64 option" where
  "get_filename_loop m filename p =
     (if m p \<noteq> 0 then get_filename_loop m (if m p = 47 then p + 1 else filename) (p + 1) else Some filename)"

definition get_filename :: "mem \<Rightarrow> u64 \<Rightarrow> u64 option" where
  "get_filename m path = get_filename_loop m path path"

definition put_out :: "'k kernel \<Rightarrow> i32 \<Rightarrow> u64 \<Rightarrow> i32 \<Rightarrow> 'k logger \<Rightarrow> 'k logger" where
  "put_out K fd buf n s = s\<lparr>lworld := snd (sys_write K fd buf n (lworld s))\<rparr>"

definition in_logger :: "mem \<Rightarrow> 'k logger \<Rightarrow> 'k logger" where
  "in_logger m s = s\<lparr>lworld := (lworld s)\<lparr>wmem := m\<rparr>\<rparr>"

definition log_output :: "'k kernel \<Rightarrow> log_frame \<Rightarrow> i32 \<Rightarrow> u64 \<Rightarrow> u64 \<Rightarrow> i32 \<Rightarrow> u64 \<Rightarrow> u64 list \<Rightarrow> 'k logger \<Rightarrow> 'k logger option" where
  "log_output K F level file func line fmt args s =
     (if file = 0 \<or> func = 0 \<or> fmt = 0 then Some (put_out K 2 (lf_bad_params F) 22 s)
      else if sint level < 0 \<or> sint level > 2 then Some (put_out K 2 (lf_bad_level F) 17 s)
      else if sint level < sint (current_log_level s) then Some s
      else Option.bind (get_filename (wmem (lworld s)) file) (\<lambda>filename.
        Option.bind (snprintf (lf_num1 F) (lf_temp1 F) (wmem (lworld s)) (lf_buf F) 1024 (lf_header_fmt F)
            [lf_level_str F ! unat level, filename, scast line, func]) (\<lambda>(m1, header_len).
          let s1 = in_logger m1 s
          in if sint header_len < 0 \<or> scast header_len \<ge> (1024 :: u64) then Some (put_out K 2 (lf_long_header F) 19 s1)
          else let remaining = 1024 - header_len
          in if sint remaining \<le> 0 then Some (put_out K 2 (lf_no_space F) 24 s1)
          else Option.bind (vsnprintf (lf_num2 F) (lf_temp2 F) m1 (lf_buf F + scast header_len) (scast remaining) fmt args)
            (\<lambda>(m2, content_len).
              let s2 = in_logger m2 s
              in if sint content_len < 0 \<or> sint content_len \<ge> sint remaining
                 then Some (put_out K 2 (lf_long_content F) 20 s2)
                 else Some (put_out K 1 (lf_newline F) 1 (put_out K 1 (lf_buf F) (header_len + content_len) s2))))))"

definition set_log_level :: "i32 \<Rightarrow> 'k logger \<Rightarrow> 'k logger" where
  "set_log_level level s = (if 0 \<le> sint level \<and> sint level \<le> 2 then s\<lparr>current_log_level := level\<rparr> else s)"

subsection \<open>The file name\<close>

text \<open>What follows the last slash.\<close>

definition basename :: "u8 list \<Rightarrow> u8 list" where
  "basename xs = rev (takeWhile (\<lambda>c. c \<noteq> 47) (rev xs))"

lemma basename_Cons:
  "basename (x # xs) = (if 47 \<in> set xs then basename xs else if x = 47 then xs else x # xs)"
proof (cases "47 \<in> set xs")
  case True
  then have "takeWhile (\<lambda>c. c \<noteq> 47) (rev xs @ [x]) = takeWhile (\<lambda>c. c \<noteq> 47) (rev xs)"
    by (intro takeWhile_append1 [where x = 47]) simp_all
  with True show ?thesis by (simp add: basename_def)
next
  case False
  then have "takeWhile (\<lambda>c. c \<noteq> 47) (rev xs @ [x]) = rev xs @ takeWhile (\<lambda>c. c \<noteq> 47) [x]"
    by (intro takeWhile_append2) auto
  with False show ?thesis by (simp add: basename_def)
qed

lemma basename_whole: "47 \<notin> set xs \<Longrightarrow> basename xs = xs"
  by (induction xs) (simp_all add: basename_Cons, simp add: basename_def)

lemma length_basename: "length (basename xs) \<le> length xs"
  using length_takeWhile_le [of "\<lambda>c. c \<noteq> 47" "rev xs"] by (simp add: basename_def)

lemma get_filename_loop_eq:
  "cstr m p xs \<Longrightarrow> get_filename_loop m f p
     = Some (if 47 \<in> set xs then p + of_nat (length xs - length (basename xs)) else f)"
proof (induction xs arbitrary: p f)
  case Nil
  then show ?case by (simp add: get_filename_loop.simps [of m f p])
next
  case (Cons x xs)
  have x: "m p = x" "x \<noteq> 0" "cstr m (p + 1) xs" using Cons.prems by auto
  note IH = Cons.IH [OF x(3), of "if x = 47 then p + 1 else f"]
  have "of_nat (Suc (length xs) - length (basename xs)) = (1 + of_nat (length xs - length (basename xs)) :: u64)"
    using length_basename [of xs] by (simp add: Suc_diff_le)
  then show ?case
    using IH x(1,2) by (auto simp: get_filename_loop.simps [of m f p] basename_Cons)
qed

lemma get_filename_eq:
  assumes "cstr m p xs"
  shows "get_filename m p = Some (p + of_nat (length xs - length (basename xs)))"
  using get_filename_loop_eq [OF assms] basename_whole [of xs] by (auto simp: get_filename_def)

subsection \<open>The bounded printer, with its frame\<close>

text \<open>The addresses a call of the bounded printer may change.\<close>

definition scratch :: "u64 \<Rightarrow> u64 \<Rightarrow> nat \<Rightarrow> u64 \<Rightarrow> bool" where
  "scratch nb temp n a \<longleftrightarrow> in_region temp n a \<or> in_region nb 32 a"

lemma vsnprintf_fits:
  assumes r: "libc_render S fs args = Some out" "ready S nb m temp s fs (length out)"
    and nz: "buf \<noteq> 0" "s \<noteq> 0" and sz: "length out < unat sz" "length out < 1024"
    and ap: "apart buf (length out + 1) temp (length out + 1)"
  shows "\<exists>m'. vsnprintf nb temp m buf sz s args = Some (m', of_nat (length out)) \<and>
    bytes_at m' buf (length out) = out \<and>
    (\<forall>a. \<not> in_region buf (length out + 1) a \<and> \<not> scratch nb temp (length out + 1) a \<longrightarrow> m' a = m a)"
proof -
  have "sz \<noteq> 0" using sz(1) by auto
  then obtain m1 where e: "emitted nb m temp (out @ [0]) m1" and run: "vsnprintf nb temp m buf sz s args =
      Some ((fst (memcpy m1 buf temp (of_nat (length out))))(buf + of_nat (length out) := 0), of_nat (length out))"
    using libc_format.vsnprintf_eq [OF r nz _ sz(2), of sz memcpy] sz(1) unfolding vsnprintf_def by auto
  have len: "length out < 2 ^ 64" using sz(2) by simp
  have "bytes_at m1 temp (length out) = out"
    using e bytes_at_add [of m1 temp "length out" 1] by (simp add: emitted_def)
  then have w: "(fst (memcpy m1 buf temp (of_nat (length out))))(buf + of_nat (length out) := 0) = write_bytes m1 buf (out @ [0])"
    using ap by (intro libc_copy.copy_terminate len apart_mono [OF ap]) simp_all
  have "bytes_at (write_bytes m1 buf (out @ [0])) buf (length (out @ [0])) = out @ [0]"
    by (rule bytes_at_write_same) (use sz(2) in simp_all)
  then have "bytes_at (write_bytes m1 buf (out @ [0])) buf (length out) = out"
    using bytes_at_add [of "write_bytes m1 buf (out @ [0])" buf "length out" 1] by simp
  moreover have "write_bytes m1 buf (out @ [0]) a = m a"
    if "\<not> in_region buf (length out + 1) a" "\<not> scratch nb temp (length out + 1) a" for a
    using that e sz(2) by (simp add: write_bytes_other emitted_def scratch_def)
  ultimately show ?thesis using run w by auto
qed

lemma vsnprintf_too_long:
  assumes r: "libc_render S fs args = Some out" "ready S nb m temp s fs (length out)"
    and nz: "buf \<noteq> 0" "s \<noteq> 0" "sz \<noteq> 0" and sz: "unat sz \<le> length out" "length out < 1024"
  shows "\<exists>m'. vsnprintf nb temp m buf sz s args = Some (m', - 1) \<and>
    (\<forall>a. \<not> scratch nb temp (length out + 1) a \<longrightarrow> m' a = m a)"
  using libc_format.vsnprintf_eq [OF r nz sz(2), of memcpy] sz(1) unfolding vsnprintf_def emitted_def scratch_def by fastforce

end
