(* ===== verification/Logger_Claims.thy ===== *)
theory Logger_Claims
  imports Logger
begin

text \<open>
  What a call of the logger writes: one line to descriptor 1 when it fits the buffer, a message to
  descriptor 2 and nothing to descriptor 1 when it does not, nothing below the current level.
\<close>

text \<open>The bytes of \<open>[%s][%s:%d][%s]\<close> and a blank.\<close>

definition header_format :: "u8 list" where
  "header_format = [91, 37, 115, 93, 91, 37, 115, 58, 37, 100, 93, 91, 37, 115, 93, 32]"

definition header_text :: "u8 list \<Rightarrow> u8 list \<Rightarrow> i32 \<Rightarrow> u8 list \<Rightarrow> u8 list" where
  "header_text lvl name line fn =
     [91] @ lvl @ [93, 91] @ name @ [58] @ itoa_spec (scast line) 10 1 @ [93, 91] @ fn @ [93, 32]"

lemma ucast_scast32: "ucast (scast (x :: i32) :: u64) = x"
  by (rule bit_word_eqI) (simp add: bit_simps)

lemma header_renders:
  "S l = Some lvl \<Longrightarrow> S f = Some name \<Longrightarrow> S g = Some fn \<Longrightarrow>
   libc_render S header_format [l, f, scast line, g] = Some (header_text lvl name line fn)"
  by (simp add: header_format_def header_text_def render.simps(2) get_utf8_char_length_def ucast_scast32)

text \<open>A string that the header call leaves alone, and the strings of a call.\<close>

definition clear_of_header :: "log_frame \<Rightarrow> u64 \<Rightarrow> u8 list \<Rightarrow> bool" where
  "clear_of_header F p xs \<longleftrightarrow> length xs < 2 ^ 64 \<and> apart (lf_buf F) 1024 p (Suc (length xs)) \<and>
     apart (lf_temp1 F) 1024 p (Suc (length xs)) \<and> apart (lf_num1 F) 32 p (Suc (length xs))"

definition header_ready :: "log_frame \<Rightarrow> mem \<Rightarrow> (u64 \<rightharpoonup> u8 list) \<Rightarrow> i32 \<Rightarrow> u64 \<Rightarrow> u8 list \<Rightarrow> u64 \<Rightarrow> u8 list \<Rightarrow> u8 list \<Rightarrow> u8 list \<Rightarrow> bool" where
  "header_ready F m S level file path func fn lvl hdr \<longleftrightarrow>
     lf_buf F \<noteq> 0 \<and> lf_header_fmt F \<noteq> 0 \<and> file \<noteq> 0 \<and> func \<noteq> 0 \<and> cstr m file path \<and>
     S (lf_level_str F ! unat level) = Some lvl \<and> S func = Some fn \<and>
     S (file + of_nat (length path - length (basename path))) = Some (basename path) \<and>
     ready S (lf_num1 F) m (lf_temp1 F) (lf_header_fmt F) header_format (length hdr) \<and>
     length hdr < 1024 \<and> apart (lf_buf F) 1024 (lf_temp1 F) 1024"

definition content_ready :: "log_frame \<Rightarrow> mem \<Rightarrow> (u64 \<rightharpoonup> u8 list) \<Rightarrow> u64 \<Rightarrow> u8 list \<Rightarrow> u8 list \<Rightarrow> u8 list \<Rightarrow> bool" where
  "content_ready F m S fmt fs hdr out \<longleftrightarrow>
     fmt \<noteq> 0 \<and> lf_buf F + of_nat (length hdr) \<noteq> 0 \<and> ready S (lf_num2 F) m (lf_temp2 F) fmt fs (length out) \<and>
     length out < 1024 \<and> clear_of_header F fmt fs \<and> (\<forall>a xs. S a = Some xs \<longrightarrow> clear_of_header F a xs) \<and>
     apart (lf_buf F) 1024 (lf_temp2 F) (length out + 1) \<and> apart (lf_buf F) 1024 (lf_num2 F) 32"

lemma clear_keeps:
  assumes "clear_of_header F p xs" and "n \<le> 1024"
    and "\<forall>a. \<not> in_region (lf_buf F) n a \<and> \<not> scratch (lf_num1 F) (lf_temp1 F) n a \<longrightarrow> m1 a = m a"
  shows "cstr m1 p xs = cstr m p xs"
proof (rule cstr_cong)
  fix i assume i: "i \<le> length xs"
  have "in_region p (Suc (length xs)) (p + of_nat i)"
    by (rule in_region_index) (use i assms(1) in \<open>simp_all add: clear_of_header_def\<close>)
  moreover have "apart p (Suc (length xs)) (lf_buf F) n" "apart p (Suc (length xs)) (lf_temp1 F) n"
    "apart p (Suc (length xs)) (lf_num1 F) 32"
    using assms(1,2) apart_mono [of _ 1024 p "Suc (length xs)" n "Suc (length xs)"]
    by (simp_all add: clear_of_header_def apart_sym [of p])
  ultimately show "m1 (p + of_nat i) = m (p + of_nat i)"
    using assms(3) apartD by (metis scratch_def)
qed

lemma ready_keeps:
  assumes "ready S nb m temp s fs n" and "cstr m1 s fs" and "\<And>a xs. S a = Some xs \<Longrightarrow> cstr m1 a xs"
  shows "ready S nb m1 temp s fs n"
  using assms by (simp add: ready_def)

text \<open>The first half of a call: the header is in the buffer.\<close>

lemma header_written:
  assumes "header_ready F m S level file path func fn lvl hdr" and "hdr = header_text lvl (basename path) line fn"
  shows "\<exists>m1. Option.bind (get_filename m file) (\<lambda>filename. snprintf (lf_num1 F) (lf_temp1 F) m (lf_buf F) 1024
        (lf_header_fmt F) [lf_level_str F ! unat level, filename, scast line, func]) = Some (m1, of_nat (length hdr)) \<and>
    bytes_at m1 (lf_buf F) (length hdr) = hdr \<and>
    (\<forall>a. \<not> in_region (lf_buf F) (length hdr + 1) a \<and> \<not> scratch (lf_num1 F) (lf_temp1 F) (length hdr + 1) a \<longrightarrow> m1 a = m a)"
proof -
  let ?f = "file + of_nat (length path - length (basename path))"
  have "libc_render S header_format [lf_level_str F ! unat level, ?f, scast line, func] = Some hdr"
    unfolding assms(2) by (rule header_renders) (use assms(1) in \<open>simp_all add: header_ready_def\<close>)
  from vsnprintf_fits [OF this, of "lf_num1 F" m "lf_temp1 F" "lf_header_fmt F" "lf_buf F" 1024]
    apart_mono [of "lf_buf F" 1024 "lf_temp1 F" 1024 "length hdr + 1" "length hdr + 1"] get_filename_eq [of m "file" path]
  show ?thesis using assms(1) by (simp add: header_ready_def snprintf_def)
qed

text \<open>What is left of the call then: the message, formatted behind the header.\<close>

lemma header_arith:
  assumes "n < 1024"
  shows "scast (of_nat n :: i32) = (of_nat n :: u64)" "sint (of_nat n :: i32) = int n" "\<not> (1024 :: u64) \<le> of_nat n"
    "1024 - of_nat n = (of_nat (1024 - n) :: i32)" "scast (of_nat (1024 - n) :: i32) = (of_nat (1024 - n) :: u64)"
    "sint (of_nat (1024 - n) :: i32) = int (1024 - n)" "unat (of_nat (1024 - n) :: u64) = 1024 - n"
  using assms by (simp_all add: scast_of_nat_small sint_of_nat_small unat_of_nat_small word_le_nat_alt del: of_nat_diff)
    (simp add: of_nat_diff)

lemma log_content:
  assumes level: "0 \<le> sint level" "sint level \<le> 2" "sint (current_log_level s) \<le> sint level"
    and nz: "file \<noteq> 0" "func \<noteq> 0" "fmt \<noteq> 0" and n: "n < 1024"
    and h: "Option.bind (get_filename (wmem (lworld s)) file) (\<lambda>filename. snprintf (lf_num1 F) (lf_temp1 F) (wmem (lworld s))
        (lf_buf F) 1024 (lf_header_fmt F) [lf_level_str F ! unat level, filename, scast line, func]) = Some (m1, of_nat n)"
  shows "log_output K F level file func line fmt args s =
    Option.bind (vsnprintf (lf_num2 F) (lf_temp2 F) m1 (lf_buf F + of_nat n) (of_nat (1024 - n)) fmt args) (\<lambda>(m2, content_len).
      if sint content_len < 0 \<or> sint content_len \<ge> int (1024 - n) then Some (put_out K 2 (lf_long_content F) 20 (in_logger m2 s))
      else Some (put_out K 1 (lf_newline F) 1 (put_out K 1 (lf_buf F) (of_nat n + content_len) (in_logger m2 s))))"
proof -
  have first: "\<not> (file = 0 \<or> func = 0 \<or> fmt = 0)" "\<not> (sint level < 0 \<or> 2 < sint level)"
    "\<not> sint level < sint (current_log_level s)"
    using nz level by simp_all
  obtain fname where fname: "get_filename (wmem (lworld s)) file = Some fname" using h by (auto simp: bind_eq_Some_conv)
  have sn: "snprintf (lf_num1 F) (lf_temp1 F) (wmem (lworld s)) (lf_buf F) 1024 (lf_header_fmt F)
      [lf_level_str F ! unat level, fname, scast line, func] = Some (m1, of_nat n)"
    using h fname by simp
  have second: "\<not> (int n < 0 \<or> (1024 :: u64) \<le> of_nat n)" "\<not> int (1024 - n) \<le> 0" using header_arith(3) [OF n] n by simp_all
  show ?thesis
    unfolding log_output_def
    by (simp only: first second if_False fname sn Option.bind.bind_lunit prod.case Let_def header_arith(1,2,4,5,6) [OF n])
qed

lemma content_appended:
  assumes hdr: "bytes_at m1 (lf_buf F) (length hdr) = hdr" and fits: "length hdr + length out < 1024"
    and c: "content_ready F m S2 fmt fs hdr out" and rd: "ready S2 (lf_num2 F) m1 (lf_temp2 F) fmt fs (length out)"
    and r: "libc_render S2 fs args = Some out"
  shows "\<exists>m2. vsnprintf (lf_num2 F) (lf_temp2 F) m1 (lf_buf F + of_nat (length hdr)) (of_nat (1024 - length hdr)) fmt args
      = Some (m2, of_nat (length out)) \<and> bytes_at m2 (lf_buf F) (length hdr + length out) = hdr @ out \<and>
    (\<forall>a. \<not> in_region (lf_buf F) 1024 a \<and> \<not> scratch (lf_num2 F) (lf_temp2 F) (length out + 1) a \<longrightarrow> m2 a = m1 a)"
proof -
  let ?n = "length hdr" and ?k = "length out"
  have n: "?n < 1024" using fits by simp
  have nz: "lf_buf F + of_nat ?n \<noteq> 0" "fmt \<noteq> 0" "?k < 1024" using c by (simp_all add: content_ready_def)
  have ap: "apart (lf_buf F + of_nat ?n) (?k + 1) (lf_temp2 F) (?k + 1)"
    using c fits apart_shift [of "lf_buf F" 1024 "lf_temp2 F" "?k + 1" ?n "?k + 1"] by (simp add: content_ready_def)
  have sz: "?k < unat (of_nat (1024 - ?n) :: u64)" using fits header_arith(7) [OF n] by linarith
  obtain m2 where m2: "vsnprintf (lf_num2 F) (lf_temp2 F) m1 (lf_buf F + of_nat ?n) (of_nat (1024 - ?n)) fmt args = Some (m2, of_nat ?k)"
    "bytes_at m2 (lf_buf F + of_nat ?n) ?k = out"
    "\<forall>a. \<not> in_region (lf_buf F + of_nat ?n) (?k + 1) a \<and> \<not> scratch (lf_num2 F) (lf_temp2 F) (?k + 1) a \<longrightarrow> m2 a = m1 a"
    using vsnprintf_fits [OF r rd nz(1,2) sz nz(3) ap] by blast
  have "bytes_at m2 (lf_buf F) ?n = bytes_at m1 (lf_buf F) ?n"
  proof (rule bytes_at_cong)
    fix i assume i: "i < ?n"
    have "in_region (lf_buf F) 1024 (lf_buf F + of_nat i)" using i n by (intro in_region_index) simp_all
    then have "\<not> scratch (lf_num2 F) (lf_temp2 F) (?k + 1) (lf_buf F + of_nat i)"
      using c apartD unfolding content_ready_def scratch_def by blast
    moreover have "\<not> in_region (lf_buf F + of_nat ?n) (?k + 1) (lf_buf F + of_nat i)"
      by (rule in_region_later [OF i]) (use fits in simp)
    ultimately show "m2 (lf_buf F + of_nat i) = m1 (lf_buf F + of_nat i)" using m2(3) by blast
  qed
  moreover have "m2 a = m1 a"
    if "\<not> in_region (lf_buf F) 1024 a" "\<not> scratch (lf_num2 F) (lf_temp2 F) (?k + 1) a" for a
  proof -
    have "\<not> in_region (lf_buf F + of_nat ?n) (?k + 1) a"
      using that(1) fits in_subregion [of "lf_buf F" ?n "?k + 1" a 1024] by auto
    with that(2) show ?thesis using m2(3) by blast
  qed
  ultimately show ?thesis using hdr m2(1,2) by (auto simp: bytes_at_add)
qed

text \<open>The literal "\n" of the source, in no array the call writes.\<close>

definition newline_ready :: "log_frame \<Rightarrow> mem \<Rightarrow> u8 list \<Rightarrow> bool" where
  "newline_ready F m out \<longleftrightarrow> m (lf_newline F) = 10 \<and> \<not> in_region (lf_buf F) 1024 (lf_newline F) \<and>
     \<not> scratch (lf_num1 F) (lf_temp1 F) 1024 (lf_newline F) \<and>
     \<not> scratch (lf_num2 F) (lf_temp2 F) (length out + 1) (lf_newline F)"

text \<open>The kernel's \<open>write\<close> reads memory and changes none.\<close>

definition write_reads :: "'k kernel \<Rightarrow> bool" where
  "write_reads K \<longleftrightarrow> (\<forall>k m args. fst (snd (K k m 64 args)) = m)"

lemma put_out_memory: "write_reads K \<Longrightarrow> wmem (lworld (put_out K fd buf n s)) = wmem (lworld s)"
  by (auto simp: put_out_def sys_write_def svc_def write_reads_def split: prod.splits)
    (metis fst_conv snd_conv)+

lemma scratch_mono: "scratch nb temp n a \<Longrightarrow> n \<le> k \<Longrightarrow> scratch nb temp k a"
  using in_region_prefix [of temp n a k] by (auto simp: scratch_def)

subsection \<open>Properties\<close>

text \<open>C35. At or above the current level, with a message of less than 1024 bytes (the size of the
  bounded printer's own array), the logger writes the line: if header and message together are below
  1024 bytes, it makes two writes to descriptor 1 and no other, one of exactly the header and the message
  and one of a single newline byte; if not, one write of the note about the length to descriptor 2 and
  none to descriptor 1. In the header stands the file's name without its directories. The newline is the
  literal of the source: the byte 10 in memory when the call starts, which the call leaves alone; the
  kernel's write reads memory and does not change it.\<close>

theorem log_line_written:
  assumes level: "0 \<le> sint level" "sint level \<le> 2" "sint (current_log_level s) \<le> sint level"
    and hdr: "hdr = header_text lvl (basename path) line fn"
    and h: "header_ready F (wmem (lworld s)) S1 level file path func fn lvl hdr"
    and c: "content_ready F (wmem (lworld s)) S2 fmt fs hdr out" and r: "libc_render S2 fs args = Some out"
    and nl: "newline_ready F (wmem (lworld s)) out" and K: "write_reads K"
  shows "\<exists>w. kst w = kst (lworld s) \<and> log_output K F level file func line fmt args s =
     Some (if length hdr + length out < 1024
           then put_out K 1 (lf_newline F) 1 (put_out K 1 (lf_buf F) (of_nat (length hdr + length out)) (s\<lparr>lworld := w\<rparr>))
           else put_out K 2 (lf_long_content F) 20 (s\<lparr>lworld := w\<rparr>)) \<and>
    (length hdr + length out < 1024 \<longrightarrow> bytes_at (wmem w) (lf_buf F) (length hdr + length out) = hdr @ out \<and>
      wmem (lworld (put_out K 1 (lf_buf F) (of_nat (length hdr + length out)) (s\<lparr>lworld := w\<rparr>))) (lf_newline F) = 10)"
proof -
  let ?m = "wmem (lworld s)" and ?n = "length hdr" and ?k = "length out"
  obtain m1 where m1: "Option.bind (get_filename ?m file) (\<lambda>filename. snprintf (lf_num1 F) (lf_temp1 F) ?m (lf_buf F) 1024
        (lf_header_fmt F) [lf_level_str F ! unat level, filename, scast line, func]) = Some (m1, of_nat ?n)"
    "bytes_at m1 (lf_buf F) ?n = hdr"
    "\<forall>a. \<not> in_region (lf_buf F) (?n + 1) a \<and> \<not> scratch (lf_num1 F) (lf_temp1 F) (?n + 1) a \<longrightarrow> m1 a = ?m a"
    using header_written [OF h hdr] by blast
  have n: "?n < 1024" "file \<noteq> 0" "func \<noteq> 0" using h by (simp_all add: header_ready_def)
  have nz: "lf_buf F + of_nat ?n \<noteq> 0" "fmt \<noteq> 0" "?k < 1024" using c by (simp_all add: content_ready_def)
  have keep: "cstr m1 p xs = cstr ?m p xs" if "clear_of_header F p xs" for p xs
    by (rule clear_keeps [OF that _ m1(3)]) (use n in simp)
  have rd: "ready S2 (lf_num2 F) m1 (lf_temp2 F) fmt fs ?k"
    by (rule ready_keeps [of _ _ ?m]) (use c keep in \<open>auto simp: content_ready_def ready_def\<close>)
  note run = log_content [OF level n(2,3) nz(2) n(1) m1(1)]
  have w: "kst ((lworld s)\<lparr>wmem := m2\<rparr>) = kst (lworld s)" "wmem ((lworld s)\<lparr>wmem := m2\<rparr>) = m2" for m2 by simp_all
  show ?thesis
  proof (cases "?n + ?k < 1024")
    case True
    have "\<not> (sint (of_nat ?k :: i32) < 0 \<or> int (1024 - ?n) \<le> sint (of_nat ?k :: i32))"
      using True by (simp add: sint_of_nat_small)
    moreover obtain m2 where m2: "vsnprintf (lf_num2 F) (lf_temp2 F) m1 (lf_buf F + of_nat ?n) (of_nat (1024 - ?n)) fmt args
        = Some (m2, of_nat ?k)" "bytes_at m2 (lf_buf F) (?n + ?k) = hdr @ out"
      "\<forall>a. \<not> in_region (lf_buf F) 1024 a \<and> \<not> scratch (lf_num2 F) (lf_temp2 F) (?k + 1) a \<longrightarrow> m2 a = m1 a"
      using content_appended [OF m1(2) True c rd r] by blast
    moreover have "m2 (lf_newline F) = 10"
    proof -
      have n1: "?n + 1 \<le> 1024" using n by simp
      have "\<not> in_region (lf_buf F) (?n + 1) (lf_newline F)" "\<not> scratch (lf_num1 F) (lf_temp1 F) (?n + 1) (lf_newline F)"
        using nl in_region_prefix [OF _ n1] scratch_mono [OF _ n1] by (auto simp: newline_ready_def)
      then show ?thesis using nl m1(3) m2(3) by (simp add: newline_ready_def)
    qed
    ultimately show ?thesis using True w
      unfolding run by (intro exI [of _ "(lworld s)\<lparr>wmem := m2\<rparr>"]) (simp add: in_logger_def put_out_memory [OF K])
  next
    case False
    have sz: "unat (of_nat (1024 - ?n) :: u64) \<le> ?k" "(of_nat (1024 - ?n) :: u64) \<noteq> 0"
      using False n header_arith(7) [OF n(1)] by (linarith, metis unat_0 zero_less_diff less_numeral_extra(3))
    obtain m2 where "vsnprintf (lf_num2 F) (lf_temp2 F) m1 (lf_buf F + of_nat ?n) (of_nat (1024 - ?n)) fmt args = Some (m2, - 1)"
      using vsnprintf_too_long [OF r rd nz(1,2) sz(2,1) nz(3)] by blast
    with False w show ?thesis
      unfolding run by (intro exI [of _ "(lworld s)\<lparr>wmem := m2\<rparr>"]) (simp add: in_logger_def)
  qed
qed

text \<open>A call \<open>LOG_DEBUG\<close> of \<open>hi\<close> in line 1 of the function \<open>f\<close> in \<open>a/b\<close>.\<close>

definition demo_frame :: log_frame where
  "demo_frame = \<lparr>lf_buf = 0x1000, lf_num1 = 0x2000, lf_temp1 = 0x3000, lf_num2 = 0x4000, lf_temp2 = 0x5000,
     lf_header_fmt = 0x100, lf_level_str = [0x200, 0x210, 0x220], lf_bad_params = 0x300, lf_bad_level = 0x300,
     lf_long_header = 0x300, lf_no_space = 0x300, lf_long_content = 0x300, lf_newline = 0x700\<rparr>"

definition demo_log_mem :: mem where
  "demo_log_mem = write_bytes (write_bytes (write_bytes (write_bytes (write_bytes ((\<lambda>_. 0)(0x700 := 10)) 0x100 (header_format @ [0]))
     0x200 [68, 69, 66, 85, 71, 0]) 0x400 [97, 47, 98, 0]) 0x500 [102, 0]) 0x600 [104, 105, 0]"

definition demo_strings :: "u64 \<rightharpoonup> u8 list" where
  "demo_strings = [0x200 \<mapsto> [68, 69, 66, 85, 71], 0x402 \<mapsto> [98], 0x500 \<mapsto> [102]]"

lemma demo_log_strings:
  "cstr demo_log_mem 0x100 header_format" "cstr demo_log_mem 0x200 [68, 69, 66, 85, 71]"
  "cstr demo_log_mem 0x400 [97, 47, 98]" "cstr demo_log_mem 0x402 [98]" "cstr demo_log_mem 0x500 [102]"
  "cstr demo_log_mem 0x600 [104, 105]"
  by (simp_all add: demo_log_mem_def header_format_def)

lemma demo_header_ready:
  "header_ready demo_frame demo_log_mem demo_strings 0 0x400 [97, 47, 98] 0x500 [102] [68, 69, 66, 85, 71]
     [91, 68, 69, 66, 85, 71, 93, 91, 98, 58, 49, 93, 91, 102, 93, 32]"
proof -
  let ?hdr = "[91, 68, 69, 66, 85, 71, 93, 91, 98, 58, 49, 93, 91, 102, 93, 32] :: u8 list"
  have "ready demo_strings 0x2000 demo_log_mem 0x3000 0x100 header_format (length ?hdr)"
    using demo_log_strings
    by (auto simp: ready_def untouched_def apart_def demo_strings_def header_format_def split: if_splits)
  moreover have "basename [97, 47, 98] = [98]" by (simp add: basename_def)
  ultimately show ?thesis
    using demo_log_strings(3)
    by (simp only: header_ready_def) (simp add: demo_frame_def demo_strings_def apart_def del: cstr.simps)
qed

theorem log_line_written_witness:
  "\<exists>s'. log_output demo_console demo_frame 0 0x400 0x500 1 0x600 []
      \<lparr>lworld = \<lparr>wmem = demo_log_mem, kst = []\<rparr>, current_log_level = 0\<rparr> = Some s' \<and>
    kst (lworld s') = [91, 68, 69, 66, 85, 71, 93, 91, 98, 58, 49, 93, 91, 102, 93, 32] @ [104, 105] @ [10]"
proof -
  let ?hdr = "[91, 68, 69, 66, 85, 71, 93, 91, 98, 58, 49, 93, 91, 102, 93, 32] :: u8 list"
  define s where "s = \<lparr>lworld = \<lparr>wmem = demo_log_mem, kst = [] :: u8 list\<rparr>, current_log_level = 0\<rparr>"
  have m: "wmem (lworld s) = demo_log_mem" "kst (lworld s) = []" "current_log_level s = 0" by (simp_all add: s_def)
  have "digits_le 10 1 = [1]" by (simp add: digits_le.simps)
  then have n: "itoa_spec 1 10 1 = [49]" by (simp add: itoa_spec_def numeral_str_def digit_byte_def)
  have h: "?hdr = header_text [68, 69, 66, 85, 71] (basename [97, 47, 98]) 1 [102]"
    by (simp add: header_text_def basename_def n)
  have c: "content_ready demo_frame demo_log_mem Map.empty 0x600 [104, 105] ?hdr [104, 105]"
    using demo_log_strings(6) by (simp add: content_ready_def demo_frame_def ready_def untouched_def apart_def clear_of_header_def del: cstr.simps)
  have r: "libc_render Map.empty [104, 105] [] = Some [104, 105]"
    by (simp add: render.simps(2) get_utf8_char_length_def)
  have l: "0 \<le> sint (0 :: i32)" "sint (0 :: i32) \<le> 2" "sint (current_log_level s) \<le> sint (0 :: i32)" by (simp_all add: m)
  have fits: "length ?hdr + length [104 :: u8, 105] = 18" by simp
  have f: "lf_buf demo_frame = 0x1000" "lf_newline demo_frame = 0x700" by (simp_all add: demo_frame_def)
  have nl: "newline_ready demo_frame demo_log_mem [104, 105]"
    by (simp add: newline_ready_def scratch_def demo_frame_def demo_log_mem_def header_format_def in_region_def)
  have K: "write_reads demo_console" by (simp add: write_reads_def demo_console_def split: list.split reg.split)
  obtain w where w: "kst w = []" "bytes_at (wmem w) 0x1000 18 = ?hdr @ [104, 105]"
    "wmem (lworld (put_out demo_console 1 0x1000 18 (s\<lparr>lworld := w\<rparr>))) 0x700 = 10"
    "log_output demo_console demo_frame 0 0x400 0x500 1 0x600 [] s = Some (put_out demo_console 1 0x700 1
       (put_out demo_console 1 0x1000 18 (s\<lparr>lworld := w\<rparr>)))"
    using log_line_written [OF l h, unfolded m, OF demo_header_ready c r nl K, unfolded fits f]
    by (auto simp del: bytes_at.simps simp: bytes_at_numeral m)
  have "wmem w 0x700 = 10" using w(3) by (simp add: put_out_memory [OF K])
  with w(1,2,4) show ?thesis
    by (simp add: s_def [symmetric] put_out_def sys_write_def svc_def demo_console_def del: bytes_at.simps)
      (simp add: bytes_at_numeral)
qed

end
