(* ===== verification/Socket.thy ===== *)
theory Socket
  imports Printf "HOL-Library.Monad_Syntax"
begin

text \<open>
  The socket wrappers of mini_libc/src/socket.c over the kernel parameter, with the module's error
  number \<open>mini_errno\<close>. \<open>bind\<close> is \<open>sock_bind\<close> here. \<open>send\<close> assigns the registers x4 and x5 but does
  not pass them to its inline assembly: what they hold is the parameter \<open>garbage\<close>. \<open>recv\<close> prints
  three debugging messages; its frame holds the arrays inside \<open>printf\<close> and the addresses of the formats.
\<close>

record 'k sockets =
  nworld :: "'k world"
  mini_errno :: i32

text \<open>The common end of the wrappers: a negative answer is an error number.\<close>

definition checked_call :: "'k kernel \<Rightarrow> u64 \<Rightarrow> reg list \<Rightarrow> 'k sockets \<Rightarrow> i64 option \<times> 'k sockets" where
  "checked_call K nr args s =
     (case svc K nr args (nworld s) of (x0, w) \<Rightarrow>
        if sint x0 < 0 then (None, s\<lparr>nworld := w, mini_errno := ucast (- x0)\<rparr>) else (Some x0, s\<lparr>nworld := w\<rparr>))"

definition fd_or_error :: "i64 option \<Rightarrow> i32" where
  "fd_or_error r = (case r of None \<Rightarrow> - 1 | Some x0 \<Rightarrow> ucast x0)"

definition zero_or_error :: "i64 option \<Rightarrow> i32" where
  "zero_or_error r = (case r of None \<Rightarrow> - 1 | Some x0 \<Rightarrow> 0)"

definition size_or_error :: "i64 option \<Rightarrow> i64" where
  "size_or_error r = (case r of None \<Rightarrow> - 1 | Some x0 \<Rightarrow> x0)"

subsection \<open>Operations\<close>

definition htons :: "u16 \<Rightarrow> u16" where
  "htons hostshort = push_bit 8 (hostshort AND 0xFF) OR drop_bit 8 (hostshort AND 0xFF00)"

definition socket :: "'k kernel \<Rightarrow> i32 \<Rightarrow> i32 \<Rightarrow> i32 \<Rightarrow> 'k sockets \<Rightarrow> i32 \<times> 'k sockets" where
  "socket K domain type protocol s =
     apfst fd_or_error (checked_call K 198 [RX (scast domain), RX (scast type), RX (scast protocol)] s)"

definition connect :: "'k kernel \<Rightarrow> i32 \<Rightarrow> u64 \<Rightarrow> u32 \<Rightarrow> 'k sockets \<Rightarrow> i32 \<times> 'k sockets" where
  "connect K sockfd addr addrlen s =
     apfst zero_or_error (checked_call K 203 [RX (scast sockfd), RX addr, RX (ucast addrlen)] s)"

definition sock_bind :: "'k kernel \<Rightarrow> i32 \<Rightarrow> u64 \<Rightarrow> u32 \<Rightarrow> 'k sockets \<Rightarrow> i32 \<times> 'k sockets" where
  "sock_bind K sockfd addr addrlen s =
     apfst zero_or_error (checked_call K 200 [RX (scast sockfd), RX addr, RX (ucast addrlen)] s)"

definition listen :: "'k kernel \<Rightarrow> i32 \<Rightarrow> i32 \<Rightarrow> 'k sockets \<Rightarrow> i32 \<times> 'k sockets" where
  "listen K sockfd backlog s = apfst zero_or_error (checked_call K 201 [RX (scast sockfd), RX (scast backlog)] s)"

definition accept :: "'k kernel \<Rightarrow> i32 \<Rightarrow> u64 \<Rightarrow> u64 \<Rightarrow> 'k sockets \<Rightarrow> i32 \<times> 'k sockets" where
  "accept K sockfd addr addrlen s =
     apfst fd_or_error (checked_call K 202 [RX (scast sockfd), RX addr, RX addrlen] s)"

definition send :: "'k kernel \<Rightarrow> u64 \<times> u64 \<Rightarrow> i32 \<Rightarrow> u64 \<Rightarrow> u64 \<Rightarrow> i32 \<Rightarrow> 'k sockets \<Rightarrow> i64 \<times> 'k sockets" where
  "send K garbage sockfd buf len flags s =
     apfst size_or_error (checked_call K 206
       [RX (scast sockfd), RX buf, RX len, RX (scast flags), RX (fst garbage), RX (snd garbage)] s)"

record recv_frame =
  rf_num :: u64
  rf_buf :: u64
  rf_called :: u64
  rf_failed :: u64
  rf_succeeded :: u64

definition say :: "'k kernel \<Rightarrow> recv_frame \<Rightarrow> u64 \<Rightarrow> u64 list \<Rightarrow> 'k sockets \<Rightarrow> 'k sockets option" where
  "say K F format args s = map_option (\<lambda>(_, w). s\<lparr>nworld := w\<rparr>) (printf K (rf_num F) (rf_buf F) format args (nworld s))"

definition recv :: "'k kernel \<Rightarrow> recv_frame \<Rightarrow> i32 \<Rightarrow> u64 \<Rightarrow> u64 \<Rightarrow> i32 \<Rightarrow> 'k sockets \<Rightarrow> (i64 \<times> 'k sockets) option" where
  "recv K F sockfd buf len flags s =
     do {
       s1 \<leftarrow> say K F (rf_called F) [scast sockfd, buf, len, scast flags] s;
       case checked_call K 207 [RX (scast sockfd), RX buf, RX len, RX (scast flags), RX 0, RX 0] s1 of
         (None, s2) \<Rightarrow> do { s3 \<leftarrow> say K F (rf_failed F) [scast (mini_errno s2)] s2; Some (- 1, s3) }
       | (Some x0, s2) \<Rightarrow> do { s3 \<leftarrow> say K F (rf_succeeded F) [x0] s2; Some (x0, s3) }
     }"

subsection \<open>Addresses\<close>

text \<open>
  \<open>struct sockaddr_in\<close> as mini_lib.h declares it: \<open>s_addr\<close> is an \<open>unsigned long\<close>, so four bytes of
  padding, \<open>pad\<close>, stand before it, and it lies at offset 8.
\<close>

record sockaddr_in =
  sin_family :: u16
  sin_port :: u16
  s_addr :: u64
  sin_zero :: "u8 list"

definition sockaddr_bytes :: "u8 list \<Rightarrow> sockaddr_in \<Rightarrow> u8 list" where
  "sockaddr_bytes pad a = to_le 2 (sin_family a) @ to_le 2 (sin_port a) @ pad @ to_le 8 (s_addr a) @ sin_zero a"

subsection \<open>Errors\<close>

text \<open>The kernel reports an error as its negated number.\<close>

lemma checked_call_error:
  assumes "svc K nr args (nworld s) = (- of_nat e, w)" and "1 \<le> e" "e < 4096"
  shows "checked_call K nr args s = (None, s\<lparr>nworld := w, mini_errno := of_nat e\<rparr>)"
proof -
  have "sint (- of_nat e :: u64) = - int e"
    using sint_of_int_small [of "- int e", where 'a = 64] assms(3) by simp
  then show ?thesis using assms by (simp add: checked_call_def ucast_of_nat_small)
qed

lemma checked_call_ok:
  assumes "svc K nr args (nworld s) = (x0, w)" and "0 \<le> sint x0"
  shows "checked_call K nr args s = (Some x0, s\<lparr>nworld := w\<rparr>)"
  using assms by (simp add: checked_call_def)

subsection \<open>The debugging message\<close>

definition ascii :: "string \<Rightarrow> u8 list" where
  "ascii s = map of_char s"

definition recv_called_format :: "u8 list" where
  "recv_called_format = ascii ''DEBUG: recv called with sockfd=%d, buf=%lx, len=%lx, flags=%d\<newline>''"

text \<open>
  \<open>vsprintf\<close> does not know \<open>%lx\<close>: it prints an \<open>x\<close> and consumes no argument, so the message of \<open>recv\<close>
  gives the low half of the buffer's address as the flags.
\<close>

lemma recv_message_misreports:
  "libc_render S recv_called_format [fd, buf, len, flags]
     = Some (ascii ''DEBUG: recv called with sockfd='' @ itoa_spec (scast (ucast fd :: i32)) 10 1 @
         ascii '', buf=x, len=x, flags='' @ itoa_spec (scast (ucast buf :: i32)) 10 1 @ [10])"
  by (simp add: recv_called_format_def ascii_def render.simps(2) get_utf8_char_length_def)

text \<open>
  The kernel's structure has the 32-bit address at offset 4. In the bytes of this one the padding is
  there, whatever \<open>s_addr\<close> was set to.
\<close>

lemma sockaddr_address_is_padding:
  "length pad = 4 \<Longrightarrow> take 4 (drop 4 (sockaddr_bytes pad a)) = pad \<and> take 8 (drop 8 (sockaddr_bytes pad a)) = to_le 8 (s_addr a)"
  by (simp add: sockaddr_bytes_def del: to_le.simps)

subsection \<open>Properties\<close>

lemma bit_255: "bit (0xFF :: u16) n \<longleftrightarrow> n < 8"
  using bit_mask_iff [of 8 n, where 'a = "16 word"] by (auto simp: mask_eq_exp_minus_1)

lemma bit_FF00: "bit (0xFF00 :: u16) n \<longleftrightarrow> 8 \<le> n \<and> n < 16"
proof -
  have "(0xFF00 :: u16) = push_bit 8 0xFF" by (simp add: push_bit_eq_mult)
  then have "bit (0xFF00 :: u16) n = bit (push_bit 8 (0xFF :: u16)) n" by (rule arg_cong)
  then show ?thesis unfolding bit_push_bit_iff bit_255 by (auto simp: possible_bit_word)
qed

lemma htons_bit: "bit (htons x) n \<longleftrightarrow> (if n < 8 then bit x (n + 8) else n < 16 \<and> bit x (n - 8))"
  unfolding htons_def bit_or_iff bit_push_bit_iff bit_drop_bit_eq bit_and_iff comp_def bit_255 bit_FF00
  by (auto simp: add.commute possible_bit_word)

text \<open>\<open>htons\<close> puts the number in network order: stored in memory, the more significant byte comes
  first; it is its own inverse.\<close>

theorem htons_network_order:
  "bytes_at (write_bytes m p (to_le 2 (htons x))) p 2 = [ucast (drop_bit 8 x), ucast x] \<and> htons (htons x) = x"
proof -
  have "to_le 2 (htons x) = [ucast (drop_bit 8 x), ucast x]"
  proof -
    have "(ucast (htons x) :: u8) = ucast (drop_bit 8 x)" "(ucast (drop_bit 8 (htons x)) :: u8) = ucast x"
      by (rule bit_word_eqI; auto simp: bit_simps htons_bit add.commute)+
    then show ?thesis by (simp add: numeral_2_eq_2)
  qed
  moreover have "htons (htons x) = x" by (rule bit_word_eqI) (auto simp: htons_bit)
  ultimately show ?thesis by (simp add: numeral_2_eq_2)
qed

end
