(* ===== verification/Uart.thy ===== *)
theory Uart
  imports Prelude "HOL-Library.Monad_Syntax"
begin

text \<open>
  The bare-metal program mmu/main.c: output through the PL011 serial port, the handler of
  synchronous exceptions, and \<open>main\<close>. The port is a device: what the \<open>i\<close>-th read of its flag
  register answers is the parameter \<open>fr\<close>, and the bytes stored to its data register are collected.
  The processor is the parameter \<open>cpu\<close>: its state \<open>'c\<close>, the routines of boot.S and the memory
  accesses of \<open>main\<close>. An access that faults calls the handler with the registers the vector code
  passes and is then skipped; a skipped load leaves the register as \<open>load32\<close> says. A string argument is its characters without the NUL.
\<close>

record 'c board =
  fr_reads :: nat
  sent :: "u8 list"
  cpu_state :: 'c

record 'c cpu =
  enable_mmu :: "'c \<Rightarrow> 'c"
  get_sctlr :: "'c \<Rightarrow> u64"
  load32 :: "u64 \<Rightarrow> 'c \<Rightarrow> 'c \<times> u32 \<times> (u64 \<times> u64 \<times> u64) option"
  store32 :: "u64 \<Rightarrow> u32 \<Rightarrow> 'c \<Rightarrow> 'c \<times> (u64 \<times> u64 \<times> u64) option"

type_synonym device = "nat \<Rightarrow> u32"

definition UART_TXFF :: u32 where "UART_TXFF = push_bit 5 1"

subsection \<open>Output\<close>

text \<open>The wait need not end, so this is a partial function.\<close>

partial_function (option) uart_putc :: "device \<Rightarrow> u8 \<Rightarrow> 'c board \<Rightarrow> 'c board option" where
  "uart_putc fr c s =
     (if fr (fr_reads s) AND UART_TXFF \<noteq> 0 then uart_putc fr c (s\<lparr>fr_reads := fr_reads s + 1\<rparr>)
      else Some (s\<lparr>fr_reads := fr_reads s + 1, sent := sent s @ [c]\<rparr>))"

primrec uart_puts :: "device \<Rightarrow> string \<Rightarrow> 'c board \<Rightarrow> 'c board option" where
  "uart_puts fr [] s = Some s"
| "uart_puts fr (c # cs) s =
     do {
       s1 \<leftarrow> (if c = CHR ''\<newline>'' then uart_putc fr 13 s else Some s);
       s2 \<leftarrow> uart_putc fr (of_char c) s1;
       uart_puts fr cs s2
     }"

definition hex_digit :: "u64 \<Rightarrow> u8" where
  "hex_digit d = of_char (''0123456789abcdef'' ! unat d)"

text \<open>\<open>for (i = 60; i >= 0; i -= 4)\<close>: \<open>k\<close> digits are left.\<close>

primrec put_hex_loop :: "device \<Rightarrow> u64 \<Rightarrow> nat \<Rightarrow> 'c board \<Rightarrow> 'c board option" where
  "put_hex_loop fr num 0 s = Some s"
| "put_hex_loop fr num (Suc k) s =
     Option.bind (uart_putc fr (hex_digit (drop_bit (4 * k) num AND 0xF)) s) (put_hex_loop fr num k)"

definition uart_put_hex :: "device \<Rightarrow> u64 \<Rightarrow> 'c board \<Rightarrow> 'c board option" where
  "uart_put_hex fr num s = put_hex_loop fr num 16 s"

subsection \<open>The exception handler\<close>

definition sync_exception_handler :: "device \<Rightarrow> u64 \<Rightarrow> u64 \<Rightarrow> u64 \<Rightarrow> 'c board \<Rightarrow> 'c board option" where
  "sync_exception_handler fr esr far elr s =
     (let ec = ucast (drop_bit 26 esr AND 0x3F) :: u32; puts = uart_puts fr; put_hex = uart_put_hex fr
      in do {
        s \<leftarrow> puts ''\<newline>========================================\<newline>'' s;
        s \<leftarrow> puts ''!!! Synchronous Exception Triggered !!!\<newline>'' s;
        s \<leftarrow> puts ''Exception Class (EC): 0x'' s;
        s \<leftarrow> put_hex (ucast ec) s;
        s \<leftarrow> puts ''\<newline>Fault Virtual Address (FAR_EL1): 0x'' s;
        s \<leftarrow> put_hex far s;
        s \<leftarrow> puts ''\<newline>Exception Return Address (ELR_EL1): 0x'' s;
        s \<leftarrow> put_hex elr s;
        s \<leftarrow> puts ''\<newline>'' s;
        s \<leftarrow> (if ec = 0x25 then
               let fsc = ucast (esr AND 0x3F) :: u32
               in do {
                 s \<leftarrow> puts ''Exception Type: Data Abort (Current EL1)\<newline>'' s;
                 s \<leftarrow> puts ''Fault Status Code (FSC): 0x'' s;
                 s \<leftarrow> put_hex (ucast fsc) s;
                 s \<leftarrow> puts ''\<newline>'' s;
                 if 4 \<le> fsc \<and> fsc \<le> 7 then do {
                   s \<leftarrow> puts ''Fault Nature: Translation Fault (Page Fault)\<newline>'' s;
                   s \<leftarrow> puts ''Fault Page Table Level: L'' s;
                   s \<leftarrow> uart_putc fr (ucast (48 + (fsc - 4))) s;
                   puts ''\<newline>'' s
                 }
                 else if fsc = 9 then puts ''Fault Nature: Access Flag Fault\<newline>'' s
                 else if fsc = 0xD then puts ''Fault Nature: Permission Fault\<newline>'' s
                 else Some s
               }
             else if ec = 0x21 then puts ''Exception Type: Instruction Abort (Current EL1)\<newline>'' s
             else Some s);
        s \<leftarrow> puts ''Skipping fault instruction, resuming...\<newline>'' s;
        puts ''========================================\<newline>\<newline>'' s
      })"

subsection \<open>main\<close>

definition trap :: "device \<Rightarrow> (u64 \<times> u64 \<times> u64) option \<Rightarrow> 'c board \<Rightarrow> 'c board option" where
  "trap fr t s = (case t of None \<Rightarrow> Some s | Some (esr, far, elr) \<Rightarrow> sync_exception_handler fr esr far elr s)"

definition store_or_trap :: "'c cpu \<Rightarrow> device \<Rightarrow> u64 \<Rightarrow> u32 \<Rightarrow> 'c board \<Rightarrow> 'c board option" where
  "store_or_trap C fr a v s = (case store32 C a v (cpu_state s) of (c, t) \<Rightarrow> trap fr t (s\<lparr>cpu_state := c\<rparr>))"

definition load_or_trap :: "'c cpu \<Rightarrow> device \<Rightarrow> u64 \<Rightarrow> 'c board \<Rightarrow> (u32 \<times> 'c board) option" where
  "load_or_trap C fr a s =
     (case load32 C a (cpu_state s) of (c, v, t) \<Rightarrow> map_option (Pair v) (trap fr t (s\<lparr>cpu_state := c\<rparr>)))"

text \<open>The state in which the program enters its idle loop.\<close>

definition mmu_main :: "'c cpu \<Rightarrow> device \<Rightarrow> 'c board \<Rightarrow> 'c board option" where
  "mmu_main C fr s =
     (let puts = uart_puts fr; put_hex = uart_put_hex fr
      in do {
        s \<leftarrow> puts ''====== AArch64 MMU L3 Mapping Experiment ======\<newline>'' s;
        let sctlr_before = get_sctlr C (cpu_state s);
        s \<leftarrow> puts ''[1] MMU is OFF. SCTLR_EL1 = 0x'' s;
        s \<leftarrow> put_hex sctlr_before s;
        s \<leftarrow> puts ''\<newline>'' s;
        s \<leftarrow> store_or_trap C fr 0x40010000 0x12345678 s;
        s \<leftarrow> puts ''[2] Write 0x12345678 to physical address 0x40010000\<newline>'' s;
        let s = s\<lparr>cpu_state := enable_mmu C (cpu_state s)\<rparr>;
        let sctlr_after = get_sctlr C (cpu_state s);
        s \<leftarrow> puts ''[3] MMU is ON.  SCTLR_EL1 = 0x'' s;
        s \<leftarrow> put_hex sctlr_after s;
        s \<leftarrow> puts ''\<newline>'' s;
        (val, s) \<leftarrow> load_or_trap C fr 0x40010000 s;
        s \<leftarrow> puts ''[4] Read from virtual address 0x40010000: 0x'' s;
        s \<leftarrow> put_hex (ucast val) s;
        s \<leftarrow> puts ''\<newline>'' s;
        s \<leftarrow> (if val = 0x12345678 then puts ''[5] L3 page table mapping verification: SUCCESS\<newline>'' s
             else puts ''[5] L3 page table mapping verification: FAILED\<newline>'' s);
        s \<leftarrow> puts ''\<newline>[6] Attempting to access unmapped address 0x50000000...\<newline>'' s;
        s \<leftarrow> store_or_trap C fr 0x50000000 0xDEADBEEF s;
        s \<leftarrow> puts ''[7] Program resumed after page fault.\<newline>'' s;
        puts ''\<newline>Experiment completed. Entering idle loop.\<newline>'' s
      })"

subsection \<open>What is sent\<close>

text \<open>A port whose transmit queue always empties again.\<close>

definition drains :: "device \<Rightarrow> bool" where
  "drains fr \<longleftrightarrow> (\<forall>n. \<exists>k \<ge> n. fr k AND UART_TXFF = 0)"

text \<open>\<open>sends s s' bs\<close>: from \<open>s\<close> to \<open>s'\<close> exactly \<open>bs\<close> was sent and nothing else but the count of reads changed.\<close>

definition sends :: "'c board \<Rightarrow> 'c board \<Rightarrow> u8 list \<Rightarrow> bool" where
  "sends s s' bs \<longleftrightarrow> sent s' = sent s @ bs \<and> cpu_state s' = cpu_state s"

definition outputs :: "('c board \<Rightarrow> 'c board option) \<Rightarrow> u8 list \<Rightarrow> bool" where
  "outputs f bs \<longleftrightarrow> (\<forall>s. \<exists>s'. f s = Some s' \<and> sends s s' bs)"

lemma outputs_Nil [simp]: "outputs Some []"
  by (simp add: outputs_def sends_def)

lemma outputs_bind:
  "outputs f bs \<Longrightarrow> outputs g cs \<Longrightarrow> outputs (\<lambda>s. Option.bind (f s) g) (bs @ cs)"
  unfolding outputs_def sends_def by (metis Option.bind.bind_lunit append.assoc)

lemma putc_outputs:
  assumes "drains fr"
  shows "outputs (uart_putc fr c) [c]"
proof -
  have "\<exists>s'. uart_putc fr c s = Some s' \<and> sends s s' [c]" if "fr k AND UART_TXFF = 0" "fr_reads s \<le> k" for k s
    using that
  proof (induction "k - fr_reads s" arbitrary: s)
    case 0
    then show ?case by (simp add: uart_putc.simps [of fr c s] sends_def)
  next
    case (Suc d)
    show ?case
    proof (cases "fr (fr_reads s) AND UART_TXFF = 0")
      case True
      then show ?thesis by (simp add: uart_putc.simps [of fr c s] sends_def)
    next
      case False
      let ?s = "s\<lparr>fr_reads := fr_reads s + 1\<rparr>"
      have "d = k - fr_reads ?s" "fr_reads ?s \<le> k" using Suc.hyps(2) by simp_all
      then obtain s' where "uart_putc fr c ?s = Some s'" "sends ?s s' [c]"
        using Suc.hyps(1) [of ?s] Suc.prems(1) by blast
      with False show ?thesis by (simp add: uart_putc.simps [of fr c s] sends_def)
    qed
  qed
  with assms show ?thesis unfolding outputs_def drains_def by meson
qed

text \<open>Newlines are sent as carriage return and newline.\<close>

definition wire :: "string \<Rightarrow> u8 list" where
  "wire cs = concat (map (\<lambda>c. if c = CHR ''\<newline>'' then [13, 10] else [of_char c]) cs)"

lemma puts_outputs:
  assumes "drains fr"
  shows "outputs (uart_puts fr cs :: 'c board \<Rightarrow> 'c board option) (wire cs)"
proof (induction cs)
  case (Cons c cs)
  have nl: "outputs (\<lambda>s :: 'c board. if c = CHR ''\<newline>'' then uart_putc fr 13 s else Some s) (if c = CHR ''\<newline>'' then [13] else [])"
    using assms by (auto intro: putc_outputs)
  have "outputs (\<lambda>s :: 'c board. Option.bind (if c = CHR ''\<newline>'' then uart_putc fr 13 s else Some s) (\<lambda>s1.
      Option.bind (uart_putc fr (of_char c) s1) (uart_puts fr cs)))
    ((if c = CHR ''\<newline>'' then [13] else []) @ ([of_char c] @ wire cs))"
    by (intro outputs_bind nl putc_outputs [OF assms] Cons.IH)
  moreover have "(if c = CHR ''\<newline>'' then [13] else []) @ ([of_char c] @ wire cs) = wire (c # cs)"
    by (simp add: wire_def)
  ultimately show ?case by simp
qed (simp add: wire_def)

definition hex16 :: "u64 \<Rightarrow> u8 list" where
  "hex16 num = map (\<lambda>i. hex_digit (drop_bit (4 * i) num AND 0xF)) (rev [0..<16])"

lemma hex_loop_outputs:
  assumes "drains fr"
  shows "outputs (put_hex_loop fr num k :: 'c board \<Rightarrow> 'c board option) (map (\<lambda>i. hex_digit (drop_bit (4 * i) num AND 0xF)) (rev [0..<k]))"
proof (induction k)
  case (Suc k)
  have "outputs (\<lambda>s :: 'c board. Option.bind (uart_putc fr (hex_digit (drop_bit (4 * k) num AND 0xF)) s) (put_hex_loop fr num k))
    ([hex_digit (drop_bit (4 * k) num AND 0xF)] @ map (\<lambda>i. hex_digit (drop_bit (4 * i) num AND 0xF)) (rev [0..<k]))"
    by (intro outputs_bind putc_outputs [OF assms] Suc.IH)
  then show ?case by simp
qed simp

lemma hex_outputs: "drains fr \<Longrightarrow> outputs (uart_put_hex fr num) (hex16 num)"
  unfolding hex16_def uart_put_hex_def by (rule hex_loop_outputs)

end
