(* ===== verification/Uart_Claims.thy ===== *)
theory Uart_Claims
  imports Uart
begin

text \<open>
  What the bare-metal program sends, as long as the port drains: strings with their line ends,
  numbers as sixteen hexadecimal digits, the report of an exception, and the whole log of \<open>main\<close>.
\<close>

subsection \<open>Numbers\<close>

definition hex_value :: "u8 \<Rightarrow> nat" where
  "hex_value c = (if 97 \<le> c then unat c - 87 else unat c - 48)"

definition read_hex :: "u8 list \<Rightarrow> nat" where
  "read_hex cs = foldl (\<lambda>n c. n * 16 + hex_value c) 0 cs"

lemma hex_digit_value:
  assumes "d < 16"
  shows "hex_value (hex_digit d) = unat d"
proof -
  have "unat d < 16" using assms by (simp add: word_less_nat_alt)
  then have "unat d \<in> set [0..<16]" by simp
  then show ?thesis by (auto simp: hex_digit_def hex_value_def upt_rec)
qed

lemma nibble: "drop_bit n (x :: u64) AND 0xF < 16" "unat (drop_bit n x AND 0xF) = unat x div 2 ^ n mod 16"
proof -
  have "(0xF :: u64) = mask 4" by (simp add: mask_eq_exp_minus_1)
  then have "drop_bit n x AND 0xF = take_bit 4 (drop_bit n x)" by (simp only: take_bit_eq_mask)
  then have "unat (drop_bit n x AND 0xF) = take_bit 4 (drop_bit n (unat x))"
    by (simp only: unsigned_take_bit_eq unat_drop_bit_eq)
  then show u: "unat (drop_bit n x AND 0xF) = unat x div 2 ^ n mod 16"
    by (simp add: take_bit_eq_mod drop_bit_eq_div)
  have "unat (drop_bit n x AND 0xF) < 16" unfolding u by (rule mod_less_divisor) simp
  then show "drop_bit n x AND 0xF < 16" by (simp add: word_less_nat_alt)
qed

lemma read_hex_digits:
  "foldl (\<lambda>n c. n * 16 + hex_value c) a (map (\<lambda>i. hex_digit (drop_bit (4 * i) num AND 0xF)) (rev [0..<k]))
     = a * 16 ^ k + unat num mod 16 ^ k"
proof (induction k arbitrary: a)
  case (Suc k)
  let ?d = "unat num div 16 ^ k mod 16"
  have p: "(2 :: nat) ^ (4 * k) = 16 ^ k" by (simp only: power_mult) simp
  have d: "hex_value (hex_digit (drop_bit (4 * k) num AND 0xF)) = ?d"
    by (simp only: hex_digit_value [OF nibble(1)] nibble(2) p)
  have m: "unat num mod 16 ^ Suc k = 16 ^ k * ?d + unat num mod 16 ^ k"
    using mod_mult2_eq [of "unat num" "16 ^ k" 16] by (simp only: power_Suc2)
  have "rev [0..<Suc k] = k # rev [0..<k]" by simp
  then show ?case
    by (simp only: list.map foldl_Cons Suc.IH d m) (simp add: algebra_simps)
qed simp

lemma read_hex16: "read_hex (hex16 num) = unat num"
proof -
  have "unat num < 16 ^ 16" using unat_less_2p [of num] by simp
  then show ?thesis using read_hex_digits [of 0 num 16] by (simp only: read_hex_def hex16_def) simp
qed

lemma hex16_length: "length (hex16 num) = 16"
  by (simp add: hex16_def)

subsection \<open>The report of an exception\<close>

lemma outputs_if: "outputs f a \<Longrightarrow> outputs g b \<Longrightarrow> outputs (\<lambda>s. if c then f s else g s) (if c then a else b)"
  by simp

lemma outputs_none: "outputs (\<lambda>s. Some s) []"
  by (simp add: outputs_def sends_def)

definition fault_report :: "u64 \<Rightarrow> u8 list" where
  "fault_report fsc =
     wire ''Exception Type: Data Abort (Current EL1)\<newline>'' @ wire ''Fault Status Code (FSC): 0x'' @ hex16 fsc @ wire ''\<newline>'' @
     (if fsc \<in> {4, 5, 6, 7} then wire ''Fault Nature: Translation Fault (Page Fault)\<newline>'' @ wire ''Fault Page Table Level: L'' @
        [hex_digit (fsc - 4)] @ wire ''\<newline>''
      else if fsc = 9 then wire ''Fault Nature: Access Flag Fault\<newline>''
      else if fsc = 0xD then wire ''Fault Nature: Permission Fault\<newline>'' else [])"

definition exception_report :: "u64 \<Rightarrow> u64 \<Rightarrow> u64 \<Rightarrow> u8 list" where
  "exception_report esr far elr =
     wire ''\<newline>========================================\<newline>'' @ wire ''!!! Synchronous Exception Triggered !!!\<newline>'' @
     wire ''Exception Class (EC): 0x'' @ hex16 (drop_bit 26 esr AND 0x3F) @
     wire ''\<newline>Fault Virtual Address (FAR_EL1): 0x'' @ hex16 far @
     wire ''\<newline>Exception Return Address (ELR_EL1): 0x'' @ hex16 elr @ wire ''\<newline>'' @
     (if drop_bit 26 esr AND 0x3F = 0x25 then fault_report (esr AND 0x3F)
      else if drop_bit 26 esr AND 0x3F = 0x21 then wire ''Exception Type: Instruction Abort (Current EL1)\<newline>'' else []) @
     wire ''Skipping fault instruction, resuming...\<newline>'' @ wire ''========================================\<newline>\<newline>''"

text \<open>The six bits survive the conversions to \<open>unsigned int\<close> and back.\<close>

lemma six_bits: "ucast (ucast (x AND 0x3F) :: u32) = (x AND 0x3F :: u64)"
proof -
  have g: "ucast (ucast (x AND mask 6) :: u32) = (x AND mask 6 :: u64)"
    by (rule bit_word_eqI) (auto simp: bit_simps)
  have "mask 6 = (0x3F :: u64)" by (simp add: mask_eq_exp_minus_1)
  then show ?thesis using g by simp
qed

lemma six_bits_eq:
  fixes x c :: u64
  assumes "ucast (ucast c :: u32) = c"
  shows "((ucast (x AND 0x3F) :: u32) = ucast c) = (x AND 0x3F = c)"
  using six_bits [of x] assms by metis

lemma six_bits_range: "(4 \<le> (ucast (x AND 0x3F :: u64) :: u32) \<and> (ucast (x AND 0x3F) :: u32) \<le> 7) = (x AND 0x3F \<in> {4, 5, 6, 7})"
proof -
  have n: "4 \<le> n \<and> n \<le> 7 \<longleftrightarrow> n = 4 \<or> n = 5 \<or> n = 6 \<or> n = 7" for n :: nat by arith
  have "(4 \<le> y \<and> y \<le> 7) = (y = 4 \<or> y = 5 \<or> y = 6 \<or> y = 7)" for y :: u32
    using n [of "unat y"] by (simp add: word_le_nat_alt word_unat_eq_iff)
  then show ?thesis
    using six_bits_eq [of 4] six_bits_eq [of 5] six_bits_eq [of 6] six_bits_eq [of 7] by simp
qed

lemma level_digit:
  fixes y :: u64
  assumes "y \<in> {4, 5, 6, 7}"
  shows "ucast (48 + ((ucast y :: u32) - 4)) = hex_digit (y - 4)"
  using assms by (auto simp: hex_digit_def)

lemma fault_outputs:
  assumes "drains fr"
  shows "outputs (\<lambda>s :: 'c board. let fsc = ucast (esr AND 0x3F) :: u32 in do {
      s \<leftarrow> uart_puts fr ''Exception Type: Data Abort (Current EL1)\<newline>'' s;
      s \<leftarrow> uart_puts fr ''Fault Status Code (FSC): 0x'' s;
      s \<leftarrow> uart_put_hex fr (ucast fsc) s;
      s \<leftarrow> uart_puts fr ''\<newline>'' s;
      if 4 \<le> fsc \<and> fsc \<le> 7 then do {
        s \<leftarrow> uart_puts fr ''Fault Nature: Translation Fault (Page Fault)\<newline>'' s;
        s \<leftarrow> uart_puts fr ''Fault Page Table Level: L'' s;
        s \<leftarrow> uart_putc fr (ucast (48 + (fsc - 4))) s;
        uart_puts fr ''\<newline>'' s
      }
      else if fsc = 9 then uart_puts fr ''Fault Nature: Access Flag Fault\<newline>'' s
      else if fsc = 0xD then uart_puts fr ''Fault Nature: Permission Fault\<newline>'' s
      else Some s }) (fault_report (esr AND 0x3F))"
proof -
  have nine: "((ucast (esr AND 0x3F) :: u32) = 9) = (esr AND 0x3F = 9)" using six_bits_eq [of 9] by simp
  have thirteen: "((ucast (esr AND 0x3F) :: u32) = 0xD) = (esr AND 0x3F = 0xD)" using six_bits_eq [of 13] by simp
  show ?thesis
    unfolding Let_def six_bits_range nine thirteen six_bits fault_report_def
    by (cases "esr AND 0x3F \<in> {4, 5, 6, 7}"; simp only: if_True if_False level_digit)
      (intro outputs_bind outputs_if outputs_none puts_outputs hex_outputs putc_outputs assms)+
qed

lemma handler_outputs:
  assumes "drains fr"
  shows "outputs (sync_exception_handler fr esr far elr :: 'c board \<Rightarrow> 'c board option) (exception_report esr far elr)"
proof -
  have ec: "((ucast (drop_bit 26 esr AND 0x3F) :: u32) = 0x25) = (drop_bit 26 esr AND 0x3F = 0x25)"
    "((ucast (drop_bit 26 esr AND 0x3F) :: u32) = 0x21) = (drop_bit 26 esr AND 0x3F = 0x21)"
    using six_bits_eq [of 37] six_bits_eq [of 33] by simp_all
  show ?thesis
    unfolding sync_exception_handler_def [abs_def] Let_def ec six_bits exception_report_def
    by (intro outputs_bind outputs_if outputs_none puts_outputs hex_outputs
        fault_outputs [OF assms, unfolded Let_def six_bits] assms)
qed

subsection \<open>The whole run\<close>

text \<open>What the processor does on the way, and what \<open>main\<close> sends: \<open>b\<close> and \<open>a\<close> are the control register
  before and after, \<open>v\<close> the word read back, and the first store and the load do not fault.\<close>

definition run_log :: "u64 \<Rightarrow> u64 \<Rightarrow> u32 \<Rightarrow> (u64 \<times> u64 \<times> u64) option \<Rightarrow> u8 list" where
  "run_log b a v t =
     wire ''====== AArch64 MMU L3 Mapping Experiment ======\<newline>'' @
     wire ''[1] MMU is OFF. SCTLR_EL1 = 0x'' @ hex16 b @ wire ''\<newline>'' @
     wire ''[2] Write 0x12345678 to physical address 0x40010000\<newline>'' @
     wire ''[3] MMU is ON.  SCTLR_EL1 = 0x'' @ hex16 a @ wire ''\<newline>'' @
     wire ''[4] Read from virtual address 0x40010000: 0x'' @ hex16 (ucast v) @ wire ''\<newline>'' @
     (if v = 0x12345678 then wire ''[5] L3 page table mapping verification: SUCCESS\<newline>''
      else wire ''[5] L3 page table mapping verification: FAILED\<newline>'') @
     wire ''\<newline>[6] Attempting to access unmapped address 0x50000000...\<newline>'' @
     (case t of None \<Rightarrow> [] | Some (esr, far, elr) \<Rightarrow> exception_report esr far elr) @
     wire ''[7] Program resumed after page fault.\<newline>'' @
     wire ''\<newline>Experiment completed. Entering idle loop.\<newline>''"

text \<open>Like \<open>outputs\<close>, from one state of the processor to another.\<close>

definition runs :: "('c board \<Rightarrow> 'c board option) \<Rightarrow> 'c \<Rightarrow> u8 list \<Rightarrow> 'c \<Rightarrow> bool" where
  "runs f c bs c' \<longleftrightarrow> (\<forall>s. cpu_state s = c \<longrightarrow> (\<exists>s'. f s = Some s' \<and> sent s' = sent s @ bs \<and> cpu_state s' = c'))"

lemma outputs_runs: "outputs f bs \<Longrightarrow> runs f c bs c"
  by (auto simp: outputs_def runs_def sends_def)

lemma runs_bind: "runs f c bs c1 \<Longrightarrow> runs g c1 cs c2 \<Longrightarrow> runs (\<lambda>s. Option.bind (f s) g) c (bs @ cs) c2"
  unfolding runs_def by (metis Option.bind.bind_lunit append.assoc)

lemma runs_outputs_bind: "outputs f bs \<Longrightarrow> runs g c cs c2 \<Longrightarrow> runs (\<lambda>s. Option.bind (f s) g) c (bs @ cs) c2"
  by (rule runs_bind [OF outputs_runs])

lemma runs_update:
  assumes "runs g (h c) bs c'"
  shows "runs (\<lambda>s. let s = s\<lparr>cpu_state := h (cpu_state s)\<rparr> in g s) c bs c'"
  unfolding runs_def
proof (intro allI impI)
  fix s :: "'a board" assume "cpu_state s = c"
  then show "\<exists>s'. (let s = s\<lparr>cpu_state := h (cpu_state s)\<rparr> in g s) = Some s' \<and> sent s' = sent s @ bs \<and> cpu_state s' = c'"
    using assms [unfolded runs_def, rule_format, of "s\<lparr>cpu_state := h c\<rparr>"] by simp
qed

lemma runs_fetch: "runs (g (h c)) c bs c' \<Longrightarrow> runs (\<lambda>s. let x = h (cpu_state s) in g x s) c bs c'"
  unfolding runs_def by simp

lemma runs_store:
  assumes "drains fr" and "store32 C a v c = (c', t)"
  shows "runs (store_or_trap C fr a v) c (case t of None \<Rightarrow> [] | Some (esr, far, elr) \<Rightarrow> exception_report esr far elr) c'"
  unfolding runs_def
proof (intro allI impI)
  fix s :: "'a board" assume s: "cpu_state s = c"
  show "\<exists>s'. store_or_trap C fr a v s = Some s' \<and>
      sent s' = sent s @ (case t of None \<Rightarrow> [] | Some (esr, far, elr) \<Rightarrow> exception_report esr far elr) \<and> cpu_state s' = c'"
  proof (cases t)
    case None
    then show ?thesis using assms(2) s by (simp add: store_or_trap_def trap_def)
  next
    case (Some r)
    obtain esr far elr where "r = (esr, far, elr)" by (cases r) auto
    then show ?thesis
      using Some assms(2) s handler_outputs [OF assms(1), unfolded outputs_def sends_def, rule_format, of esr far elr "s\<lparr>cpu_state := c'\<rparr>"]
      by (simp add: store_or_trap_def trap_def)
  qed
qed

lemma runs_load:
  assumes "load32 C a c = (c', v, None)" and "runs (g v) c' bs c2"
  shows "runs (\<lambda>s. Option.bind (load_or_trap C fr a s) (\<lambda>(v, s). g v s)) c bs c2"
  unfolding runs_def
proof (intro allI impI)
  fix s :: "'a board" assume "cpu_state s = c"
  then show "\<exists>s'. Option.bind (load_or_trap C fr a s) (\<lambda>(v, s). g v s) = Some s' \<and> sent s' = sent s @ bs \<and> cpu_state s' = c2"
    using assms(1) assms(2) [unfolded runs_def, rule_format, of "s\<lparr>cpu_state := c'\<rparr>"]
    by (simp add: load_or_trap_def trap_def)
qed

lemma main_runs:
  assumes "drains fr" "store32 C 0x40010000 0x12345678 c = (c1, None)"
    "load32 C 0x40010000 (enable_mmu C c1) = (c2, v, None)"
    "store32 C 0x50000000 0xDEADBEEF c2 = (c3, t)"
  shows "runs (mmu_main C fr) c (run_log (get_sctlr C c) (get_sctlr C (enable_mmu C c1)) v t) c3"
proof -
  note says = runs_outputs_bind [OF puts_outputs [OF assms(1)]] runs_outputs_bind [OF hex_outputs [OF assms(1)]]
    runs_outputs_bind [OF outputs_if [OF puts_outputs [OF assms(1)] puts_outputs [OF assms(1)]]]
  have store1: "runs g c1 bs c' \<Longrightarrow> runs (\<lambda>s. Option.bind (store_or_trap C fr 0x40010000 0x12345678 s) g) c bs c'" for g bs c'
    using runs_bind [OF runs_store [OF assms(1,2)]] by simp
  note store2 = runs_bind [OF runs_store [OF assms(1,4)]]
  show ?thesis
    unfolding mmu_main_def [abs_def] Let_def [of "uart_puts fr"] Let_def [of "uart_put_hex fr"] run_log_def
    by (rule says runs_fetch runs_update runs_load [OF assms(3)] store1 store2 outputs_runs [OF puts_outputs [OF assms(1)]])+
qed

subsection \<open>Claims\<close>

text \<open>C39. A string and a number on a port that keeps draining: both calls return, with exactly the string,
  its line ends as carriage return and newline, or the sixteen digits that read back as the number.\<close>

theorem uart_output:
  assumes "drains fr"
  shows "(\<exists>s1. uart_puts fr cs s = Some s1 \<and> sends s s1 (wire cs))
    \<and> (\<exists>s2. uart_put_hex fr num s = Some s2 \<and> sends s s2 (hex16 num))
    \<and> length (hex16 num) = 16 \<and> read_hex (hex16 num) = unat num"
  using puts_outputs [OF assms, of cs] hex_outputs [OF assms, of num]
  by (auto simp: outputs_def read_hex16 hex16_length)

text \<open>A port that is busy on every other read.\<close>

definition busy_port :: device where
  "busy_port i = (if even i then UART_TXFF else 0)"

lemma busy_port_drains: "drains busy_port"
  unfolding drains_def
proof
  fix n show "\<exists>k\<ge>n. busy_port k AND UART_TXFF = 0" by (rule exI [of _ "2 * n + 1"]) (simp add: busy_port_def)
qed

theorem uart_output_witness:
  "(\<exists>s1. uart_puts busy_port ''a\<newline>'' \<lparr>fr_reads = 0, sent = [], cpu_state = ()\<rparr> = Some s1 \<and> sent s1 = [97, 13, 10])
    \<and> read_hex (hex16 0xDEADBEEF) = 3735928559"
  using uart_output [OF busy_port_drains, of "''a\<newline>''" "\<lparr>fr_reads = 0, sent = [], cpu_state = ()\<rparr>" 3735928559]
  by (auto simp: sends_def wire_def)

text \<open>C36. The experiment as it should go: on a port that drains, with a first store and a load that do not
  fault, \<open>main\<close> reaches its idle loop, and the log is the one expected, the report of the fault that
  the store to the unmapped address raises, if it does, in its place.\<close>

theorem mmu_experiment_log:
  assumes "drains fr" "store32 C 0x40010000 0x12345678 (cpu_state s) = (c1, None)"
    "load32 C 0x40010000 (enable_mmu C c1) = (c2, v, None)"
    "store32 C 0x50000000 0xDEADBEEF c2 = (c3, t)"
  shows "\<exists>s'. mmu_main C fr s = Some s' \<and> cpu_state s' = c3
    \<and> sent s' = sent s @ run_log (get_sctlr C (cpu_state s)) (get_sctlr C (enable_mmu C c1)) v t"
  using main_runs [OF assms] unfolding runs_def by blast

text \<open>A processor with one word of memory; with its MMU on, only its address is mapped.\<close>

definition demo_cpu :: "(bool \<times> u32) cpu" where
  "demo_cpu = \<lparr>
     enable_mmu = (\<lambda>(on, w). (True, w)),
     get_sctlr = (\<lambda>(on, w). if on then 1 else 0),
     load32 = (\<lambda>a (on, w). ((on, w), w, None)),
     store32 = (\<lambda>a v (on, w). if a = 0x40010000 then ((on, v), None)
       else if on then ((on, w), Some (0x96000045, a, 0x40001000)) else ((on, w), None))\<rparr>"

theorem mmu_experiment_log_witness:
  "\<exists>s'. mmu_main demo_cpu busy_port \<lparr>fr_reads = 0, sent = [], cpu_state = (False, 0)\<rparr> = Some s'
    \<and> cpu_state s' = (True, 0x12345678)
    \<and> sent s' = run_log 0 1 0x12345678 (Some (0x96000045, 0x50000000, 0x40001000))"
  using mmu_experiment_log [OF busy_port_drains, of demo_cpu "\<lparr>fr_reads = 0, sent = [], cpu_state = (False, 0)\<rparr>"
      "(False, 0x12345678)" "(True, 0x12345678)" "0x12345678" "(True, 0x12345678)" "Some (0x96000045, 0x50000000, 0x40001000)"]
  by (simp add: demo_cpu_def)

end
