(* ===== verification/Linker_Bind.thy ===== *)
theory Linker_Bind
  imports Linker_Main Linker_Reloc_Claims
begin

text \<open>
  Binding the executable against the loaded libraries, as a whole: \<open>bind_executable\<close> leaves in every
  slot of the executable's PLT the run-time address of the first symbol of that name, and touches
  nothing else. The slots must lie apart from what the search reads; those regions are listed.
\<close>

subsection \<open>Regions that are read\<close>

text \<open>\<open>intact rs m m'\<close>: the regions hold in \<open>m'\<close> what they hold in \<open>m\<close>.\<close>

definition intact :: "(u64 \<times> nat) list \<Rightarrow> mem \<Rightarrow> mem \<Rightarrow> bool" where
  "intact rs m m' \<longleftrightarrow> (\<forall>(p, n) \<in> set rs. bytes_at m' p n = bytes_at m p n)"

definition outside :: "(u64 \<times> nat) list \<Rightarrow> u64 \<Rightarrow> bool" where
  "outside rs t \<longleftrightarrow> (\<forall>(p, n) \<in> set rs. apart t 8 p n)"

lemma intact_refl [simp]: "intact rs m m"
  by (simp add: intact_def case_prod_unfold)

lemma intact_mono: "set rs' \<subseteq> set rs \<Longrightarrow> intact rs m m' \<Longrightarrow> intact rs' m m'"
  by (auto simp: intact_def)

lemma intact_st64:
  assumes "intact rs m m'" and "outside rs t"
  shows "intact rs m (st64 m' t v)"
  unfolding intact_def
proof (intro ballI)
  fix r assume r: "r \<in> set rs"
  obtain p n where [simp]: "r = (p, n)" by (cases r)
  have a: "apart t 8 p n" using assms(2) r by (auto simp: outside_def)
  then have "n \<le> 2 ^ 64" using unat_less_2p [of "t - p"] by (simp add: apart_def)
  then have "bytes_at (st64 m' t v) p n = bytes_at m' p n"
    using a by (simp add: st64_def bytes_at_write_apart del: to_le.simps bytes_at.simps)
  then show "case r of (p, n) \<Rightarrow> bytes_at (st64 m' t v) p n = bytes_at m p n"
    using assms(1) r by (auto simp: intact_def)
qed

lemma same_sym: "bytes_at m' p 24 = bytes_at m p 24 \<Longrightarrow> ld_sym m' p = ld_sym m p"
proof -
  assume a: "bytes_at m' p 24 = bytes_at m p 24"
  note b = same_block [OF a]
  show ?thesis
    using b [of 0 4] b [of 4 1] b [of 5 1] b [of 6 2] b [of 8 8] b [of 16 8]
    by (simp add: ld_sym_def ld64_def ld32_def ld16_def ld8_def)
qed

lemma same_cstr: "bytes_at m' p (Suc (length xs)) = bytes_at m p (Suc (length xs)) \<Longrightarrow> cstr m' p xs = cstr m p xs"
  by (simp add: cstr_bytes_at del: bytes_at.simps)

subsection \<open>What the search of a library reads\<close>

text \<open>Its header's count, its program headers, its symbols and their names.\<close>

definition symbol_regions :: "mem \<Rightarrow> LoadedLibrary \<Rightarrow> u8 list option list \<Rightarrow> nat \<Rightarrow> (u64 \<times> nat) list" where
  "symbol_regions m lib ns i =
     (let entry = sym_at (lib_symtab lib) i
      in (entry, 24) # (case ns ! i of None \<Rightarrow> [] | Some xs \<Rightarrow> [(lib_strtab lib + ucast (st_name (ld_sym m entry)), Suc (length xs))]))"

definition library_regions :: "mem \<Rightarrow> LoadedLibrary \<times> u8 list option list \<Rightarrow> (u64 \<times> nat) list" where
  "library_regions m l =
     (case l of (lib, ns) \<Rightarrow>
        [(lib_ehdr lib + 56, 2), (lib_phdr lib, 56 * unat (ld16 m (lib_ehdr lib + 56)))] @
        concat (map (symbol_regions m lib ns) [0..<length ns]))"

lemma intact_symbol:
  assumes "intact (symbol_regions m lib ns i) m m'"
  shows "ld_sym m' (sym_at (lib_symtab lib) i) = ld_sym m (sym_at (lib_symtab lib) i)"
    "ns ! i = Some xs \<Longrightarrow> cstr m' (lib_strtab lib + ucast (st_name (ld_sym m (sym_at (lib_symtab lib) i)))) xs
      = cstr m (lib_strtab lib + ucast (st_name (ld_sym m (sym_at (lib_symtab lib) i)))) xs"
  using assms by (auto simp: intact_def symbol_regions_def Let_def intro!: same_sym same_cstr simp del: bytes_at.simps)

lemma intact_library:
  assumes "intact (library_regions m (lib, ns)) m m'"
  shows "sym_names m lib ns \<Longrightarrow> sym_names m' lib ns"
    "i < length ns \<Longrightarrow> symbol_address m' lib i = symbol_address m lib i"
proof -
  have sy: "intact (symbol_regions m lib ns i) m m'" if "i < length ns" for i
    by (rule intact_mono [OF _ assms]) (use that in \<open>auto simp: library_regions_def\<close>)
  show "sym_names m lib ns \<Longrightarrow> sym_names m' lib ns"
    using intact_symbol [OF sy] by (auto simp: sym_names_def Let_def split: option.splits)
  have h: "ld16 m' (lib_ehdr lib + 56) = ld16 m (lib_ehdr lib + 56)"
    using assms by (simp add: intact_def library_regions_def ld16_def)
  have t: "phdr_table m' (lib_phdr lib) (ld16 m (lib_ehdr lib + 56)) = phdr_table m (lib_phdr lib) (ld16 m (lib_ehdr lib + 56))"
    by (rule phdr_table_cong) (use assms in \<open>simp add: intact_def library_regions_def\<close>)
  show "i < length ns \<Longrightarrow> symbol_address m' lib i = symbol_address m lib i"
    using intact_symbol(1) [OF sy, of i] by (simp add: symbol_address_def h t in_image_def first_load_vaddr_def first_load_def)
qed

lemma intact_lookup:
  "intact (concat (map (library_regions m) ls)) m m' \<Longrightarrow> lookup_libs m' xs ls = lookup_libs m xs ls"
proof (induction ls)
  case (Cons l ls)
  obtain lib ns where [simp]: "l = (lib, ns)" by (cases l)
  have i: "intact (library_regions m (lib, ns)) m m'" by (rule intact_mono [OF _ Cons.prems]) simp
  have "lookup_libs m' xs ls = lookup_libs m xs ls" by (rule Cons.IH) (rule intact_mono [OF _ Cons.prems], auto)
  then show ?case
    using intact_library(2) [OF i] lookup_name_less [of ns xs] by (auto split: option.splits)
qed simp

lemma intact_names:
  assumes "intact (concat (map (library_regions m) (zip libs nss))) m m'" and "list_all2 (sym_names m) libs nss"
  shows "list_all2 (sym_names m') libs nss"
  unfolding list_all2_conv_all_nth
proof (intro conjI allI impI)
  show l: "length libs = length nss" using assms(2) by (rule list_all2_lengthD)
  fix i assume i: "i < length libs"
  have "(libs ! i, nss ! i) \<in> set (zip libs nss)" using i l by (auto simp: set_zip)
  then have "intact (library_regions m (libs ! i, nss ! i)) m m'" by (intro intact_mono [OF _ assms(1)]) auto
  then show "sym_names m' (libs ! i) (nss ! i)"
    using intact_library(1) list_all2_nthD [OF assms(2) i] by blast
qed

subsection \<open>The executable's PLT\<close>

text \<open>The \<open>j\<close>-th relocation is a jump slot for the symbol \<open>xs\<close>, and its slot lies at \<open>t\<close>.\<close>

definition plt_symbol :: "mem \<Rightarrow> u64 \<Rightarrow> u64 \<Rightarrow> nat \<Rightarrow> u64" where
  "plt_symbol m symtab pltrel j = symtab + 24 * ucast (ELF64_R_SYM (r_info (ld_rela m (pltrel + 24 * of_nat j))))"

definition plt_entry :: "'k linker \<Rightarrow> u64 \<Rightarrow> u64 \<Rightarrow> u64 \<Rightarrow> nat \<Rightarrow> u8 list \<Rightarrow> u64 \<Rightarrow> bool" where
  "plt_entry s symtab strtab pltrel j xs t \<longleftrightarrow>
     (let r = ld_rela (lmem s) (pltrel + 24 * of_nat j);
          idx = ucast (ELF64_R_SYM (r_info r)) :: u64;
          off = st_name (ld_sym (lmem s) (plt_symbol (lmem s) symtab pltrel j))
      in ELF64_R_TYPE (r_info r) = R_AARCH64_JUMP_SLOT \<and> 0 < idx \<and> idx < 100000 \<and> 0 < off \<and> off < 100000 \<and>
         exec_addr (r_offset r) s = t \<and> t \<noteq> 0 \<and> strtab + ucast off \<noteq> 0 \<and> cstr (lmem s) (strtab + ucast off) xs)"

definition plt_regions :: "mem \<Rightarrow> u64 \<Rightarrow> u64 \<Rightarrow> u64 \<Rightarrow> nat \<Rightarrow> u8 list \<Rightarrow> (u64 \<times> nat) list" where
  "plt_regions m symtab strtab pltrel j xs =
     [(pltrel + 24 * of_nat j, 24), (plt_symbol m symtab pltrel j, 24),
      (strtab + ucast (st_name (ld_sym m (plt_symbol m symtab pltrel j))), Suc (length xs))]"

text \<open>All that binding \<open>n\<close> entries reads.\<close>

definition bind_regions :: "'k linker \<Rightarrow> u8 list option list list \<Rightarrow> u64 \<Rightarrow> u64 \<Rightarrow> u64 \<Rightarrow> (nat \<Rightarrow> u8 list) \<Rightarrow> nat \<Rightarrow> (u64 \<times> nat) list" where
  "bind_regions s nss symtab strtab pltrel xs n =
     (g_auxv_phdr s, 56 * unat (ucast (g_auxv_phnum s) :: u16)) #
     concat (map (library_regions (lmem s)) (zip (g_loaded_libraries s) nss)) @
     concat (map (\<lambda>j. plt_regions (lmem s) symtab strtab pltrel j (xs j)) [0..<n])"

lemma exec_addr_cong:
  assumes "bytes_at (lmem s') (g_auxv_phdr s) (56 * unat (ucast (g_auxv_phnum s) :: u16))
      = bytes_at (lmem s) (g_auxv_phdr s) (56 * unat (ucast (g_auxv_phnum s) :: u16))"
    and "g_auxv_phdr s' = g_auxv_phdr s" "g_auxv_phnum s' = g_auxv_phnum s"
  shows "exec_addr v s' = exec_addr v s"
  using phdr_table_cong [OF assms(1)] assms(2,3)
  by (simp add: exec_addr_def translate_eq in_image_def first_load_vaddr_def first_load_def)

lemma linker_fields2 [simp]:
  "g_auxv_phdr (set_lmem m s) = g_auxv_phdr s" "g_auxv_phnum (set_lmem m s) = g_auxv_phnum s"
  by (simp_all add: set_lmem_def)

lemma intact_entry:
  assumes "plt_entry s symtab strtab pltrel j xs t" and "intact (plt_regions (lmem s) symtab strtab pltrel j xs) (lmem s) m"
    and "bytes_at m (g_auxv_phdr s) (56 * unat (ucast (g_auxv_phnum s) :: u16))
      = bytes_at (lmem s) (g_auxv_phdr s) (56 * unat (ucast (g_auxv_phnum s) :: u16))"
  shows "plt_entry (set_lmem m s) symtab strtab pltrel j xs t"
proof -
  have r: "ld_rela m (pltrel + 24 * of_nat j) = ld_rela (lmem s) (pltrel + 24 * of_nat j)"
    using same_rela [of m "pltrel + 24 * of_nat j" 1 "lmem s" 0] assms(2) by (simp add: intact_def plt_regions_def del: bytes_at.simps)
  then have p: "plt_symbol m symtab pltrel j = plt_symbol (lmem s) symtab pltrel j" by (simp add: plt_symbol_def)
  have y: "ld_sym m (plt_symbol (lmem s) symtab pltrel j) = ld_sym (lmem s) (plt_symbol (lmem s) symtab pltrel j)"
    by (rule same_sym) (use assms(2) in \<open>simp add: intact_def plt_regions_def\<close>)
  have e: "exec_addr v (set_lmem m s) = exec_addr v s" for v
    by (rule exec_addr_cong) (use assms(3) in simp_all)
  have c: "cstr m (strtab + ucast (st_name (ld_sym (lmem s) (plt_symbol (lmem s) symtab pltrel j)))) xs
      = cstr (lmem s) (strtab + ucast (st_name (ld_sym (lmem s) (plt_symbol (lmem s) symtab pltrel j)))) xs"
    by (rule same_cstr) (use assms(2) in \<open>simp add: intact_def plt_regions_def\<close>)
  show ?thesis using assms(1) unfolding plt_entry_def Let_def lmem_simps r p y e c .
qed

lemma bind_plt_step:
  assumes "plt_entry s symtab strtab pltrel i xs t"
    and "list_all2 (sym_names (lmem s)) (g_loaded_libraries s) nss"
  shows "bind_plt symtab strtab pltrel i (Suc k) s = bind_plt symtab strtab pltrel (Suc i) k
    (let v = lookup_libs (lmem s) xs (zip (g_loaded_libraries s) nss) in if v = 0 then s else put64 t v s)"
proof -
  let ?off = "st_name (ld_sym (lmem s) (plt_symbol (lmem s) symtab pltrel i))"
  have "resolve_symbol_global (strtab + ucast ?off) s = lookup_libs (lmem s) xs (zip (g_loaded_libraries s) nss)"
    using resolve_in_eq [OF _ _ assms(2), of "strtab + ucast ?off" xs] assms(1)
    by (simp add: resolve_symbol_global_def plt_entry_def Let_def)
  then show ?thesis using assms(1) by (auto simp: plt_entry_def Let_def plt_symbol_def)
qed

lemma bind_plt_eq:
  fixes xs t
  assumes names: "list_all2 (sym_names (lmem s)) (g_loaded_libraries s) nss"
    and entry: "\<And>j. j < n \<Longrightarrow> plt_entry s symtab strtab pltrel j (xs j) (t j)"
    and out: "\<And>j. j < n \<Longrightarrow> outside (bind_regions s nss symtab strtab pltrel xs n) (t j)"
  defines "v \<equiv> \<lambda>j. lookup_libs (lmem s) (xs j) (zip (g_loaded_libraries s) nss)"
  shows "i + k = n \<Longrightarrow> intact (bind_regions s nss symtab strtab pltrel xs n) (lmem s) m \<Longrightarrow>
    bind_plt symtab strtab pltrel i k (set_lmem m s)
      = set_lmem (fold (\<lambda>j m. st64 m (t j) (v j)) (filter (\<lambda>j. v j \<noteq> 0) [i..<n]) m) s"
proof (induction k arbitrary: i m)
  case (Suc k)
  let ?s = "set_lmem m s"
  have i: "i < n" using Suc.prems(1) by simp
  have phdr: "bytes_at m (g_auxv_phdr s) (56 * unat (ucast (g_auxv_phnum s) :: u16))
      = bytes_at (lmem s) (g_auxv_phdr s) (56 * unat (ucast (g_auxv_phnum s) :: u16))"
    using Suc.prems(2) by (simp add: intact_def bind_regions_def)
  have "intact (plt_regions (lmem s) symtab strtab pltrel i (xs i)) (lmem s) m"
    by (rule intact_mono [OF _ Suc.prems(2)]) (use i in \<open>auto simp: bind_regions_def\<close>)
  note e = intact_entry [OF entry [OF i] this phdr]
  have libs: "intact (concat (map (library_regions (lmem s)) (zip (g_loaded_libraries s) nss))) (lmem s) m"
    by (rule intact_mono [OF _ Suc.prems(2)]) (auto simp: bind_regions_def)
  have n: "list_all2 (sym_names (lmem ?s)) (g_loaded_libraries ?s) nss" using intact_names [OF libs names] by simp
  have v: "lookup_libs (lmem ?s) (xs i) (zip (g_loaded_libraries ?s) nss) = v i"
    using intact_lookup [OF libs] by (simp add: v_def)
  have up: "[i..<n] = i # [Suc i..<n]" using i by (rule upt_conv_Cons)
  show ?case
  proof (cases "v i = 0")
    case True
    have "bind_plt symtab strtab pltrel (Suc i) k ?s
        = set_lmem (fold (\<lambda>j m. st64 m (t j) (v j)) (filter (\<lambda>j. v j \<noteq> 0) [Suc i..<n]) m) s"
      by (rule Suc.IH) (use Suc.prems in simp_all)
    with True show ?thesis unfolding bind_plt_step [OF e n] v up by simp
  next
    case False
    have "bind_plt symtab strtab pltrel (Suc i) k (set_lmem (st64 m (t i) (v i)) s)
        = set_lmem (fold (\<lambda>j m. st64 m (t j) (v j)) (filter (\<lambda>j. v j \<noteq> 0) [Suc i..<n]) (st64 m (t i) (v i))) s"
      by (rule Suc.IH [OF _ intact_st64 [OF Suc.prems(2) out [OF i]]]) (use Suc.prems(1) in simp)
    with False show ?thesis unfolding bind_plt_step [OF e n] v up by (simp add: put64_def)
  qed
qed simp

subsection \<open>The executable's dynamic section\<close>

text \<open>The last value of a tag in the section, or \<open>acc\<close>.\<close>

definition dyn_last :: "u64 \<Rightarrow> (i64 \<times> u64) list \<Rightarrow> i64 \<Rightarrow> u64" where
  "dyn_last acc es tag = foldl (\<lambda>a (t, v). if t = tag then v else a) acc es"

lemma last_tag_eq: "dyn_at m d es \<Longrightarrow> length es \<le> k \<Longrightarrow> last_tag m d tag acc k = dyn_last acc es tag"
proof (induction es arbitrary: d k acc)
  case Nil
  then show ?case by (cases k) (simp_all add: dyn_last_def)
next
  case (Cons e es)
  then obtain j where k: "k = Suc j" by (cases k) auto
  have "last_tag m (d + 16) tag a j = dyn_last a es tag" for a
    by (rule Cons.IH) (use Cons.prems k in simp_all)
  with Cons.prems k show ?case by (cases e) (simp add: dyn_last_def)
qed

subsection \<open>Properties\<close>

text \<open>C7. Binding the executable. Let \<open>es\<close> be its dynamic section with the tables binding needs, \<open>n\<close> the
  number of its PLT relocations, but 28 at most, these first \<open>n\<close> relocations jump slots for the symbols
  \<open>xs\<close> with slots \<open>t\<close>, and \<open>nss\<close> the symbol names of the loaded libraries. If no slot overlaps another or a region
  that the search reads, \<open>bind_executable\<close> succeeds and leaves in each of these \<open>n\<close> slots the run-time address
  of the first symbol of its name, newest library first, or what was there when no library has it; no
  other byte, so no slot behind the first 28 either, and no other part of the state changes.\<close>

theorem executable_bound:
  fixes xs t
  assumes dyn: "dyn_at (lmem s) d es" "d \<noteq> 0" "length es \<le> 1000"
    and tags: "\<forall>tag \<in> {DT_JMPREL, DT_PLTRELSZ, DT_PLTGOT, DT_STRTAB, DT_SYMTAB}. dyn_last 0 es tag \<noteq> 0" "dyn_last 24 es DT_RELAENT = 24"
    and tables: "exec_table (dyn_last 0 es DT_SYMTAB) s = symtab" "exec_table (dyn_last 0 es DT_STRTAB) s = strtab"
      "exec_table (dyn_last 0 es DT_JMPREL) s = pltrel" "pltrel mod 8 = 0"
    and n: "n = min (unat (ucast (dyn_last 0 es DT_PLTRELSZ div 24) :: u32)) 28"
    and names: "list_all2 (sym_names (lmem s)) (g_loaded_libraries s) nss"
    and entry: "\<And>j. j < n \<Longrightarrow> plt_entry s symtab strtab pltrel j (xs j) (t j)"
    and out: "\<And>j. j < n \<Longrightarrow> outside (bind_regions s nss symtab strtab pltrel xs n) (t j)"
    and slots: "\<And>j k. j < n \<Longrightarrow> k < n \<Longrightarrow> j \<noteq> k \<Longrightarrow> apart (t j) 8 (t k) 8"
  shows "\<exists>m'. bind_executable d s = (True, set_lmem m' s) \<and>
    (\<forall>j < n. ld64 m' (t j) =
       (let v = lookup_libs (lmem s) (xs j) (zip (g_loaded_libraries s) nss) in if v = 0 then ld64 (lmem s) (t j) else v)) \<and>
    (\<forall>a. (\<forall>j < n. \<not> in_region (t j) 8 a) \<longrightarrow> m' a = lmem s a)"
proof -
  let ?v = "\<lambda>j. lookup_libs (lmem s) (xs j) (zip (g_loaded_libraries s) nss)"
  let ?js = "filter (\<lambda>j. ?v j \<noteq> 0) [0..<n]"
  let ?m = "fold (\<lambda>j m. st64 m (t j) (?v j)) ?js (lmem s)"
  have "bind_plt symtab strtab pltrel 0 n (set_lmem (lmem s) s) = set_lmem ?m s"
    by (rule bind_plt_eq [OF names entry out _ intact_refl]) simp_all
  then have "bind_executable d s = (True, set_lmem ?m s)"
    using dyn(2) tags tables by (simp add: bind_executable_def last_tag_eq [OF dyn(1,3)] n)
  moreover have "ld64 ?m (t j) = (if ?v j = 0 then ld64 (lmem s) (t j) else ?v j)" if j: "j < n" for j
  proof (cases "?v j = 0")
    case True
    then show ?thesis using fold_stores_keep [of ?js t "t j" ?v] slots [OF _ j] j by auto
  next
    case False
    have "sorted_wrt (\<lambda>j k. apart (t j) 8 (t k) 8) ?js"
      using slots by (intro sorted_wrt_filter) (simp add: sorted_wrt_iff_nth_less)
    then show ?thesis using fold_stores_read [of t ?js j ?v] False j by simp
  qed
  moreover have "?m a = lmem s a" if "\<forall>j < n. \<not> in_region (t j) 8 a" for a
    using fold_stores_other [of ?js t a] that by simp
  ultimately show ?thesis by (auto simp: Let_def)
qed

text \<open>The small image with one PLT relocation at 0x2200, for \<open>foo\<close> with its slot at 0x2800, and the
  dynamic section at 0x2218, as both the executable and the one library loaded.\<close>

definition demo_slot :: Elf64_Rela where
  "demo_slot = \<lparr>r_offset = 0x1800, r_info = ELF64_R_INFO 1 1026, r_addend = 0\<rparr>"

definition demo_tags :: "(i64 \<times> u64) list" where
  "demo_tags = [(5, 0x1000), (6, 0x1100), (23, 0x1200), (2, 24), (3, 0x1800)]"

definition demo_block :: "u8 list" where
  "demo_block = rela_bytes demo_slot @ concat (map (\<lambda>(t, v). dyn_bytes \<lparr>d_tag = t, d_val = v\<rparr>) (demo_tags @ [(0, 0)]))"

definition demo_exec :: "unit linker" where
  "demo_exec = (demo_linker (write_bytes (demo_image 8) 0x2200 demo_block))
     \<lparr>g_auxv_phdr := 0x1040, g_auxv_phnum := 1, g_loaded_libraries := [demo_lib]\<rparr>"

lemma demo_block_length: "length demo_block = 120" "length (rela_bytes r) = 24" "length (dyn_bytes d) = 16"
  by (simp_all add: demo_block_def demo_tags_def rela_bytes_def dyn_bytes_def)

lemma demo_exec_mem: "lmem demo_exec = write_bytes (demo_image 8) 0x2200 demo_block"
  by (simp add: demo_exec_def demo_linker_def lmem_def)

lemma demo_exec_fields:
  "g_auxv_phdr demo_exec = 0x1040" "g_auxv_phnum demo_exec = 1" "g_loaded_libraries demo_exec = [demo_lib]"
  by (simp_all add: demo_exec_def)

lemma demo_keeps: "apart 0x2200 120 p n \<Longrightarrow> bytes_at (lmem demo_exec) p n = bytes_at (demo_image 8) p n"
  using unat_less_2p [of "0x2200 - p"]
  by (subst demo_exec_mem, subst bytes_at_write_apart) (simp_all add: demo_block_length apart_def)

lemma demo_exec_block: "bytes_at (lmem demo_exec) 0x2200 (length demo_block) = demo_block"
  unfolding demo_exec_mem by (rule bytes_at_write_same) (simp_all add: demo_block_length)

lemma demo_exec_rela: "ld_rela (lmem demo_exec) 0x2200 = demo_slot"
  by (rule ld_rela_bytes)
    (use bytes_at_block [OF demo_exec_block, of 0 24] in \<open>simp add: demo_block_length\<close>, simp add: demo_block_def demo_block_length)

lemma demo_exec_tag:
  assumes "i < 6"
  shows "ld_dyn (lmem demo_exec) (0x2218 + of_nat (16 * i))
    = (case (demo_tags @ [(0, 0)]) ! i of (t, v) \<Rightarrow> \<lparr>d_tag = t, d_val = v\<rparr>)"
proof (rule ld_dyn_bytes)
  have "bytes_at (lmem demo_exec) (0x2200 + of_nat (24 + 16 * i)) 16 = take 16 (drop (24 + 16 * i) demo_block)"
    using assms by (intro bytes_at_block [OF demo_exec_block]) (simp add: demo_block_length)
  moreover have "i \<in> {0, 1, 2, 3, 4, 5}" using assms by auto
  then have "take 16 (drop (24 + 16 * i) demo_block)
      = dyn_bytes (case (demo_tags @ [(0, 0)]) ! i of (t, v) \<Rightarrow> \<lparr>d_tag = t, d_val = v\<rparr>)"
    by (auto simp: demo_block_def demo_block_length demo_tags_def)
  ultimately show "bytes_at (lmem demo_exec) (0x2218 + of_nat (16 * i)) 16
      = dyn_bytes (case (demo_tags @ [(0, 0)]) ! i of (t, v) \<Rightarrow> \<lparr>d_tag = t, d_val = v\<rparr>)"
    by (simp add: add.assoc [symmetric])
qed

lemma demo_exec_dyn: "dyn_at (lmem demo_exec) 0x2218 demo_tags"
  using demo_exec_tag [of 0] demo_exec_tag [of 1] demo_exec_tag [of 2] demo_exec_tag [of 3] demo_exec_tag [of 4] demo_exec_tag [of 5]
  by (simp add: demo_tags_def)

lemma demo_exec_sym: "ld_sym (lmem demo_exec) 0x2118 = demo_sym 8"
  using same_sym [OF demo_keeps, of "0x2118"] demo_syms(2) [of 8] by (simp add: apart_def)

lemma demo_exec_name: "cstr (lmem demo_exec) 0x2001 [102, 111, 111]"
  using same_cstr [OF demo_keeps, of "0x2001" "[102, 111, 111]"] demo_name [of 8] by (simp add: apart_def del: cstr.simps)

lemma demo_exec_addr: "v < 0x2000 \<Longrightarrow> exec_addr v demo_exec = 0x1000 + v"
proof -
  assume v: "v < 0x2000"
  have "phdr_table (lmem demo_exec) 0x1040 1 = phdr_table (demo_image 8) 0x1040 1"
    by (rule phdr_table_cong) (rule demo_keeps, simp add: apart_def)
  then show "exec_addr v demo_exec = 0x1000 + v"
    using v by (simp add: exec_addr_def demo_exec_fields demo_table calculate_address_from_vaddr_def load_contains_def
        first_load_vaddr_def first_load_def demo_phdr_def)
qed

lemma demo_exec_null: "ld_sym (lmem demo_exec) 0x2100 = null_sym"
  using same_sym [OF demo_keeps, of "0x2100"] demo_syms(1) [of 8] by (simp add: apart_def)

lemma demo_exec_phnum: "ld16 (lmem demo_exec) 0x1038 = 0"
proof -
  have "bytes_at (lmem demo_exec) 0x1038 2 = bytes_at (demo_image 8) 0x1038 2" by (rule demo_keeps) (simp add: apart_def)
  also have "bytes_at (demo_image 8) 0x1038 2 = [0, 0]"
    by (simp add: bytes_at_numeral demo_image_def write_bytes_apply st64_other in_region_def)
  finally show ?thesis by (simp add: ld16_def)
qed

lemma demo_exec_names: "sym_names (lmem demo_exec) demo_lib [None, Some [102, 111, 111]]"
  using demo_exec_null demo_exec_sym demo_exec_name
  by (simp add: sym_names_def demo_lib_def sym_at_def null_sym_def demo_sym_def Let_def All_less_Suc del: cstr.simps)

theorem executable_bound_witness:
  "\<exists>m'. bind_executable 0x2218 demo_exec = (True, set_lmem m' demo_exec) \<and> ld64 m' 0x2800 = 0x1008"
proof -
  let ?ns = "[None, Some [102, 111, 111]]"
  have sy: "plt_symbol (lmem demo_exec) 0x2100 0x2200 0 = 0x2118"
    using demo_exec_rela by (simp add: plt_symbol_def demo_slot_def r_info_sym)
  have e: "plt_entry demo_exec 0x2100 0x2000 0x2200 0 [102, 111, 111] 0x2800"
    using demo_exec_rela demo_exec_name demo_exec_addr [of "0x1800"]
    by (simp add: plt_entry_def sy demo_slot_def r_info_sym r_info_type demo_exec_sym demo_sym_def del: cstr.simps)
  have r: "bind_regions demo_exec [?ns] 0x2100 0x2000 0x2200 (\<lambda>_. [102, 111, 111]) 1 =
      [(0x1040, 56), (0x1038, 2), (0x1040, 0), (0x2100, 24), (0x2118, 24), (0x2001, 4), (0x2200, 24), (0x2118, 24), (0x2001, 4)]"
    by (simp add: bind_regions_def demo_exec_fields library_regions_def symbol_regions_def plt_regions_def sy demo_lib_def
        demo_exec_phnum demo_exec_sym demo_sym_def sym_at_def Let_def)
  have o: "outside (bind_regions demo_exec [?ns] 0x2100 0x2000 0x2200 (\<lambda>_. [102, 111, 111]) (Suc 0)) 0x2800"
    using r by (simp add: outside_def apart_def)
  have v: "lookup_libs (lmem demo_exec) [102, 111, 111] (zip [demo_lib] [?ns]) = 0x1008"
    using demo_lookup demo_exec_sym
    by (simp add: symbol_address_def in_image_def demo_exec_phnum phdr_table_def demo_lib_def sym_at_def demo_sym_def)
  have l: "length demo_tags = 5" by (simp add: demo_tags_def)
  have t: "exec_table 0x1100 demo_exec = 0x2100" "exec_table 0x1000 demo_exec = 0x2000" "exec_table 0x1200 demo_exec = 0x2200"
    by (simp_all add: exec_table_def demo_exec_addr)
  have d: "dyn_last a demo_tags DT_SYMTAB = 0x1100" "dyn_last a demo_tags DT_STRTAB = 0x1000" "dyn_last a demo_tags DT_JMPREL = 0x1200"
    "dyn_last a demo_tags DT_PLTRELSZ = 24" "dyn_last a demo_tags DT_PLTGOT = 0x1800" "dyn_last a demo_tags DT_RELAENT = a" for a
    by (simp_all add: dyn_last_def demo_tags_def)
  have "\<exists>m'. bind_executable 0x2218 demo_exec = (True, set_lmem m' demo_exec) \<and>
    (\<forall>j < (1 :: nat). ld64 m' 0x2800 = (let v = lookup_libs (lmem demo_exec) [102, 111, 111] (zip (g_loaded_libraries demo_exec) [?ns])
       in if v = 0 then ld64 (lmem demo_exec) 0x2800 else v)) \<and>
    (\<forall>a. (\<forall>j < (1 :: nat). \<not> in_region 0x2800 8 a) \<longrightarrow> m' a = lmem demo_exec a)"
    using executable_bound [OF demo_exec_dyn, where symtab = "0x2100" and strtab = "0x2000" and pltrel = "0x2200" and n = 1
        and nss = "[?ns]" and xs = "\<lambda>_. [102, 111, 111]" and t = "\<lambda>_. 0x2800"] l d t demo_exec_names e o
    by (simp add: demo_exec_fields)
  then show ?thesis by (auto simp: demo_exec_fields v [simplified])
qed

end
