(* ===== verification/Linker_Init.thy ===== *)
theory Linker_Init
  imports Linker_Bind
begin

text \<open>
  The order of the initialisers: what \<open>main\<close> runs between binding the executable and entering it.
  The calls are a list computed from memory as it is before the first of them; that this list is what
  runs needs the initialisers to leave alone the headers and the initialisation arrays it is read from.
\<close>

subsection \<open>The list of calls\<close>

definition init_count :: "LoadedLibrary \<Rightarrow> nat" where
  "init_count lib =
     (if lib_init_array lib \<noteq> 0 \<and> 0 < lib_init_array_size lib then unat (ucast (lib_init_array_size lib div 8) :: u32) else 0)"

definition array_slot :: "mem \<Rightarrow> LoadedLibrary \<Rightarrow> nat \<Rightarrow> u64" where
  "array_slot m lib i = lib_address m lib (lib_init_array lib + of_nat i * 8)"

definition array_call :: "mem \<Rightarrow> LoadedLibrary \<Rightarrow> nat \<Rightarrow> u64 list" where
  "array_call m lib i =
     (let f = ld64 m (array_slot m lib i) in if f \<noteq> 0 \<and> lib_address m lib f \<noteq> 0 then [lib_address m lib f] else [])"

definition init_calls :: "mem \<Rightarrow> LoadedLibrary \<Rightarrow> u64 list" where
  "init_calls m lib =
     (if lib_init lib \<noteq> 0 then [lib_address m lib (lib_init lib)] else []) @ concat (map (array_call m lib) [0..<init_count lib])"

primrec run_calls :: "(u64 \<Rightarrow> 's \<Rightarrow> 's option) \<Rightarrow> u64 list \<Rightarrow> 's \<Rightarrow> 's option" where
  "run_calls call [] s = Some s"
| "run_calls call (a # as) s = Option.bind (call a s) (run_calls call as)"

lemma run_calls_append: "run_calls call (as @ bs) s = Option.bind (run_calls call as s) (run_calls call bs)"
proof (induction as arbitrary: s)
  case (Cons a as)
  then show ?case by (cases "call a s") simp_all
qed simp

subsection \<open>What the list depends on\<close>

definition init_regions :: "mem \<Rightarrow> LoadedLibrary \<Rightarrow> (u64 \<times> nat) list" where
  "init_regions m lib =
     [(lib_ehdr lib + 56, 2), (lib_phdr lib, 56 * unat (phnum_of m (lib_ehdr lib)))] @
     map (\<lambda>i. (array_slot m lib i, 8)) [0..<init_count lib]"

lemma same_lib_address:
  assumes "intact (init_regions m lib) m m'"
  shows "lib_address m' lib v = lib_address m lib v"
proof -
  have n: "phnum_of m' (lib_ehdr lib) = phnum_of m (lib_ehdr lib)"
    using assms by (simp add: intact_def init_regions_def phnum_of_def ld_ehdr_def ld16_def)
  have "phdr_table m' (lib_phdr lib) (phnum_of m (lib_ehdr lib)) = phdr_table m (lib_phdr lib) (phnum_of m (lib_ehdr lib))"
    by (rule phdr_table_cong) (use assms in \<open>simp add: intact_def init_regions_def\<close>)
  then show ?thesis
    by (simp add: lib_address_def n translate_eq in_image_def first_load_vaddr_def first_load_def)
qed

lemma same_array_slot:
  assumes "intact (init_regions m lib) m m'" and "i < init_count lib"
  shows "ld64 m' (array_slot m lib i) = ld64 m (array_slot m lib i)"
proof -
  have "(array_slot m lib i, 8) \<in> set (init_regions m lib)" using assms(2) by (simp add: init_regions_def)
  then show ?thesis using assms(1) by (auto simp: intact_def ld64_def simp del: bytes_at.simps)
qed

text \<open>\<open>call\<close> returns with the regions \<open>R\<close> as in \<open>m\<close> whenever it returns.\<close>

definition spares :: "(u64 \<Rightarrow> 'k linker \<Rightarrow> 'k linker option) \<Rightarrow> (u64 \<times> nat) list \<Rightarrow> mem \<Rightarrow> bool" where
  "spares call R m \<longleftrightarrow> (\<forall>a s s'. intact R m (lmem s) \<longrightarrow> call a s = Some s' \<longrightarrow> intact R m (lmem s'))"

lemma run_calls_spares:
  "spares call R m \<Longrightarrow> intact R m (lmem s) \<Longrightarrow> run_calls call as s = Some s' \<Longrightarrow> intact R m (lmem s')"
  by (induction as arbitrary: s) (auto simp: spares_def bind_eq_Some_conv)

subsection \<open>Running it\<close>

lemma run_init_array_eq:
  assumes sp: "spares call R m" and R: "set (init_regions m lib) \<subseteq> set R"
  shows "i + k = init_count lib \<Longrightarrow> intact R m (lmem s) \<Longrightarrow>
    run_init_array call lib i k s = run_calls call (concat (map (array_call m lib) [i..<init_count lib])) s"
proof (induction k arbitrary: i s)
  case (Suc k)
  have i: "i < init_count lib" using Suc.prems(1) by simp
  have now: "intact (init_regions m lib) m (lmem s)" by (rule intact_mono [OF R Suc.prems(2)])
  let ?f = "ld64 m (array_slot m lib i)"
  have f: "ld64 (lmem s) (lib_address m lib (lib_init_array lib + of_nat i * 8)) = ?f"
    using same_array_slot [OF now i] by (simp add: array_slot_def)
  have up: "[i..<init_count lib] = i # [Suc i..<init_count lib]" using i by (rule upt_conv_Cons)
  have IH: "run_init_array call lib (Suc i) k s' = run_calls call (concat (map (array_call m lib) [Suc i..<init_count lib])) s'"
    if "intact R m (lmem s')" for s'
    by (rule Suc.IH) (use Suc.prems(1) that in simp_all)
  show ?case
  proof (cases "?f \<noteq> 0 \<and> lib_address m lib ?f \<noteq> 0")
    case True
    have "run_init_array call lib i (Suc k) s = Option.bind (call (lib_address m lib ?f) s) (run_init_array call lib (Suc i) k)"
      using True by (simp add: f same_lib_address [OF now] Let_def)
    also have "\<dots> = Option.bind (call (lib_address m lib ?f) s) (run_calls call (concat (map (array_call m lib) [Suc i..<init_count lib])))"
      using IH sp Suc.prems(2) by (cases "call (lib_address m lib ?f) s") (auto simp: spares_def)
    finally show ?thesis using True unfolding up by (simp add: array_call_def [of m lib i] Let_def)
  next
    case False
    then have "run_init_array call lib i (Suc k) s = run_init_array call lib (Suc i) k s"
      by (auto simp: f same_lib_address [OF now] Let_def)
    then show ?thesis using False IH [OF Suc.prems(2)] unfolding up by (auto simp: array_call_def [of m lib i] Let_def)
  qed
qed simp

lemma run_init_eq:
  assumes sp: "spares call R m" and R: "set (init_regions m lib) \<subseteq> set R" and s: "intact R m (lmem s)"
    and a: "lib_init lib \<noteq> 0 \<Longrightarrow> lib_address m lib (lib_init lib) \<noteq> 0"
  shows "run_init call lib s = run_calls call (init_calls m lib) s"
proof -
  have now: "intact (init_regions m lib) m (lmem s)" by (rule intact_mono [OF R s])
  have array: "(if lib_init_array lib \<noteq> 0 \<and> 0 < lib_init_array_size lib
      then run_init_array call lib 0 (unat (ucast (lib_init_array_size lib div 8) :: u32)) s' else Some s')
    = run_calls call (concat (map (array_call m lib) [0..<init_count lib])) s'" if "intact R m (lmem s')" for s'
  proof (cases "lib_init_array lib \<noteq> 0 \<and> 0 < lib_init_array_size lib")
    case True
    then have "init_count lib = unat (ucast (lib_init_array_size lib div 8) :: u32)" by (simp add: init_count_def)
    then show ?thesis using True run_init_array_eq [OF sp R, of 0 "init_count lib" s'] that by simp
  next
    case False
    then have "init_count lib = 0" by (auto simp: init_count_def)
    with False show ?thesis by auto
  qed
  show ?thesis
  proof (cases "lib_init lib = 0")
    case True
    then show ?thesis using array [OF s] by (simp add: run_init_def init_calls_def)
  next
    case False
    have "run_init call lib s = Option.bind (call (lib_address m lib (lib_init lib)) s)
        (\<lambda>s'. if lib_init_array lib \<noteq> 0 \<and> 0 < lib_init_array_size lib
          then run_init_array call lib 0 (unat (ucast (lib_init_array_size lib div 8) :: u32)) s' else Some s')"
      using False a by (simp add: run_init_def same_lib_address [OF now] Let_def)
    also have "\<dots> = Option.bind (call (lib_address m lib (lib_init lib)) s)
        (run_calls call (concat (map (array_call m lib) [0..<init_count lib])))"
      using array sp s by (cases "call (lib_address m lib (lib_init lib)) s") (auto simp: spares_def)
    finally show ?thesis using False by (simp add: init_calls_def)
  qed
qed

lemma run_inits_eq:
  assumes sp: "spares call R m"
  shows "set (concat (map (init_regions m) libs)) \<subseteq> set R \<Longrightarrow> intact R m (lmem s) \<Longrightarrow>
    (\<And>lib. lib \<in> set libs \<Longrightarrow> lib_init lib \<noteq> 0 \<Longrightarrow> lib_address m lib (lib_init lib) \<noteq> 0) \<Longrightarrow>
    run_inits call libs s = run_calls call (concat (map (init_calls m) libs)) s"
proof (induction libs arbitrary: s)
  case (Cons lib libs)
  have one: "run_init call lib s = run_calls call (init_calls m lib) s"
    by (rule run_init_eq [OF sp _ Cons.prems(2)]) (use Cons.prems(1,3) in auto)
  have rest: "run_inits call libs s' = run_calls call (concat (map (init_calls m) libs)) s'" if "intact R m (lmem s')" for s'
    by (rule Cons.IH) (use Cons.prems that in auto)
  show ?case
  proof (cases "run_calls call (init_calls m lib) s")
    case None
    then show ?thesis by (simp add: one run_calls_append)
  next
    case (Some s')
    then show ?thesis using rest run_calls_spares [OF sp Cons.prems(2) Some] by (simp add: one run_calls_append)
  qed
qed simp

subsection \<open>What the list should be\<close>

text \<open>Where the library's link-time address \<open>v\<close> is at run time.\<close>

definition run_time :: "mem \<Rightarrow> LoadedLibrary \<Rightarrow> u64 \<Rightarrow> u64" where
  "run_time m lib v = lib_base_addr lib + (v - first_load_vaddr m (lib_phdr lib) (phnum_of m (lib_ehdr lib)))"

text \<open>
  The library's initialisers are still link-time addresses: DT_INIT and the nonzero entries \<open>es\<close> of
  the array lie in loadable segments, as the array does.
\<close>

definition placed :: "mem \<Rightarrow> LoadedLibrary \<Rightarrow> u64 \<Rightarrow> bool" where
  "placed m lib v \<longleftrightarrow> in_image m (lib_phdr lib) (phnum_of m (lib_ehdr lib)) v \<and> run_time m lib v \<noteq> 0"

definition link_time_inits :: "mem \<Rightarrow> LoadedLibrary \<Rightarrow> u64 list \<Rightarrow> bool" where
  "link_time_inits m lib es \<longleftrightarrow> lib_ehdr lib \<noteq> 0 \<and> (lib_init lib \<noteq> 0 \<longrightarrow> placed m lib (lib_init lib)) \<and>
     (lib_init_array lib = 0 \<longrightarrow> es = []) \<and> (lib_init_array lib \<noteq> 0 \<longrightarrow> unat (lib_init_array_size lib) = 8 * length es) \<and>
     length es < 2 ^ 32 \<and>
     (\<forall>i < length es. placed m lib (lib_init_array lib + 8 * of_nat i) \<and>
        ld64 m (run_time m lib (lib_init_array lib + 8 * of_nat i)) = es ! i \<and> (es ! i \<noteq> 0 \<longrightarrow> placed m lib (es ! i)))"

definition initialisers :: "mem \<Rightarrow> LoadedLibrary \<Rightarrow> u64 list \<Rightarrow> u64 list" where
  "initialisers m lib es = map (run_time m lib) (filter (\<lambda>v. v \<noteq> 0) (lib_init lib # es))"

lemma lib_address_placed: "lib_ehdr lib \<noteq> 0 \<Longrightarrow> placed m lib v \<Longrightarrow> lib_address m lib v = run_time m lib v"
  by (simp add: lib_address_def placed_def translate_eq run_time_def in_image_def)

lemma init_count_link_time:
  assumes "link_time_inits m lib es"
  shows "init_count lib = length es"
proof (cases "lib_init_array lib = 0")
  case True
  then show ?thesis using assms by (simp add: init_count_def link_time_inits_def)
next
  case False
  let ?sz = "lib_init_array_size lib"
  have sz: "unat ?sz = 8 * length es" "length es < 2 ^ 32" using assms False by (simp_all add: link_time_inits_def)
  then have "unat (?sz div 8) = length es" by (simp add: unat_div)
  then have "unat (ucast (?sz div 8) :: u32) = length es"
    using sz(2) by (simp add: unsigned_ucast_eq take_bit_nat_eq_self)
  moreover have "0 < ?sz \<longleftrightarrow> length es \<noteq> 0" using sz(1) by (simp add: word_less_nat_alt)
  ultimately show ?thesis using False by (auto simp: init_count_def)
qed

lemma concat_filter_singles:
  "concat (map (\<lambda>i. map f (filter P [g i])) is) = map f (filter P (map g is))"
  by (induction "is") simp_all

lemma init_calls_link_time:
  assumes "link_time_inits m lib es"
  shows "init_calls m lib = initialisers m lib es"
proof -
  have e: "lib_ehdr lib \<noteq> 0" using assms by (simp add: link_time_inits_def)
  have "array_call m lib i = map (run_time m lib) (filter (\<lambda>v. v \<noteq> 0) [es ! i])" if "i < length es" for i
  proof -
    have p: "placed m lib (lib_init_array lib + of_nat i * 8)" "es ! i \<noteq> 0 \<longrightarrow> placed m lib (es ! i)"
      "ld64 m (run_time m lib (lib_init_array lib + of_nat i * 8)) = es ! i"
      using assms that by (simp_all add: link_time_inits_def mult.commute)
    then show ?thesis
      using lib_address_placed [OF e p(1)] lib_address_placed [OF e, of m "es ! i"]
      by (simp add: array_call_def array_slot_def Let_def) (simp add: placed_def)
  qed
  then have "concat (map (array_call m lib) [0..<length es])
      = concat (map (\<lambda>i. map (run_time m lib) (filter (\<lambda>v. v \<noteq> 0) [es ! i])) [0..<length es])"
    by (intro arg_cong [where f = concat] map_cong) simp_all
  also have "\<dots> = map (run_time m lib) (filter (\<lambda>v. v \<noteq> 0) (map (\<lambda>i. es ! i) [0..<length es]))"
    by (rule concat_filter_singles)
  finally have "concat (map (array_call m lib) [0..<length es]) = map (run_time m lib) (filter (\<lambda>v. v \<noteq> 0) es)"
    by (simp add: map_nth)
  then show ?thesis
    using assms lib_address_placed [OF e, of m "lib_init lib"]
    by (simp add: init_calls_def init_count_link_time [OF assms] initialisers_def)
      (simp add: link_time_inits_def)
qed

text \<open>
  An entry that relocation has already made a run-time address is translated once more: when it is in
  no segment as a link-time address, the load address is added to it a second time.
\<close>

lemma relocated_entry_translated_again:
  assumes "f = ld64 m (array_slot m lib i)" and "f \<noteq> 0" and "lib_base_addr lib \<noteq> 0" and "lib_base_addr lib + f \<noteq> 0"
    and "\<not> in_image m (lib_phdr lib) (phnum_of m (lib_ehdr lib)) f"
  shows "array_call m lib i = [lib_base_addr lib + f] \<and> lib_base_addr lib + f \<noteq> f"
  using assms by (simp add: array_call_def lib_address_def translate_eq Let_def)

subsection \<open>Properties\<close>

text \<open>C19. Before the program is entered, \<open>main\<close> runs the initialisers of all loaded libraries, the library
  loaded last first, and of each library its DT_INIT routine and then the nonzero entries \<open>es\<close> of its
  initialisation array in order, each once and at its run-time address \<open>base + (v - first segment)\<close>, up to the
  first that does not return; if they all return, so does the loop. This holds of libraries whose
  DT_INIT, array and entries lie, as link-time addresses, in their segments (and at no run-time address
  0), and of initialisers that leave alone the headers and arrays the addresses are read from. It does
  not hold of an array that a relocation has filled with run-time addresses:
  \<open>relocated_entry_translated_again\<close>.\<close>

theorem initialisers_in_order:
  assumes "list_all2 (link_time_inits (lmem s)) (g_loaded_libraries s) ess"
    and "spares call (concat (map (init_regions (lmem s)) (g_loaded_libraries s))) (lmem s)"
  shows "run_inits call (g_loaded_libraries s) s
      = run_calls call (concat (map2 (initialisers (lmem s)) (g_loaded_libraries s) ess)) s \<and>
    ((\<forall>a s. call a s \<noteq> None) \<longrightarrow> run_inits call (g_loaded_libraries s) s \<noteq> None)"
proof -
  let ?libs = "g_loaded_libraries s" and ?m = "lmem s"
  have lt: "\<exists>es. link_time_inits ?m lib es" if "lib \<in> set ?libs" for lib
    using assms(1) that by (metis in_set_conv_nth list_all2_nthD)
  have "run_inits call ?libs s = run_calls call (concat (map (init_calls ?m) ?libs)) s"
  proof (rule run_inits_eq [OF assms(2) subset_refl intact_refl])
    fix lib assume "lib \<in> set ?libs" and "lib_init lib \<noteq> 0"
    with lt obtain es where "link_time_inits ?m lib es" "lib_init lib \<noteq> 0" by blast
    then show "lib_address ?m lib (lib_init lib) \<noteq> 0"
      using lib_address_placed by (simp add: link_time_inits_def) (simp add: placed_def)
  qed
  also have "map (init_calls ?m) ?libs = map2 (initialisers ?m) ?libs ess"
    using assms(1) by (induction rule: list_all2_induct) (simp_all add: init_calls_link_time)
  finally have e: "run_inits call ?libs s = run_calls call (concat (map2 (initialisers ?m) ?libs ess)) s" .
  have "run_calls call as s \<noteq> None" if returns: "\<forall>a s. call a s \<noteq> None" for as
  proof (induction as arbitrary: s)
    case (Cons a as)
    obtain s' where "call a s = Some s'" using returns by blast
    with Cons show ?case by simp
  qed simp
  with e show ?thesis by simp
qed

text \<open>Two libraries over the small image (its ELF header now counting the program header), the second
  with two entries in its array, the last of them 0.\<close>

definition demo_inits :: "unit linker" where
  "demo_inits = (demo_linker ((demo_image 8)(0x1038 := 1)))\<lparr>g_loaded_libraries :=
     [demo_lib\<lparr>lib_base_addr := 0x5000, lib_init := 0x20\<rparr>, demo_lib\<lparr>lib_init := 0x10, lib_init_array := 0x118, lib_init_array_size := 16\<rparr>]\<rparr>"

lemma demo_inits_reads:
  defines "m \<equiv> (demo_image 8)(0x1038 := 1)"
  shows "phnum_of m 0x1000 = 1" and "phdr_table m 0x1040 1 = [demo_phdr]" and "ld64 m 0x1118 = 0x1100" and "ld64 m 0x1120 = 0"
proof -
  have keep: "bytes_at m p n = bytes_at (demo_image 8) p n" if "\<not> in_region p n 0x1038" for p n
  proof (rule bytes_at_cong)
    fix i assume "i < n"
    then have "in_region p n (p + of_nat i)"
      by (simp add: in_region_def unat_of_nat order.strict_trans1 [OF mod_less_eq_dividend])
    with that show "m (p + of_nat i) = demo_image 8 (p + of_nat i)" by (auto simp: m_def)
  qed
  have "bytes_at m 0x1038 2 = [1, 0]"
    by (simp add: m_def bytes_at_numeral demo_image_def write_bytes_apply st64_other in_region_def)
  then show "phnum_of m 0x1000 = 1" by (simp add: phnum_of_def ld_ehdr_def ld16_def)
  have "phdr_table m 0x1040 1 = phdr_table (demo_image 8) 0x1040 1"
    by (rule phdr_table_cong) (rule keep, simp add: in_region_def)
  then show "phdr_table m 0x1040 1 = [demo_phdr]" by (simp add: demo_table)
  have l: "ld64 m p = ld64 (demo_image 8) p" if "\<not> in_region p 8 0x1038" for p
    using keep [OF that] by (simp add: ld64_def)
  show "ld64 m 0x1118 = 0x1100" "ld64 m 0x1120 = 0"
    using demo_dyn [of 8] by (simp_all add: ld_dyn_def l in_region_def)
qed

theorem initialisers_in_order_witness:
  "\<exists>s'. run_inits (\<lambda>a s. Some (message ''call'' [a] s)) (g_loaded_libraries demo_inits) demo_inits = Some s' \<and>
    messages s' = [(''call'', [0x5020]), (''call'', [0x1010]), (''call'', [0x2100])]"
proof -
  define m where "m = (demo_image 8)(0x1038 := 1)"
  note r = demo_inits_reads [folded m_def]
  let ?a = "demo_lib\<lparr>lib_base_addr := 0x5000, lib_init := 0x20\<rparr>"
  let ?b = "demo_lib\<lparr>lib_init := 0x10, lib_init_array := 0x118, lib_init_array_size := 16\<rparr>"
  have m: "lmem demo_inits = m" by (simp add: demo_inits_def demo_linker_def lmem_def m_def)
  have g: "g_loaded_libraries demo_inits = [?a, ?b]" by (simp add: demo_inits_def)
  have f: "first_load_vaddr m 0x1040 1 = 0" by (simp add: first_load_vaddr_def first_load_def r demo_phdr_def)
  have p: "placed m lib v \<longleftrightarrow> v < 0x2000 \<and> lib_base_addr lib + v \<noteq> 0" and rt: "run_time m lib v = lib_base_addr lib + v"
    if "lib_ehdr lib = 0x1000" "lib_phdr lib = 0x1040" for lib v
    using that by (simp_all add: placed_def run_time_def in_image_def r f load_contains_def demo_phdr_def)
  have "link_time_inits m ?a []" "link_time_inits m ?b [0x1100, 0]"
    by (simp_all add: link_time_inits_def demo_lib_def p rt r All_less_Suc)
  then have l: "list_all2 (link_time_inits (lmem demo_inits)) (g_loaded_libraries demo_inits) [[], [0x1100, 0]]"
    by (simp add: m g)
  have c: "concat (map2 (initialisers (lmem demo_inits)) (g_loaded_libraries demo_inits) [[], [0x1100, 0]])
      = [0x5020, 0x1010, 0x2100]"
    by (simp add: m g initialisers_def rt demo_lib_def)
  have "spares (\<lambda>a s. Some (message ''call'' [a] s)) R (lmem demo_inits)" for R by (auto simp: spares_def)
  then have "run_inits (\<lambda>a s. Some (message ''call'' [a] s)) (g_loaded_libraries demo_inits) demo_inits
      = run_calls (\<lambda>a s. Some (message ''call'' [a] s)) [0x5020, 0x1010, 0x2100] demo_inits"
    unfolding c [symmetric] by (rule conjunct1 [OF initialisers_in_order [OF l]])
  moreover have "messages demo_inits = []" by (simp add: demo_inits_def demo_linker_def)
  ultimately show ?thesis by simp
qed

end
