(* ===== verification/Linker_Map.thy ===== *)
theory Linker_Map
  imports Linker_Load_Claims
begin

text \<open>
  Where a library is mapped: the address space that \<open>load_shared_library\<close> reserves is large enough
  for every segment, so mapping the segments over it touches no other memory, and what the file
  holds for a segment is found at its run-time address.
\<close>

subsection \<open>Pages\<close>

lemma page_split: "(x AND NOT 4095) + (x AND 4095) = (x :: u64)"
proof -
  have "(x AND NOT 4095) + (x AND 4095) = (x AND NOT 4095) OR (x AND 4095)"
    by (rule disjunctive_add) (auto simp: bit_simps)
  also have "\<dots> = x" by (rule bit_eqI) (auto simp: bit_simps)
  finally show ?thesis .
qed

lemma page_rest: "unat (x AND 4095 :: u64) = unat x mod 4096"
proof -
  have "(x AND 4095) = take_bit 12 x" by (simp add: take_bit_eq_mask mask_eq_exp_minus_1)
  then show ?thesis by (simp only: unsigned_take_bit_eq) (simp add: take_bit_eq_mod)
qed

lemma page_start: "unat (x AND NOT 4095 :: u64) = unat x - unat x mod 4096"
proof -
  have "x AND NOT 4095 = x - (x AND 4095)" using page_split [of x] by (simp add: eq_diff_eq)
  moreover have "x AND 4095 \<le> x" by (simp add: word_le_nat_alt page_rest)
  ultimately show ?thesis by (simp add: unat_sub page_rest)
qed

definition round_up :: "nat \<Rightarrow> nat" where
  "round_up n = (n + 4095) div 4096 * 4096"

lemma round_up_props: "n \<le> round_up n" "round_up n < n + 4096" "round_up n mod 4096 = 0"
proof -
  have "n + 4095 = (n + 4095) div 4096 * 4096 + (n + 4095) mod 4096" by simp
  moreover have "(n + 4095) mod 4096 < 4096" by simp
  ultimately show "n \<le> round_up n" "round_up n < n + 4096" unfolding round_up_def by linarith+
qed (simp add: round_up_def)

lemma round_up_mono: "m \<le> n \<Longrightarrow> round_up m \<le> round_up n"
  unfolding round_up_def by (simp add: div_le_mono)

lemma round_up_add: "m mod 4096 = 0 \<Longrightarrow> round_up (m + n) = m + round_up n"
proof -
  assume "m mod 4096 = 0"
  then obtain k where m: "m = k * 4096" by auto
  have "(k * 4096 + n + 4095) div 4096 = k + (n + 4095) div 4096"
    using div_mult_self3 [of 4096 k "n + 4095"] by (simp only: add.assoc)
  then show ?thesis by (simp add: m round_up_def)
qed

lemma unat_round_up:
  "unat x + 4095 < 2 ^ 64 \<Longrightarrow> unat ((x + 4095) div 4096 * 4096 :: u64) = round_up (unat x)"
proof -
  assume a: "unat x + 4095 < 2 ^ 64"
  then have "unat (x + 4095) = unat x + 4095" by (simp add: unat_word_ariths)
  moreover have "(unat x + 4095) div 4096 * 4096 < 2 ^ 64" using a by linarith
  ultimately show ?thesis by (simp add: round_up_def unat_word_ariths(2) unat_div)
qed

subsection \<open>The size of the reservation\<close>

text \<open>Program headers as a linker lays them out: loadable segments from the first on, below 2^63.\<close>

definition segments_ok :: "u64 \<Rightarrow> Elf64_Phdr list \<Rightarrow> bool" where
  "segments_ok flv ps \<longleftrightarrow> (\<forall>p \<in> set ps. p_type p = PT_LOAD \<longrightarrow>
     flv \<le> p_vaddr p \<and> unat (p_vaddr p) + unat (p_memsz p) < 2 ^ 63)"

lemma furthest_end_snoc:
  "furthest_end (ps @ [p]) = (case furthest_end ps of (mv, mm) \<Rightarrow>
     if p_type p = PT_LOAD \<and> p_vaddr p + p_memsz p > mv + mm then (p_vaddr p, p_memsz p) else (mv, mm))"
  by (simp add: furthest_end_def case_prod_unfold)

lemma unat_sum_small: "unat a + unat b < 2 ^ 63 \<Longrightarrow> unat (a + b :: u64) = unat a + unat b"
  by (simp add: unat_word_ariths)

lemma unat_sum: "unat a + unat b < 2 ^ 64 \<Longrightarrow> unat (a + b :: u64) = unat a + unat b"
  by (simp add: unat_word_ariths)

lemma furthest_end_bounds:
  assumes "segments_ok flv ps" and "furthest_end ps = (mv, mm)"
  shows "unat mv + unat mm < 2 ^ 63 \<and> (flv \<le> mv \<or> mv = 0 \<and> mm = 0) \<and>
    (\<forall>p \<in> set ps. p_type p = PT_LOAD \<longrightarrow> unat (p_vaddr p) + unat (p_memsz p) \<le> unat mv + unat mm)"
  using assms
proof (induction ps arbitrary: mv mm rule: rev_induct)
  case Nil
  then show ?case by (simp add: furthest_end_def)
next
  case (snoc p ps)
  obtain v n where f: "furthest_end ps = (v, n)" by (cases "furthest_end ps")
  have IH: "unat v + unat n < 2 ^ 63" "flv \<le> v \<or> v = 0 \<and> n = 0"
      "\<And>q. q \<in> set ps \<Longrightarrow> p_type q = PT_LOAD \<Longrightarrow> unat (p_vaddr q) + unat (p_memsz q) \<le> unat v + unat n"
    using snoc.IH [OF _ f] snoc.prems(1) by (auto simp: segments_ok_def)
  show ?case
  proof (cases "p_type p = PT_LOAD")
    case True
    then have p: "flv \<le> p_vaddr p" "unat (p_vaddr p) + unat (p_memsz p) < 2 ^ 63"
      using snoc.prems(1) by (simp_all add: segments_ok_def)
    have lt: "p_vaddr p + p_memsz p > v + n \<longleftrightarrow> unat v + unat n < unat (p_vaddr p) + unat (p_memsz p)"
      unfolding word_less_nat_alt unat_sum_small [OF p(2)] unat_sum_small [OF IH(1)] ..
    show ?thesis
    proof (cases "p_vaddr p + p_memsz p > v + n")
      case True
      then have "(mv, mm) = (p_vaddr p, p_memsz p)"
        using \<open>p_type p = PT_LOAD\<close> snoc.prems(2) by (simp add: furthest_end_snoc f)
      with True p IH(3) show ?thesis unfolding lt by force
    next
      case False
      then have "(mv, mm) = (v, n)" using snoc.prems(2) by (simp add: furthest_end_snoc f)
      with False IH show ?thesis unfolding lt by auto
    qed
  next
    case False
    then have "(mv, mm) = (v, n)" using snoc.prems(2) by (simp add: furthest_end_snoc f)
    with False IH show ?thesis by auto
  qed
qed

text \<open>The reservation covers every segment, rounded up to pages.\<close>

lemma image_size_covers:
  assumes "segments_ok (first_load_vaddr m phdr n) (phdr_table m phdr n)"
    and "p \<in> set (phdr_table m phdr n)" and "p_type p = PT_LOAD"
  shows "round_up (unat (p_vaddr p) - unat (first_load_vaddr m phdr n) + unat (p_memsz p)) \<le> unat (image_size m phdr n)"
proof -
  let ?flv = "first_load_vaddr m phdr n"
  obtain mv mm where f: "furthest_end (phdr_table m phdr n) = (mv, mm)" by fastforce
  note b = furthest_end_bounds [OF assms(1) f]
  have p: "?flv \<le> p_vaddr p" "unat (p_vaddr p) + unat (p_memsz p) \<le> unat mv + unat mm"
    using b assms by (auto simp: segments_ok_def)
  have le: "?flv \<le> mv" using b p by (auto simp: word_le_nat_alt)
  have d: "unat (mv - ?flv) = unat mv - unat ?flv" using le by (simp add: unat_sub)
  have e: "unat (mv - ?flv + mm) = unat mv - unat ?flv + unat mm"
    using unat_sum_small [of "mv - ?flv" mm] d b by linarith
  have "unat (mv - ?flv + mm) \<le> unat mv + unat mm" using e by linarith
  then have small: "unat (mv - ?flv + mm) < 2 ^ 63" using b by linarith
  have "unat (image_size m phdr n) = round_up (unat (mv - ?flv + mm))"
    unfolding image_size_def f case_prod_conv by (rule unat_round_up) (use small in simp)
  moreover have "unat (p_vaddr p) - unat ?flv + unat (p_memsz p) \<le> unat (mv - ?flv + mm)"
    using e p le by (simp add: word_le_nat_alt)
  ultimately show ?thesis using round_up_mono by simp
qed

subsection \<open>Mapping a segment\<close>

text \<open>
  mmap(2) with MAP_FIXED over a file: memory outside the range stays as it is, and on success the
  range holds the file from the offset on (\<open>file\<close> is its content, continued with zeros).
\<close>

definition maps_file :: "'k kernel \<Rightarrow> i32 \<Rightarrow> (u64 \<Rightarrow> u8) \<Rightarrow> bool" where
  "maps_file K fd content \<longleftrightarrow>
     (\<forall>k m a sz prot off. case K k m 222 [RX a, RX sz, RW prot, RW 0x12, RW fd, RX off] of (r, m', k') \<Rightarrow>
        (\<forall>x. \<not> in_region a (unat sz) x \<longrightarrow> m' x = m x) \<and>
        (r = a \<longrightarrow> (\<forall>x. in_region a (unat sz) x \<longrightarrow> m' x = content (off + (x - a)))))"

definition seg_start :: "u64 \<Rightarrow> u64 \<Rightarrow> Elf64_Phdr \<Rightarrow> u64" where
  "seg_start base flv p = (base + (p_vaddr p - flv)) AND NOT 4095"

definition seg_size :: "u64 \<Rightarrow> u64 \<Rightarrow> Elf64_Phdr \<Rightarrow> u64" where
  "seg_size base flv p = (p_memsz p + ((base + (p_vaddr p - flv)) AND 4095) + 4095) div 4096 * 4096"

definition in_window :: "u64 \<Rightarrow> u64 \<Rightarrow> Elf64_Phdr \<Rightarrow> u64 \<Rightarrow> bool" where
  "in_window base flv p x \<longleftrightarrow> in_region (seg_start base flv p) (unat (seg_size base flv p)) x"

lemma map_segment_effect:
  assumes K: "maps_file K fd content" and r: "map_segment K fd flv base p s = (ok, s')"
    and nz: "seg_start base flv p \<noteq> 0"
  shows "(\<forall>x. \<not> in_window base flv p x \<longrightarrow> lmem s' x = lmem s x) \<and>
    (ok \<longrightarrow> (\<forall>x. in_window base flv p x \<longrightarrow>
       lmem s' x = content ((p_offset p AND NOT 4095) + (x - seg_start base flv p))))"
proof -
  let ?a = "seg_start base flv p" and ?n = "seg_size base flv p" and ?o = "p_offset p AND NOT 4095"
  obtain res w where m: "dl_mmap K ?a ?n (segment_prot p) 0x12 fd ?o (hw (lheap s)) = (res, w)" by fastforce
  have ok: "ok \<longleftrightarrow> res = ?a" and s': "lmem s' = wmem w"
    using r m by (auto simp: map_segment_def Let_def on_world_def seg_start_def seg_size_def lmem_def)
  have "res = 0 \<and> wmem w = lmem s \<or>
      (\<exists>k'. K (kst (hw (lheap s))) (lmem s) 222 [RX ?a, RX ?n, RW (segment_prot p), RW 0x12, RW fd, RX ?o] = (res, wmem w, k'))"
    using m by (auto simp: mmap_def raw_mmap_def svc_def Let_def lmem_def split: if_splits prod.splits)
  then show ?thesis
  proof
    assume "res = 0 \<and> wmem w = lmem s"
    then show ?thesis using ok s' nz by simp
  next
    assume "\<exists>k'. K (kst (hw (lheap s))) (lmem s) 222 [RX ?a, RX ?n, RW (segment_prot p), RW 0x12, RW fd, RX ?o] = (res, wmem w, k')"
    then obtain k' where k: "K (kst (hw (lheap s))) (lmem s) 222 [RX ?a, RX ?n, RW (segment_prot p), RW 0x12, RW fd, RX ?o] = (res, wmem w, k')" ..
    have "case K (kst (hw (lheap s))) (lmem s) 222 [RX ?a, RX ?n, RW (segment_prot p), RW 0x12, RW fd, RX ?o] of (r, m', k') \<Rightarrow>
        (\<forall>x. \<not> in_region ?a (unat ?n) x \<longrightarrow> m' x = lmem s x) \<and>
        (r = ?a \<longrightarrow> (\<forall>x. in_region ?a (unat ?n) x \<longrightarrow> m' x = content (?o + (x - ?a))))"
      by (rule K [unfolded maps_file_def, THEN spec, THEN spec, THEN spec, THEN spec, THEN spec, THEN spec])
    then show ?thesis unfolding k case_prod_conv using ok s' by (simp add: in_window_def)
  qed
qed

text \<open>The window of a segment lies in the reservation, and the segment in its window.\<close>

lemma window_inside:
  assumes page: "unat base mod 4096 = 0" and fit: "unat base + N < 2 ^ 63"
    and p: "flv \<le> p_vaddr p" "round_up (unat (p_vaddr p) - unat flv + unat (p_memsz p)) \<le> N"
  shows "unat base \<le> unat (seg_start base flv p)"
    "unat (seg_start base flv p) + unat (seg_size base flv p) \<le> unat base + N"
    "j < unat (p_memsz p) \<Longrightarrow> unat ((base + (p_vaddr p - flv)) AND 4095) + j < unat (seg_size base flv p)"
proof -
  let ?d = "unat (p_vaddr p) - unat flv" and ?n = "unat (p_memsz p)"
  let ?a = "base + (p_vaddr p - flv)"
  have d: "unat (p_vaddr p - flv) = ?d" using p(1) by (simp add: unat_sub)
  have le: "?d + ?n \<le> N" using round_up_props(1) [of "?d + ?n"] p(2) by linarith
  have a: "unat ?a = unat base + ?d" using le fit d by (simp add: unat_word_ariths)
  have md: "(unat base + ?d) mod 4096 = ?d mod 4096" using page mod_add_left_eq [of "unat base" 4096 ?d] by simp
  have st: "unat (seg_start base flv p) = unat base + (?d - ?d mod 4096)"
    unfolding seg_start_def page_start a md using mod_less_eq_dividend [of ?d 4096] by simp
  then show "unat base \<le> unat (seg_start base flv p)" by simp
  have rest: "unat (?a AND 4095) = ?d mod 4096" unfolding page_rest a md ..
  have "?n + ?d mod 4096 \<le> ?d + ?n" by simp
  then have ru: "round_up (?n + ?d mod 4096) \<le> N" using round_up_mono p(2) order_trans by blast
  have sum: "unat (p_memsz p + (?a AND 4095)) = ?n + ?d mod 4096"
    unfolding rest [symmetric] by (rule unat_sum) (use le fit rest mod_less_eq_dividend [of ?d 4096] in simp)
  have "?n + ?d mod 4096 < 2 ^ 63" using ru fit round_up_props(1) [of "?n + ?d mod 4096"] by linarith
  then have small: "?n + ?d mod 4096 + 4095 < 2 ^ 64" by simp
  have sz: "unat (seg_size base flv p) = round_up (?n + ?d mod 4096)"
    unfolding seg_size_def sum [symmetric]
    by (rule unat_round_up) (use small sum in simp)
  then show "j < ?n \<Longrightarrow> unat (?a AND 4095) + j < unat (seg_size base flv p)"
    using round_up_props(1) [of "?n + ?d mod 4096"] rest by linarith
  have "(?d - ?d mod 4096) mod 4096 = 0" by (simp only: minus_mod_eq_mult_div mod_mult_self1_is_0)
  then have "(?d - ?d mod 4096) + round_up (?n + ?d mod 4096) = round_up (?d - ?d mod 4096 + (?n + ?d mod 4096))"
    by (simp add: round_up_add)
  also have "?d - ?d mod 4096 + (?n + ?d mod 4096) = ?d + ?n" using mod_less_eq_dividend [of ?d 4096] by linarith
  finally show "unat (seg_start base flv p) + unat (seg_size base flv p) \<le> unat base + N"
    using st sz p(2) by linarith
qed

subsection \<open>Mapping all segments\<close>

text \<open>The headers \<open>ps\<close> from the \<open>i\<close>-th on are mapped over memory \<open>m\<close>, giving \<open>m'\<close>.\<close>

definition mapped_from :: "(u64 \<Rightarrow> u8) \<Rightarrow> u64 \<Rightarrow> u64 \<Rightarrow> Elf64_Phdr list \<Rightarrow> nat \<Rightarrow> mem \<Rightarrow> bool" where
  "mapped_from content base flv ps i m' \<longleftrightarrow>
     (\<forall>l < length ps. i \<le> l \<and> p_type (ps ! l) = PT_LOAD \<longrightarrow>
        (\<forall>x. in_window base flv (ps ! l) x \<and>
             (\<forall>j < length ps. l < j \<and> p_type (ps ! j) = PT_LOAD \<longrightarrow> \<not> in_window base flv (ps ! j) x) \<longrightarrow>
           m' x = content ((p_offset (ps ! l) AND NOT 4095) + (x - seg_start base flv (ps ! l)))))"

lemma window_in_reservation:
  assumes "unat base mod 4096 = 0" and "unat base + N < 2 ^ 63" and "flv \<le> p_vaddr p"
    and "round_up (unat (p_vaddr p) - unat flv + unat (p_memsz p)) \<le> N" and "in_window base flv p x"
  shows "in_region base N x"
proof -
  note w = window_inside [OF assms(1-4)]
  have "seg_start base flv p = base + of_nat (unat (seg_start base flv p) - unat base)"
    using w(1) by (simp add: of_nat_diff)
  then show ?thesis
    using in_subregion [of base "unat (seg_start base flv p) - unat base" "unat (seg_size base flv p)" x N]
      assms(5) w(1,2) by (simp add: in_window_def)
qed

lemma mapped_from_step:
  assumes "mapped_from content base flv ps (Suc i) m'"
    and "\<And>x. p_type (ps ! i) = PT_LOAD \<Longrightarrow> in_window base flv (ps ! i) x \<Longrightarrow>
      \<forall>j < length ps. i < j \<and> p_type (ps ! j) = PT_LOAD \<longrightarrow> \<not> in_window base flv (ps ! j) x \<Longrightarrow>
      m' x = content ((p_offset (ps ! i) AND NOT 4095) + (x - seg_start base flv (ps ! i)))"
  shows "mapped_from content base flv ps i m'"
  unfolding mapped_from_def
proof (intro allI impI, elim conjE)
  fix l x assume l: "l < length ps" "i \<le> l" "p_type (ps ! l) = PT_LOAD" "in_window base flv (ps ! l) x"
    "\<forall>j < length ps. l < j \<and> p_type (ps ! j) = PT_LOAD \<longrightarrow> \<not> in_window base flv (ps ! j) x"
  show "m' x = content ((p_offset (ps ! l) AND NOT 4095) + (x - seg_start base flv (ps ! l)))"
  proof (cases "l = i")
    case True
    with l assms(2) show ?thesis by blast
  next
    case False
    with l assms(1) show ?thesis unfolding mapped_from_def by (simp add: Suc_le_eq)
  qed
qed

text \<open>Mapping the headers from the \<open>i\<close>-th on takes \<open>s\<close> to \<open>s'\<close> with the answer \<open>r\<close>.\<close>

definition map_effect :: "(u64 \<Rightarrow> u8) \<Rightarrow> u64 \<Rightarrow> u64 \<Rightarrow> Elf64_Phdr list \<Rightarrow> nat \<Rightarrow> mem \<Rightarrow> nat \<Rightarrow> mem \<Rightarrow> nat option \<Rightarrow> mem \<Rightarrow> bool" where
  "map_effect content base flv ps N m0 i m r m' \<longleftrightarrow>
     (\<forall>x. \<not> in_region base N x \<longrightarrow> m' x = m0 x) \<and>
     (r = None \<longrightarrow> mapped_from content base flv ps i m' \<and>
       (\<forall>x. (\<forall>j < length ps. i \<le> j \<and> p_type (ps ! j) = PT_LOAD \<longrightarrow> \<not> in_window base flv (ps ! j) x) \<longrightarrow> m' x = m x))"

lemma map_effectD:
  assumes "map_effect content base flv ps N m0 i m r m'"
  shows "\<forall>x. \<not> in_region base N x \<longrightarrow> m' x = m0 x" "r = None \<Longrightarrow> mapped_from content base flv ps i m'"
    "r = None \<Longrightarrow> \<forall>j < length ps. i \<le> j \<and> p_type (ps ! j) = PT_LOAD \<longrightarrow> \<not> in_window base flv (ps ! j) x \<Longrightarrow> m' x = m x"
  using assms by (auto simp: map_effect_def)

lemma map_effect_skip:
  assumes e: "map_effect content base flv ps N m0 (Suc i) m r m'" and p: "p_type (ps ! i) \<noteq> PT_LOAD"
  shows "map_effect content base flv ps N m0 i m r m'"
proof -
  have "mapped_from content base flv ps i m'" if "r = None"
    by (rule mapped_from_step [OF map_effectD(2) [OF e that]]) (use p in blast)
  moreover have "m' x = m x"
    if "r = None" "\<forall>j < length ps. i \<le> j \<and> p_type (ps ! j) = PT_LOAD \<longrightarrow> \<not> in_window base flv (ps ! j) x" for x
    using map_effectD(3) [OF e that(1), of x] that(2) by auto
  ultimately show ?thesis using map_effectD(1) [OF e] unfolding map_effect_def by blast
qed

lemma map_effect_segment:
  assumes e: "map_effect content base flv ps N m0 (Suc i) m1 r m'"
    and i: "i < length ps" "p_type (ps ! i) = PT_LOAD"
    and m1: "\<forall>x. \<not> in_window base flv (ps ! i) x \<longrightarrow> m1 x = m x"
      "\<forall>x. in_window base flv (ps ! i) x \<longrightarrow> m1 x = content ((p_offset (ps ! i) AND NOT 4095) + (x - seg_start base flv (ps ! i)))"
  shows "map_effect content base flv ps N m0 i m r m'"
proof -
  have own: "m' x = content ((p_offset (ps ! i) AND NOT 4095) + (x - seg_start base flv (ps ! i)))"
    if "r = None" "in_window base flv (ps ! i) x"
      "\<forall>j < length ps. i < j \<and> p_type (ps ! j) = PT_LOAD \<longrightarrow> \<not> in_window base flv (ps ! j) x" for x
    using map_effectD(3) [OF e that(1), of x] that(2,3) m1(2) by (simp add: Suc_le_eq)
  have "m' x = m x"
    if "r = None" "\<forall>j < length ps. i \<le> j \<and> p_type (ps ! j) = PT_LOAD \<longrightarrow> \<not> in_window base flv (ps ! j) x" for x
    using map_effectD(3) [OF e that(1), of x] that(2) m1(1) i by auto
  moreover have "mapped_from content base flv ps i m'" if "r = None"
    by (rule mapped_from_step [OF map_effectD(2) [OF e that]]) (use own [OF that] in blast)
  ultimately show ?thesis using map_effectD(1) [OF e] unfolding map_effect_def by blast
qed

lemma map_segments_effect:
  fixes N :: nat
  assumes K: "maps_file K fd content" and base: "base \<noteq> 0" "unat base mod 4096 = 0" "unat base + N < 2 ^ 63"
    and ps: "\<And>p. p \<in> set ps \<Longrightarrow> p_type p = PT_LOAD \<Longrightarrow>
      flv \<le> p_vaddr p \<and> round_up (unat (p_vaddr p) - unat flv + unat (p_memsz p)) \<le> N"
    and table: "\<And>m'. (\<forall>x. \<not> in_region base N x \<longrightarrow> m' x = m x) \<Longrightarrow>
      map (\<lambda>i. ld_phdr m' (phdr + 56 * of_nat i)) [0..<length ps] = ps"
  shows "i + k = length ps \<Longrightarrow> \<forall>x. \<not> in_region base N x \<longrightarrow> lmem s x = m x \<Longrightarrow>
    map_segments K fd phdr flv base i k s = (r, s') \<Longrightarrow> map_effect content base flv ps N m i (lmem s) r (lmem s')"
proof (induction k arbitrary: i s)
  case 0
  then show ?case by (simp add: map_effect_def mapped_from_def)
next
  case (Suc k)
  have i: "i < length ps" using Suc.prems(1) by simp
  have p: "ld_phdr (lmem s) (phdr + 56 * of_nat i) = ps ! i"
    using arg_cong [OF table [OF Suc.prems(2)], of "\<lambda>xs. xs ! i"] i by simp
  show ?case
  proof (cases "p_type (ps ! i) = PT_LOAD")
    case False
    then have run: "map_segments K fd phdr flv base (Suc i) k s = (r, s')" using Suc.prems(3) by (simp add: p)
    show ?thesis by (rule map_effect_skip [OF Suc.IH [OF _ Suc.prems(2) run] False]) (use Suc.prems(1) in simp)
  next
    case True
    obtain ok s1 where m: "map_segment K fd flv base (ps ! i) s = (ok, s1)" by fastforce
    note fits = conjunct1 [OF ps [OF nth_mem [OF i] True]] conjunct2 [OF ps [OF nth_mem [OF i] True]]
    have "unat base \<noteq> 0" using base(1) by (simp add: unat_eq_0)
    then have "seg_start base flv (ps ! i) \<noteq> 0" using window_inside(1) [OF base(2,3) fits] by auto
    note e = map_segment_effect [OF K m this]
    have s1: "\<forall>x. \<not> in_region base N x \<longrightarrow> lmem s1 x = m x"
    proof (intro allI impI)
      fix x assume x: "\<not> in_region base N x"
      then have "\<not> in_window base flv (ps ! i) x" using window_in_reservation [OF base(2,3) fits] by (rule contrapos_nn)
      then show "lmem s1 x = m x" using conjunct1 [OF e] Suc.prems(2) x by simp
    qed
    show ?thesis
    proof (cases ok)
      case False
      then have "r \<noteq> None" "s' = s1" using Suc.prems(3) True by (auto simp: p m)
      with s1 show ?thesis unfolding map_effect_def by blast
    next
      case ok: True
      then have "map_segments K fd phdr flv base (Suc i) k s1 = (r, s')" using Suc.prems(3) True by (simp add: p m)
      then have "map_effect content base flv ps N m (Suc i) (lmem s1) r (lmem s')"
        using Suc.IH [OF _ s1] Suc.prems(1) by simp
      then show ?thesis by (rule map_effect_segment [OF _ i True]) (use e ok in simp_all)
    qed
  qed
qed

text \<open>A byte of a segment lies in the segment's window, at the distance of its place in the file.\<close>

lemma segment_byte:
  assumes base: "unat base mod 4096 = 0" "unat base + N < 2 ^ 63" and p: "flv \<le> p_vaddr p"
      "round_up (unat (p_vaddr p) - unat flv + unat (p_memsz p)) \<le> N" and j: "j < unat (p_memsz p)"
    and page: "p_offset p AND 4095 = (base + (p_vaddr p - flv)) AND 4095"
  defines "x \<equiv> base + (p_vaddr p - flv) + of_nat j"
  shows "in_window base flv p x" "(p_offset p AND NOT 4095) + (x - seg_start base flv p) = p_offset p + of_nat j"
proof -
  let ?a = "base + (p_vaddr p - flv)"
  have d: "x - seg_start base flv p = (?a AND 4095) + of_nat j"
    using page_split [of ?a] by (simp add: x_def seg_start_def algebra_simps)
  have "unat (of_nat j :: u64) = j" using j unat_less_2p [of "p_memsz p"] by (simp add: unat_of_nat_small)
  then have "unat ((?a AND 4095) + of_nat j) < unat (seg_size base flv p)"
    using window_inside(3) [OF base p j] unat_add_le [of "?a AND 4095" "of_nat j"] by linarith
  then show "in_window base flv p x" unfolding in_window_def in_region_def d .
  show "(p_offset p AND NOT 4095) + (x - seg_start base flv p) = p_offset p + of_nat j"
    unfolding d page [symmetric] using page_split [of "p_offset p"] by (simp add: add.assoc [symmetric])
qed

subsection \<open>Properties\<close>

text \<open>The reservation \<open>load_shared_library\<close> makes, and headers that lie apart from it.\<close>

definition reserved :: "mem \<Rightarrow> u64 \<Rightarrow> u16 \<Rightarrow> u64 \<Rightarrow> bool" where
  "reserved m phdr phnum base \<longleftrightarrow>
     (let N = unat (image_size m phdr phnum)
      in base \<noteq> 0 \<and> unat base mod 4096 = 0 \<and> unat base + N < 2 ^ 63 \<and>
         apart base N phdr (56 * unat phnum) \<and>
         segments_ok (first_load_vaddr m phdr phnum) (phdr_table m phdr phnum))"

lemma bytes_at_outside:
  assumes "apart b N p n" and "\<forall>x. \<not> in_region b N x \<longrightarrow> m' x = m x"
  shows "bytes_at m' p n = bytes_at m p n"
proof (rule bytes_at_cong)
  fix i assume i: "i < n"
  have "n \<le> 2 ^ 64" using assms(1) unat_less_2p [of "b - p"] by (simp add: apart_def)
  then have "in_region p n (p + of_nat i)" using i by (rule in_region_index)
  then have "\<not> in_region b N (p + of_nat i)" using apartD [OF assms(1)] by blast
  then show "m' (p + of_nat i) = m (p + of_nat i)" using assms(2) by blast
qed

text \<open>C8. Mapping a library. With the file's pages mapped as the system call documents and a reservation
  of the size the loader computed, mapping the segments changes no memory outside the reservation,
  whether it succeeds or stops at a segment that cannot be mapped. When it succeeds, every byte of every
  segment whose file offset and address agree within the page holds the byte of the file at its offset,
  unless the window of a later segment covers it too.\<close>

theorem segments_mapped:
  assumes "maps_file K fd content" and "reserved (lmem s) phdr phnum base"
    and "map_segments K fd phdr (first_load_vaddr (lmem s) phdr phnum) base 0 (unat phnum) s = (r, s')"
  defines "ps \<equiv> phdr_table (lmem s) phdr phnum" and "flv \<equiv> first_load_vaddr (lmem s) phdr phnum"
  shows "(\<forall>x. \<not> in_region base (unat (image_size (lmem s) phdr phnum)) x \<longrightarrow> lmem s' x = lmem s x) \<and>
    (r = None \<longrightarrow> (\<forall>i < length ps. p_type (ps ! i) = PT_LOAD \<and>
        p_offset (ps ! i) AND 4095 = (base + (p_vaddr (ps ! i) - flv)) AND 4095 \<longrightarrow>
      (\<forall>j < unat (p_memsz (ps ! i)). let x = base + (p_vaddr (ps ! i) - flv) + of_nat j in
        (\<forall>l < length ps. i < l \<and> p_type (ps ! l) = PT_LOAD \<longrightarrow> \<not> in_window base flv (ps ! l) x) \<longrightarrow>
        lmem s' x = content (p_offset (ps ! i) + of_nat j))))"
proof -
  let ?N = "unat (image_size (lmem s) phdr phnum)"
  have base: "base \<noteq> 0" "unat base mod 4096 = 0" "unat base + ?N < 2 ^ 63"
    and ap: "apart base ?N phdr (56 * unat phnum)" and ok: "segments_ok flv ps"
    using assms(2) by (simp_all add: reserved_def Let_def ps_def flv_def)
  have len: "length ps = unat phnum" by (simp add: ps_def phdr_table_def)
  have fits: "flv \<le> p_vaddr p \<and> round_up (unat (p_vaddr p) - unat flv + unat (p_memsz p)) \<le> ?N"
    if "p \<in> set ps" "p_type p = PT_LOAD" for p
    using that ok image_size_covers [of "lmem s" phdr phnum p] by (simp add: ps_def flv_def segments_ok_def)
  have table: "map (\<lambda>i. ld_phdr m' (phdr + 56 * of_nat i)) [0..<length ps] = ps"
    if "\<forall>x. \<not> in_region base ?N x \<longrightarrow> m' x = lmem s x" for m'
    using phdr_table_cong [OF bytes_at_outside [OF ap that]] unfolding ps_def phdr_table_def by simp
  have run: "map_segments K fd phdr flv base 0 (length ps) s = (r, s')" using assms(3) by (simp add: len flv_def)
  note e = map_segments_effect [OF assms(1) base fits table _ _ run, of "lmem s", simplified]
  have "lmem s' x = content (p_offset p + of_nat j)"
    if "r = None" "i < length ps" "p = ps ! i" "p_type p = PT_LOAD" "p_offset p AND 4095 = (base + (p_vaddr p - flv)) AND 4095"
      "j < unat (p_memsz p)" "x = base + (p_vaddr p - flv) + of_nat j"
      "\<forall>l < length ps. i < l \<and> p_type (ps ! l) = PT_LOAD \<longrightarrow> \<not> in_window base flv (ps ! l) x" for i j p x
  proof -
    have "p \<in> set ps" using that(2,3) by simp
    note f = fits [OF this that(4)]
    note b = segment_byte [OF base(2,3) conjunct1 [OF f] conjunct2 [OF f] that(6,5), folded that(7)]
    have "lmem s' x = content ((p_offset p AND NOT 4095) + (x - seg_start base flv p))"
      using map_effectD(2) [OF e that(1)] that(2,4,8) b(1) unfolding mapped_from_def that(3) by blast
    then show ?thesis by (simp only: b(2))
  qed
  then show ?thesis using map_effectD(1) [OF e] unfolding Let_def by blast
qed

text \<open>An example: one segment of 0x1100 bytes, mapped at 0x100000 from a file whose byte at \<open>o\<close> is \<open>o\<close> mod 256.\<close>

definition map_kernel :: "unit kernel" where
  "map_kernel k m nr args =
     (case args of [RX a, RX sz, _, _, _, RX off] \<Rightarrow> (a, (\<lambda>x. if in_region a (unat sz) x then ucast (off + (x - a)) else m x), k)
      | _ \<Rightarrow> (- 38, m, k))"

definition map_phdr :: Elf64_Phdr where
  "map_phdr = \<lparr>p_type = PT_LOAD, p_flags = 5, p_offset = 0, p_vaddr = 0, p_paddr = 0, p_filesz = 0x1100,
     p_memsz = 0x1100, p_align = 0x1000\<rparr>"

theorem segments_mapped_witness:
  "\<exists>s'. map_segments map_kernel 3 0x40 0 0x100000 0 1 (demo_linker (write_bytes (\<lambda>_. 0) 0x40 (phdr_bytes map_phdr))) = (None, s') \<and>
    lmem s' 0x101010 = 0x10 \<and> lmem s' 0x102000 = 0"
proof -
  let ?m = "write_bytes (\<lambda>_. 0) 0x40 (phdr_bytes map_phdr)"
  define s where "s = demo_linker ?m"
  have l: "length (phdr_bytes map_phdr) = 56" by (simp add: phdr_bytes_def)
  have m: "lmem s = ?m" by (simp add: s_def demo_linker_def lmem_def)
  have p: "ld_phdr ?m 0x40 = map_phdr" by (rule ld_phdr_bytes) (simp add: bytes_at_write_same l)
  have t: "phdr_table (lmem s) 0x40 1 = [map_phdr]" by (simp add: phdr_table_def m p)
  have flv: "first_load_vaddr (lmem s) 0x40 1 = 0" by (simp add: first_load_vaddr_def first_load_def t map_phdr_def)
  have sz: "image_size (lmem s) 0x40 1 = 0x2000" by (simp add: image_size_def furthest_end_def t flv map_phdr_def)
  have res: "reserved (lmem s) 0x40 1 0x100000"
    by (simp add: reserved_def sz t flv apart_def segments_ok_def map_phdr_def)
  have K: "maps_file map_kernel 3 ucast" by (simp add: maps_file_def map_kernel_def)
  obtain s' where r: "map_segments map_kernel 3 0x40 0 0x100000 0 1 s = (None, s')"
  proof -
    have "p_type map_phdr = PT_LOAD" by (simp add: map_phdr_def)
    then have "map_segments map_kernel 3 0x40 0 0x100000 0 1 s
        = (case map_segment map_kernel 3 0 0x100000 map_phdr s of (ok, s1) \<Rightarrow> if ok then (None, s1) else (Some 0, s1))"
      by (simp add: m p split: prod.splits)
    moreover have "fst (map_segment map_kernel 3 0 0x100000 map_phdr s)"
      by (simp add: map_phdr_def map_segment_def on_world_def mmap_def raw_mmap_def svc_def map_kernel_def mini_align_def Let_def)
    ultimately show ?thesis using that by (auto split: prod.splits)
  qed
  have a: "map_segments map_kernel 3 0x40 (first_load_vaddr (lmem s) 0x40 1) 0x100000 0 (unat (1 :: u16)) s = (None, s')"
    using r by (simp add: flv)
  note e = segments_mapped [OF K res a]
  have "lmem s' 0x102000 = lmem s 0x102000" using conjunct1 [OF e] unfolding sz by (simp add: in_region_def)
  then have "lmem s' 0x102000 = ?m 0x102000" unfolding m .
  moreover have "?m 0x102000 = 0" by (rule trans [OF write_bytes_other]) (simp_all add: l in_region_def)
  moreover have "lmem s' 0x101010 = 0x10"
    using conjunct2 [OF e] unfolding t flv by (auto simp: map_phdr_def dest: spec [of _ "0x1010 :: nat"])
  ultimately show ?thesis using r unfolding s_def by auto
qed

end
