(* ===== verification/Dispatch.thy ===== *)
theory Dispatch
  imports Prelude "HOL-Library.Monad_Syntax"
begin

text \<open>
  Two demonstrations of calls through function pointers stored in data: the shapes of
  oop_in_c/polymorphic.c, where a structure begins with the pointer to its drawing routine, and the
  section table of section/test_section.c, which the linker script puts between two symbols and
  \<open>main\<close> walks. Objects lie in the byte memory at the offsets of AArch64; the address of a routine is
  given by the parameter \<open>code\<close>, which says what lies at a code address. Output is the list of
  formats with their arguments; \<open>None\<close> is a call through a pointer to no routine.
\<close>

type_synonym printed = "(string \<times> u64 list) list"

subsection \<open>Shapes\<close>

datatype shape_fn = drawCircle | drawRectangle

definition draw :: "mem \<Rightarrow> shape_fn \<Rightarrow> u64 \<Rightarrow> printed" where
  "draw m f shape =
     (case f of
        drawCircle \<Rightarrow> [(''Drawing a circle...\<newline>'', []), (''Circle radius is %d\<newline>'', [ucast (ld32 m (shape + 8))])]
      | drawRectangle \<Rightarrow> [(''Drawing a rectangle...\<newline>'', []), (''Rectangle width is %d\<newline>'', [ucast (ld32 m (shape + 8))]),
          (''Rectangle height is %d\<newline>'', [ucast (ld32 m (shape + 12))])])"

text \<open>\<open>shape->draw(shape)\<close>\<close>

definition call_draw :: "(u64 \<Rightarrow> shape_fn option) \<Rightarrow> mem \<Rightarrow> u64 \<Rightarrow> printed option" where
  "call_draw code m shape = map_option (\<lambda>f. draw m f shape) (code (ld64 m shape))"

text \<open>\<open>circle\<close> and \<open>rectangle\<close> are the addresses of the local variables, \<open>addr\<close> those of the routines.\<close>

definition shapes_main :: "(u64 \<Rightarrow> shape_fn option) \<Rightarrow> (shape_fn \<Rightarrow> u64) \<Rightarrow> u64 \<Rightarrow> u64 \<Rightarrow> mem \<Rightarrow> (i32 \<times> printed) option" where
  "shapes_main code addr circle rectangle m =
     (let m1 = st32 (st64 m circle (addr drawCircle)) (circle + 8) 10;
          m2 = st32 (st32 (st64 m1 rectangle (addr drawRectangle)) (rectangle + 8) 10) (rectangle + 12) 20
      in do {
        p1 \<leftarrow> call_draw code m2 circle;
        p2 \<leftarrow> call_draw code m2 rectangle;
        Some (0, p1 @ p2)
      })"

text \<open>What a shape is, how it lies in memory, and what drawing it should print.\<close>

datatype shape = Circle i32 | Rectangle i32 i32

definition routine :: "shape \<Rightarrow> shape_fn" where
  "routine s = (case s of Circle _ \<Rightarrow> drawCircle | Rectangle _ _ \<Rightarrow> drawRectangle)"

definition stored :: "(u64 \<Rightarrow> shape_fn option) \<Rightarrow> mem \<Rightarrow> u64 \<Rightarrow> shape \<Rightarrow> bool" where
  "stored code m p s \<longleftrightarrow> code (ld64 m p) = Some (routine s) \<and>
     (case s of Circle r \<Rightarrow> ld32 m (p + 8) = r | Rectangle w h \<Rightarrow> ld32 m (p + 8) = w \<and> ld32 m (p + 12) = h)"

definition described :: "shape \<Rightarrow> printed" where
  "described s =
     (case s of
        Circle r \<Rightarrow> [(''Drawing a circle...\<newline>'', []), (''Circle radius is %d\<newline>'', [ucast r])]
      | Rectangle w h \<Rightarrow> [(''Drawing a rectangle...\<newline>'', []), (''Rectangle width is %d\<newline>'', [ucast w]),
          (''Rectangle height is %d\<newline>'', [ucast h])])"

lemma call_draw_stored: "stored code m p s \<Longrightarrow> call_draw code m p = Some (described s)"
  by (auto simp: stored_def call_draw_def draw_def described_def routine_def split: shape.splits)

text \<open>The fields of one object do not overlap one another.\<close>

lemma fields_apart:
  "apart p 8 (p + 8) 4" "apart (p + 8) 4 p 8" "apart p 8 (p + 12) 4" "apart (p + 12) 4 p 8"
  "apart (p + 8) 4 (p + 12) 4" "apart (p + 12) 4 (p + 8) 4" for p :: u64
  by (simp_all add: apart_def)

lemma apart_disjoint:
  assumes "\<And>x. in_region a n x \<Longrightarrow> \<not> in_region b k x" and "0 < n" "0 < k"
  shows "apart a n b k"
proof -
  have "\<not> in_region b k a" using assms(1) [of a] assms(2) by simp
  moreover have "\<not> in_region a n b" using assms(1) [of b] assms(3) by auto
  ultimately show ?thesis by (simp add: apart_def in_region_def not_less)
qed

lemma field_of_other:
  assumes "apart p 16 q 16" and "i + n \<le> 16" "j + k \<le> 16" "0 < n" "0 < k"
  shows "apart (p + of_nat i) n (q + of_nat j) k"
proof (rule apart_disjoint [OF _ assms(4,5)])
  fix x assume "in_region (p + of_nat i) n x"
  then have "in_region p 16 x"
    using in_region_shift [of p i n x] assms(2) by (auto simp: in_region_def)
  then have "\<not> in_region q 16 x" by (rule apartD [OF assms(1)])
  then show "\<not> in_region (q + of_nat j) k x"
    using in_region_shift [of q j k x] assms(3) by (auto simp: in_region_def)
qed

lemmas other_fields = field_of_other [of _ _ 0 8 0 8, simplified] field_of_other [of _ _ 0 8 8 4, simplified]
  field_of_other [of _ _ 8 4 0 8, simplified] field_of_other [of _ _ 8 4 8 4, simplified] field_of_other [of _ _ 12 4 0 8, simplified]
  field_of_other [of _ _ 12 4 8 4, simplified]

text \<open>C37. A call through the pointer stored in a shape runs the routine of the shape's own kind on its
  own fields, whatever its address; and the demonstration program, wherever the compiler puts its two
  variables, prints the circle and then the rectangle and returns 0.\<close>

theorem shapes_draw_themselves:
  assumes "\<And>f. code (addr f) = Some f" and "apart circle 16 rectangle 16"
  shows "(\<forall>m p s. stored code m p s \<longrightarrow> call_draw code m p = Some (described s))
    \<and> shapes_main code addr circle rectangle m = Some (0, described (Circle 10) @ described (Rectangle 10 20))"
proof
  define m2 where "m2 = st32 (st32 (st64 (st32 (st64 m circle (addr drawCircle)) (circle + 8) 10) rectangle (addr drawRectangle))
    (rectangle + 8) 10) (rectangle + 12) 20"
  have r: "apart rectangle 16 circle 16" using assms(2) by (simp add: apart_sym)
  have "stored code m2 circle (Circle 10)"
    using assms by (simp add: stored_def routine_def m2_def ld_st_apart fields_apart other_fields [OF r])
  moreover have "stored code m2 rectangle (Rectangle 10 20)"
    using assms by (simp add: stored_def routine_def m2_def ld_st_apart fields_apart)
  ultimately show "shapes_main code addr circle rectangle m = Some (0, described (Circle 10) @ described (Rectangle 10 20))"
    by (simp add: shapes_main_def m2_def [symmetric] call_draw_stored Let_def)
qed (use call_draw_stored in blast)

definition demo_code :: "u64 \<Rightarrow> shape_fn option" where
  "demo_code a = (if a = 0x400000 then Some drawCircle else if a = 0x400040 then Some drawRectangle else None)"

theorem shapes_draw_themselves_witness:
  "shapes_main demo_code (\<lambda>f. if f = drawCircle then 0x400000 else 0x400040) 0x7ff0 0x7fe0 (\<lambda>_. 0)
     = Some (0, described (Circle 10) @ described (Rectangle 10 20))"
proof (rule conjunct2 [OF shapes_draw_themselves])
  show "demo_code (if f = drawCircle then 0x400000 else 0x400040) = Some f" for f
    by (cases f) (simp_all add: demo_code_def)
qed (simp add: apart_def)

subsection \<open>The section table\<close>

datatype section_fn = func_sec

record s_section =
  sec_name :: u64
  sec_func :: u64

definition ld_section :: "mem \<Rightarrow> u64 \<Rightarrow> s_section" where
  "ld_section m p = \<lparr>sec_name = ld64 m p, sec_func = ld64 m (p + 8)\<rparr>"

definition run_section :: "mem \<Rightarrow> section_fn \<Rightarrow> u64 \<Rightarrow> printed" where
  "run_section m f section = (case f of func_sec \<Rightarrow> [(''section: %s\<newline>'', [sec_name (ld_section m section)])])"

text \<open>\<open>while (p < _mysec_end)\<close>\<close>

partial_function (option) section_loop :: "(u64 \<Rightarrow> section_fn option) \<Rightarrow> mem \<Rightarrow> u64 \<Rightarrow> u64 \<Rightarrow> printed option" where
  "section_loop code m stop p =
     (if p < stop then do {
        out \<leftarrow> (if sec_func (ld_section m p) \<noteq> 0
               then map_option (\<lambda>f. run_section m f p) (code (sec_func (ld_section m p))) else Some []);
        rest \<leftarrow> section_loop code m stop (p + 16);
        Some (out @ rest)
      }
      else Some [])"

definition section_main :: "(u64 \<Rightarrow> section_fn option) \<Rightarrow> u64 \<Rightarrow> u64 \<Rightarrow> mem \<Rightarrow> (i32 \<times> printed) option" where
  "section_main code mysec_start mysec_end m = map_option (Pair 0) (section_loop code m mysec_end mysec_start)"

primrec sections_at :: "mem \<Rightarrow> u64 \<Rightarrow> s_section list \<Rightarrow> bool" where
  "sections_at m p [] \<longleftrightarrow> True"
| "sections_at m p (x # xs) \<longleftrightarrow> ld_section m p = x \<and> sections_at m (p + 16) xs"

lemma section_loop_eq:
  assumes "sections_at m p xs" and "unat p + 16 * length xs = unat stop"
    and "\<forall>x \<in> set xs. sec_func x = 0 \<or> code (sec_func x) = Some func_sec"
  shows "section_loop code m stop p
    = Some (map (\<lambda>x. (''section: %s\<newline>'', [sec_name x])) (filter (\<lambda>x. sec_func x \<noteq> 0) xs))"
  using assms
proof (induction xs arbitrary: p)
  case Nil
  then show ?case by (simp add: section_loop.simps [of code m stop p] word_less_nat_alt)
next
  case (Cons x xs)
  have lt: "p < stop" using Cons.prems(2) by (simp add: word_less_nat_alt)
  have "unat p + 16 < 2 ^ 64" using Cons.prems(2) unat_less_2p [of stop] by simp
  then have "unat (p + 16) = unat p + 16" by (simp add: unat_word_ariths)
  then have "section_loop code m stop (p + 16)
      = Some (map (\<lambda>x. (''section: %s\<newline>'', [sec_name x])) (filter (\<lambda>x. sec_func x \<noteq> 0) xs))"
    using Cons.prems by (intro Cons.IH) auto
  then show ?case
    using Cons.prems lt by (cases "sec_func x = 0") (simp_all add: section_loop.simps [of code m stop p] run_section_def)
qed

text \<open>C38. When the two linker symbols enclose a whole number of entries, the program runs the routine of
  every entry that has one, in the order of the section, none twice and none beyond its end, and returns 0.\<close>

theorem sections_run_in_order:
  assumes "sections_at m start xs" and "unat start + 16 * length xs = unat stop"
    and "\<forall>x \<in> set xs. sec_func x = 0 \<or> code (sec_func x) = Some func_sec"
  shows "section_main code start stop m
    = Some (0, map (\<lambda>x. (''section: %s\<newline>'', [sec_name x])) (filter (\<lambda>x. sec_func x \<noteq> 0) xs))"
  using section_loop_eq [OF assms] by (simp add: section_main_def)

theorem sections_run_in_order_witness:
  "section_main (\<lambda>a. if a = 0x400100 then Some func_sec else None) 0x1000 0x1030
     (st64 (st64 (st64 (st64 (\<lambda>_. 0) 0x1000 0x2000) 0x1008 0x400100) 0x1020 0x2010) 0x1028 0x400100)
     = Some (0, [(''section: %s\<newline>'', [0x2000]), (''section: %s\<newline>'', [0x2010])])"
proof -
  let ?m = "st64 (st64 (st64 (st64 (\<lambda>_. 0) 0x1000 0x2000) 0x1008 0x400100) 0x1020 0x2010) 0x1028 0x400100"
  have z: "ld64 (\<lambda>_. 0) a = 0" for a by (simp add: ld64_def bytes_at_numeral)
  have "sections_at ?m 0x1000 [\<lparr>sec_name = 0x2000, sec_func = 0x400100\<rparr>, \<lparr>sec_name = 0, sec_func = 0\<rparr>,
      \<lparr>sec_name = 0x2010, sec_func = 0x400100\<rparr>]"
    by (simp add: ld_section_def ld_st_apart apart_def z)
  from sections_run_in_order [OF this, of "0x1030" "\<lambda>a. if a = 0x400100 then Some func_sec else None"]
  show ?thesis by simp
qed

end
