(* ===== verification/Spec2Isabelle.thy ===== *)
theory Spec2Isabelle
  imports Malloc_Bugs Mutex_Claims Pthread_Life DlMalloc_Equiv Linker_Main_Claims Observer_Claims ElfAnalys_Claims
    Logger_Claims Socket Uart_Claims Linker_Init Linker_Map Dispatch
begin

text \<open>
  A model of the C programs of this repository for AArch64 Linux, and the theorems that make them
  correct. The repository is a set of experiments that share no build; the two large ones are a C
  library without libc (mini_libc) and a dynamic linker with its own copy of that runtime.

  \<^bold>\<open>How the parts interact.\<close> mini_libc's \<open>printf\<close>, logger and sockets format into buffers with the string
  routines and write them through the system calls; its allocator takes memory from \<open>mmap\<close>; its
  threads use \<open>mmap\<close>, \<open>clone\<close> and the futex, as its mutex does. The linker is started by the kernel
  with the stack that holds arguments, environment and auxiliary vector. It relocates itself, loads the
  libraries the executable needs (opening, reading and mapping through its own wrappers, allocating
  with its own allocator), relocates them, binds the executable's PLT against the loaded libraries,
  runs the initialisers and enters the program. The other programs stand alone: an ELF dumper, three
  demonstrations of object-oriented style in C, a section table, and a bare-metal MMU experiment.

  \<^bold>\<open>The machine.\<close> Prelude has the memory, a total function from 64-bit addresses to bytes with
  little-endian loads and stores, regions and when they are apart, and C strings. C integers are words of
  their width; signed ones are read with \<open>sint\<close>. The Linux kernel is a parameter \<open>K\<close> (Syscalls): a function
  of its own state, the memory, the call number and the argument registers. Code that is not in the
  repository (library and program code the linker calls, callbacks, boot.S) is a parameter as well.
  Addresses that the compiler chooses (local arrays, literals) are passed in records called frames.

  \<^bold>\<open>Theories, in the order of the code.\<close>

  \<^item> mini_libc/src/string.c: CString (\<open>strlen\<close>, \<open>itoa\<close>, \<open>strcmp\<close>, \<open>strncmp\<close>), CMem (\<open>memcpy\<close>, and \<open>memset\<close> of
    malloc.c). \<open>memcpy\<close> copies whatever the overlap; the digits of \<open>itoa\<close> read back as the unsigned value of
    its argument; the copies in the linker's runtime agree (DlString).
  \<^item> mini_libc/src/write.c, read.c, open.c, close.c, lseek.c, brk.c, mmap.c, clone.c, fork.c, and
    arm_asm/arm64_sys_call.c: Syscalls.
  \<^item> mini_libc/src/malloc.c: Malloc has the operations on the free lists and block headers, Malloc_Inv the
    heap invariant, Malloc_Ops and Malloc_Free what each operation does to it, Malloc_Client the contract
    with the callers (locale \<open>memory_allocator\<close>, interpreted by both allocators, and once more with the
    relation \<open>heap_exact\<close> that excludes leaks), Malloc_Claims the properties, Malloc_Bugs what happens outside the contract.
  \<^item> mini_libc/src/printf.c: Format has the loop, shared with the linker's \<open>vsprintf\<close> (locale \<open>formatter\<close>
    over the number printers and the block copy), and the rendering of a format that it implements;
    Printf the calls around it. \<open>printf\<close> and \<open>vsnprintf\<close> format into local arrays of 1024 bytes without a
    bound: an output that does not fit is \<open>None\<close>.
  \<^item> mini_libc/src/lock.c: Transition has invariants of step relations and trace refinement of labelled ones as
    locales, Mutex the steps of lock and unlock, one per atomic action, their invariants and the simulation
    of an abstract lock by the events of a run (acquisition, release); Mutex_Claims exclusion, no lost
    wake-up, inclusion of the traces, progress of unlock.
  \<^item> mini_libc/src/pthread.c: Pthread, creation on the caller's heap, and the started thread and its joiner as
    a step relation; Pthread_Life, \<open>pthread_join\<close> as the function its caller runs, and the life of a thread
    from creation to join over the allocator's contract, with nothing leaked.
  \<^item> mini_libc/src/logger.c: Logger, Logger_Claims. mini_libc/src/socket.c: Socket.
  \<^item> dynamic_linker/src/dl_runtime.c: DlString, DlPrint, DlSys, and DlMalloc with DlMalloc_Equiv, where the
    linker's allocator is proved equal to mini_libc's on an initialised heap and so inherits its contract.
  \<^item> dynamic_linker/inc/dl_runtime.h and elf/elf64.h: ElfTypes, the ELF structures read from memory.
  \<^item> dynamic_linker/src/dynamic_linker.c and dynamic_linker_new.c: Linker_State (globals, initial stack,
    auxiliary vector), Linker_Symbols (address translation, dynamic section, symbol search), Linker_Reloc
    (\<open>process_relocation\<close>, \<open>bootstrap_self\<close>), Linker_Load (\<open>load_shared_library\<close>), Linker_Main (\<open>main\<close>); the
    properties are in the theories named \<open>_Claims\<close>, in Linker_Bind (binding the executable as a whole,
    over symbol resolution and address translation), in Linker_Map (where a library's segments are mapped
    and what they hold) and in Linker_Init (order of the initialisers of libraries whose arrays hold
    link-time addresses; entries that relocation has made run-time addresses are translated again).
  \<^item> elf/elf_analys.c: ElfAnalys, and ElfAnalys_Claims on when it stays within its tables.
  \<^item> oop_in_c/my_list.h: RingList, each operation keeps a ring linked both ways. oop_in_c/observe_mode.c:
    Observer (locale \<open>subject\<close>: a registry behaves as a list of subscribers), Observer_Claims.
  \<^item> oop_in_c/polymorphic.c and section/test_section.c: Dispatch. mmu/main.c: Uart, Uart_Claims.

  \<^bold>\<open>Names.\<close> Definitions keep the source's names; the linker runtime's copies are prefixed \<open>dl_\<close>, names that
  clash are prefixed or suffixed (\<open>sys_write\<close>, \<open>sock_bind\<close>, \<open>list_unlink\<close> for \<open>__list_del\<close>). A loop of a
  function \<open>f\<close> is \<open>f_loop\<close> or named after what it computes. C structures are records; the free lists,
  block headers and list nodes are kept in typed stores next to the byte memory.

  \<^bold>\<open>Errors and termination.\<close> A C error return is a value. \<open>None\<close> is a call that does not return (a loop
  without end, code that was called and did not come back), an output that overflows the local array
  it is formatted into or, in the dumper and in Dispatch, an access or a call outside the tables modelled. Loops that need not end are partial functions into \<open>option\<close>, so
  that a theorem with \<open>Some\<close> on the right says that the call returns. Loops the source bounds (1000
  entries of a dynamic section, 28 PLT entries, 5000 symbols, 101 spins) recurse on the rounds left: the
  bound is the code's. Linker_Map takes addresses below 2^63, as user addresses are. Loops over
  arrays that write nothing are searches of the list of elements.

  \<^bold>\<open>Concurrency.\<close> Mutex and Pthread interleave atomic steps of any number of threads, sequentially
  consistent. A futex wait may return at any time with an error or with 0, as documented.
  Pthread_Life has the caller's side alone: what other threads do to memory meanwhile is part of what
  the kernel parameter answers.

  \<^bold>\<open>Not modelled.\<close> Weak memory orderings of the AArch64 atomics. Faults: an access to unmapped memory is
  not an error, frame statements say what is written instead. The linker's globals and list nodes lie
  outside the byte memory, and its messages are a log rather than \<open>printf\<close> writes. What the C library
  prints in the programs that use it is the list of formats and arguments. The assembly files (entry
  points, boot.S, elf_inject.S), linker scripts, binaries and the backup dynamic_linker.c.bak. The test
  program mini_libc/test/test_mini_lib.c. oop_in_c/factory_mode.c, which does not compile.
\<close>

end
